(* ===== verification/Prelude.thy ===== *)
theory Prelude
  imports Main "HOL-Library.Word" "HOL-Library.Multiset"
begin

text \<open>
  Shared vocabulary of the development: machine words of the host (\<open>uintptr_t\<close> and
  \<open>size_t\<close> are 64 bits wide on the x86-64 hosts libirx supports), the ways a C++ call can
  fail, the result monad \<open>cpp_error + 'a\<close>, and the generic lemmas on results and lists
  that the component theories use.
\<close>

unbundle bit_operations_syntax

section \<open>Named collections\<close>

named_theorems res_simps \<open>rewriting of results\<close>
named_theorems seg_simps \<open>projections of address segments\<close>

section \<open>Machine integers\<close>

type_synonym u8 = "8 word"
type_synonym u64 = "64 word"

lemma u64_cmp_nat:
  "(a::u64) \<le> b \<longleftrightarrow> unat a \<le> unat b" "(a::u64) < b \<longleftrightarrow> unat a < unat b"
  by (simp_all add: word_le_nat_alt word_less_nat_alt)

lemma u64_unat_lt [simp]: "unat (a::u64) < 2 ^ 64"
  using unsigned_less [where w = a and ?'a = nat] by simp

lemma unat_add_nowrap: "unat (a::u64) + unat b < 2 ^ 64 \<Longrightarrow> unat (a + b) = unat a + unat b"
  by (simp add: unat_word_ariths)

lemma u64_le_add: "unat (a::u64) + unat b < 2 ^ 64 \<Longrightarrow> a \<le> a + b"
  by (simp add: u64_cmp_nat unat_add_nowrap)

lemma u64_add_diff: "(a::u64) + (v - a) = v"
  by simp

section \<open>How a C++ call fails\<close>

text \<open>
  \<open>ExitFailure\<close> is a call of \<open>exit(EXIT_FAILURE)\<close>, \<open>AssertFail\<close> a failing
  \<open>assert\<close>, \<open>Throw\<close> an uncaught exception. The others are undefined behaviour that
  the code would run into: using a null or wild pointer, a freed list node, a freed heap
  block, the top of an empty stack or the front of an empty list, writing past the end of an
  object, or dividing by zero. \<open>OutOfFuel\<close> is
  the model's own: a loop ran longer than its fuel.
\<close>

datatype cpp_error =
    ExitFailure
  | AssertFail
  | Throw string
  | WildPointer
  | NullDeref
  | UseAfterFree
  | DoubleFree
  | EmptyStack
  | BufferOverflow
  | DivideByZero
  | OutOfFuel

type_synonym 'a res = "cpp_error + 'a"

definition rbind :: "'a res \<Rightarrow> ('a \<Rightarrow> 'b res) \<Rightarrow> 'b res" where
  "rbind m f = (case m of Inl e \<Rightarrow> Inl e | Inr x \<Rightarrow> f x)"

definition rassert :: "bool \<Rightarrow> cpp_error \<Rightarrow> unit res" where
  "rassert b e = (if b then Inr () else Inl e)"

lemma rbind_Inr [simp, res_simps]: "rbind (Inr x) f = f x"
  by (simp add: rbind_def)

lemma rbind_Inl [simp, res_simps]: "rbind (Inl e) f = Inl e"
  by (simp add: rbind_def)

lemma rbind_eq_Inr_iff [res_simps]: "rbind m f = Inr y \<longleftrightarrow> (\<exists>x. m = Inr x \<and> f x = Inr y)"
  by (cases m) simp_all

lemma rbind_eq_InrE [elim!]:
  assumes "rbind m f = Inr y"
  obtains x where "m = Inr x" "f x = Inr y"
  using assms by (cases m) auto

lemma rassert_eq_Inr [simp]: "rassert b e = Inr u \<longleftrightarrow> b"
  by (simp add: rassert_def)

lemma rassert_True [simp]: "rassert True e = Inr ()"
  by (simp add: rassert_def)

lemma rassert_False [simp]: "rassert False e = Inl e"
  by (simp add: rassert_def)

lemma rbind_assoc: "rbind (rbind m f) g = rbind m (\<lambda>x. rbind (f x) g)"
  by (cases m) simp_all

lemma rbind_cong [fundef_cong]:
  assumes "m = m'" and "\<And>x. m' = Inr x \<Longrightarrow> f x = f' x"
  shows "rbind m f = rbind m' f'"
  using assms by (cases m') (auto simp: rbind_def)

text \<open>A result that is a value with a property, for evaluating runs.\<close>

definition res_all :: "'a res \<Rightarrow> ('a \<Rightarrow> bool) \<Rightarrow> bool" where
  "res_all m P = (case m of Inl e \<Rightarrow> False | Inr x \<Rightarrow> P x)"

lemma res_all_iff: "res_all m P \<longleftrightarrow> (\<exists>x. m = Inr x \<and> P x)"
  by (cases m) (simp_all add: res_all_def)

lemma u64_take_bit_id: "unat (x::u64) < 2 ^ n \<Longrightarrow> take_bit n x = x"
  by (simp add: word_unat_eq_iff unsigned_take_bit_eq take_bit_nat_eq_self_iff)

section \<open>Lists\<close>

lemma find_Some_in: "find P xs = Some x \<Longrightarrow> x \<in> set xs \<and> P x"
  by (induction xs) (auto split: if_splits)

lemma find_Some_unique:
  assumes "x \<in> set xs" and "P x" and "\<And>y. y \<in> set xs \<Longrightarrow> P y \<Longrightarrow> y = x"
  shows "find P xs = Some x"
proof (cases "find P xs")
  case None
  with assms(1,2) show ?thesis by (auto simp: find_None_iff)
next
  case (Some y)
  then have "y \<in> set xs" "P y" by (auto simp: find_Some_iff)
  with assms(3) Some show ?thesis by simp
qed

end
