(* ===== verification/AllocMap.thy ===== *)
theory AllocMap
  imports Prelude
begin

text \<open>
  \<open>AllocationMap\<close> (\<open>libirx/irinterpreter2-mmap.h\<close>), the
  \<open>std::map<uintptr_t, allocation_data*>\<close> the allocators keep twice, and the scans
  \<open>find_start\<close> and \<open>find_end\<close> over it (\<open>libirx/irinterpreter2-mmap.cc\<close>). A map is
  the list of its entries in key order, which is the order its iterators visit; a pointer to an
  \<open>allocation_data\<close> is the number of the list node that holds it; an iterator is the entry it
  stands on, or \<open>None\<close> for \<open>end()\<close>.
\<close>

section \<open>The ordered map\<close>

type_synonym node = nat
type_synonym amap = "(u64 \<times> node) list"
type_synonym iter = "(u64 \<times> node) option"

text \<open>\<open>m[k] = d\<close> and \<open>m.erase(it)\<close>, the iterator given by its key.\<close>

fun map_put :: "u64 \<Rightarrow> node \<Rightarrow> amap \<Rightarrow> amap" where
  "map_put k d [] = [(k, d)]"
| "map_put k d ((k', d') # m) =
     (if k < k' then (k, d) # (k', d') # m
      else if k = k' then (k, d) # m
      else (k', d') # map_put k d m)"

fun map_erase :: "u64 \<Rightarrow> amap \<Rightarrow> amap" where
  "map_erase k [] = []"
| "map_erase k ((k', d') # m) = (if k = k' then m else (k', d') # map_erase k m)"

section \<open>The scans\<close>

text \<open>The loop over the entries, with \<open>e\<close> the best entry so far.\<close>

fun find_start_loop :: "amap \<Rightarrow> u64 \<Rightarrow> iter \<Rightarrow> iter" where
  "find_start_loop [] k e = e"
| "find_start_loop (it # m) k e =
     find_start_loop m k
       (if fst it \<le> k
        then (case e of None \<Rightarrow> Some it
              | Some e' \<Rightarrow> if fst e' < fst it then Some it else e)
        else e)"

definition find_start :: "amap \<Rightarrow> u64 \<Rightarrow> iter" where
  "find_start m k = find_start_loop m k None"

fun find_end_loop :: "amap \<Rightarrow> u64 \<Rightarrow> iter \<Rightarrow> iter" where
  "find_end_loop [] k e = e"
| "find_end_loop (it # m) k e =
     find_end_loop m k
       (if fst it \<ge> k
        then (case e of None \<Rightarrow> Some it
              | Some e' \<Rightarrow> if fst e' > fst it then Some it else e)
        else e)"

definition find_end :: "amap \<Rightarrow> u64 \<Rightarrow> iter" where
  "find_end m k = find_end_loop m k None"

section \<open>What the scans find\<close>

definition best_start :: "amap \<Rightarrow> u64 \<Rightarrow> iter \<Rightarrow> bool" where
  "best_start m k e \<longleftrightarrow>
     (case e of
        None \<Rightarrow> (\<forall>(k', d) \<in> set m. k < k')
      | Some (l, d) \<Rightarrow> (l, d) \<in> set m \<and> l \<le> k \<and> (\<forall>(k', d') \<in> set m. k' \<le> k \<longrightarrow> k' \<le> l))"

definition best_end :: "amap \<Rightarrow> u64 \<Rightarrow> iter \<Rightarrow> bool" where
  "best_end m k e \<longleftrightarrow>
     (case e of
        None \<Rightarrow> (\<forall>(k', d) \<in> set m. k' < k)
      | Some (h, d) \<Rightarrow> (h, d) \<in> set m \<and> k \<le> h \<and> (\<forall>(k', d') \<in> set m. k \<le> k' \<longrightarrow> h \<le> k'))"

lemma find_start_loop_best:
  "best_start seen k e \<Longrightarrow> best_start (seen @ m) k (find_start_loop m k e)"
proof (induction m arbitrary: seen e)
  case Nil
  then show ?case by simp
next
  case (Cons it m)
  let ?e' = "if fst it \<le> k then (case e of None \<Rightarrow> Some it
    | Some e' \<Rightarrow> if fst e' < fst it then Some it else e) else e"
  have "best_start (seen @ [it]) k ?e'"
    using Cons.prems by (cases it) (fastforce simp: best_start_def split: option.splits)
  from Cons.IH [OF this] show ?case by simp
qed

lemma find_start_best: "best_start m k (find_start m k)"
  using find_start_loop_best [of "[]" k None m] by (simp add: find_start_def best_start_def)

lemma find_end_loop_best:
  "best_end seen k e \<Longrightarrow> best_end (seen @ m) k (find_end_loop m k e)"
proof (induction m arbitrary: seen e)
  case Nil
  then show ?case by simp
next
  case (Cons it m)
  let ?e' = "if fst it \<ge> k then (case e of None \<Rightarrow> Some it
    | Some e' \<Rightarrow> if fst e' > fst it then Some it else e) else e"
  have "best_end (seen @ [it]) k ?e'"
    using Cons.prems by (cases it) (fastforce simp: best_end_def split: option.splits)
  from Cons.IH [OF this] show ?case by simp
qed

lemma find_end_best: "best_end m k (find_end m k)"
  using find_end_loop_best [of "[]" k None m] by (simp add: find_end_def best_end_def)

end
