(* ===== verification/IrxAllocator.thy ===== *)
theory IrxAllocator
  imports AllocMap
begin

text \<open>
  \<open>IRXAllocator\<close> (\<open>libirx/irinterpreter2-mmap.h\<close>, \<open>libirx/irinterpreter2-mmap.cc\<close>), the
  base class of the allocators: the two ordered maps from the first and the past-the-end
  interpreter address of a block to its \<open>allocation_data\<close>, the list of nodes that hold the
  data, and the translation between interpreter addresses (\<open>vvptr\<close>) and host addresses
  (\<open>vptr\<close>). The subclasses extend the record, as the C++ classes extend the class.

  \<open>find\<close> reads \<open>->second\<close> through iterators that can be \<open>end()\<close>. What such a read
  yields is not determined by the code, so it is an argument: \<open>er a\<close> holds the pointers read
  through \<open>vvmem_start.end()\<close> and \<open>vvmem_end.end()\<close> in state \<open>a\<close>.
\<close>

section \<open>State\<close>

record alloc_data =
  ad_vptr :: u64
  ad_size :: u64

record irx_alloc =
  ia_vvptr :: u64
  ia_vptr :: u64
  ia_size :: u64

record allocation =
  al_start :: iter
  al_end :: iter
  al_data :: "node option"

record irx =
  allocationsHolder :: "(node \<times> alloc_data) list"
  vvmem_start :: amap
  vvmem_end :: amap
  allocations :: "u64 list"
  next_node :: node

record end_reads =
  rd_start :: node
  rd_end :: node

definition empty_irx :: irx where
  "empty_irx = \<lparr>allocationsHolder = [], vvmem_start = [], vvmem_end = [], allocations = [],
     next_node = 0\<rparr>"

section \<open>Operations\<close>

definition deref :: "'a irx_scheme \<Rightarrow> node \<Rightarrow> alloc_data res" where
  "deref a n = (case map_of (allocationsHolder a) n of None \<Rightarrow> Inl UseAfterFree | Some d \<Rightarrow> Inr d)"

definition second :: "node \<Rightarrow> iter \<Rightarrow> node" where
  "second junk it = (case it of None \<Rightarrow> junk | Some (k, d) \<Rightarrow> d)"

definition irx_has :: "'a irx_scheme \<Rightarrow> u64 \<Rightarrow> bool" where
  "irx_has a vvptr =
     (let st = find_start (vvmem_start a) vvptr;
          en = find_end (vvmem_end a) vvptr
      in st \<noteq> None \<and> en \<noteq> None)"

definition irx_find :: "('a irx_scheme \<Rightarrow> end_reads) \<Rightarrow> 'a irx_scheme \<Rightarrow> u64 \<Rightarrow> allocation" where
  "irx_find er a vvptr =
     (let st = find_start (vvmem_start a) vvptr;
          en = find_end (vvmem_end a) vvptr;
          (st', en') = (if second (rd_start (er a)) st \<noteq> second (rd_end (er a)) en
                        then (None, None) else (st, en));
          data = (case st' of None \<Rightarrow> None | Some (k, d) \<Rightarrow> Some d)
      in \<lparr>al_start = st', al_end = en', al_data = data\<rparr>)"

definition irx_put :: "u64 \<Rightarrow> u64 \<Rightarrow> u64 \<Rightarrow> 'a irx_scheme \<Rightarrow> irx_alloc \<times> 'a irx_scheme" where
  "irx_put vvptr vptr sz a =
     (let n = next_node a
      in (\<lparr>ia_vvptr = vvptr, ia_vptr = vptr, ia_size = sz\<rparr>,
          a\<lparr>allocationsHolder := allocationsHolder a @ [(n, \<lparr>ad_vptr = vptr, ad_size = sz\<rparr>)],
            next_node := Suc n,
            vvmem_start := map_put vvptr n (vvmem_start a),
            vvmem_end := map_put (vvptr + sz) n (vvmem_end a)\<rparr>))"

definition irx_remove ::
    "('a irx_scheme \<Rightarrow> end_reads) \<Rightarrow> u64 \<Rightarrow> 'a irx_scheme \<Rightarrow> 'a irx_scheme res" where
  "irx_remove er vvptr a =
     (let al = irx_find er a vvptr
      in rbind (rassert (second (rd_start (er a)) (al_start al) = second (rd_end (er a)) (al_end al))
                  AssertFail) (\<lambda>_.
         case (al_start al, al_end al) of
           (Some (l, n), Some (h, n')) \<Rightarrow>
             rbind (deref a n) (\<lambda>d.
               Inr (a\<lparr>vvmem_start := map_erase l (vvmem_start a),
                      vvmem_end := map_erase h (vvmem_end a),
                      allocationsHolder :=
                        filter (\<lambda>(m, d'). ad_vptr d' \<noteq> ad_vptr d) (allocationsHolder a)\<rparr>))
         | _ \<Rightarrow> Inl WildPointer))"

definition irx_vvptr2vptr ::
    "('a irx_scheme \<Rightarrow> end_reads) \<Rightarrow> 'a irx_scheme \<Rightarrow> u64 \<Rightarrow> u64 res" where
  "irx_vvptr2vptr er a vvptr =
     (let al = irx_find er a vvptr
      in case al_data al of
           None \<Rightarrow> Inr 0
         | Some n \<Rightarrow>
             rbind (rassert (second (rd_start (er a)) (al_start al) = second (rd_end (er a)) (al_end al))
                      AssertFail) (\<lambda>_.
             case al_start al of
               None \<Rightarrow> Inl WildPointer
             | Some (l, _) \<Rightarrow> rbind (deref a n) (\<lambda>d. Inr (ad_vptr d + (vvptr - l)))))"

fun find_vvptr :: "'a irx_scheme \<Rightarrow> amap \<Rightarrow> u64 \<Rightarrow> iter res" where
  "find_vvptr a [] vptr = Inr None"
| "find_vvptr a ((k, n) # m) vptr =
     rbind (deref a n) (\<lambda>d.
       if ad_vptr d = vptr then Inr (Some (k, n)) else find_vvptr a m vptr)"

definition irx_vptr2vvptr :: "'a irx_scheme \<Rightarrow> u64 \<Rightarrow> u64 res" where
  "irx_vptr2vvptr a vptr =
     rbind (find_vvptr a (vvmem_start a) vptr) (\<lambda>it.
       case it of
         None \<Rightarrow> Inr 0
       | Some (k, n) \<Rightarrow> rbind (deref a n) (\<lambda>d. Inr (k + (vptr - ad_vptr d))))"

definition isInternalAllocated :: "'a irx_scheme \<Rightarrow> u64 \<Rightarrow> bool" where
  "isInternalAllocated a vptr \<longleftrightarrow> vptr \<in> set (allocations a)"

section \<open>Abstract view: disjoint blocks\<close>

text \<open>
  The specification of an allocator's contents: a list of blocks in address order. A block
  covers its past-the-end address too, so two blocks are disjoint only if they do not touch.
\<close>

datatype blk = Blk (b_lo: u64) (b_hi: u64) (b_node: node) (b_vptr: u64)

definition covers :: "u64 \<Rightarrow> blk \<Rightarrow> bool" where
  "covers v b \<longleftrightarrow> b_lo b \<le> v \<and> v \<le> b_hi b"

definition apart :: "blk \<Rightarrow> blk \<Rightarrow> bool" where
  "apart b c \<longleftrightarrow> b_hi b < b_lo c \<or> b_hi c < b_lo b"

definition starts :: "blk list \<Rightarrow> amap" where
  "starts = map (\<lambda>b. (b_lo b, b_node b))"

definition ends :: "blk list \<Rightarrow> amap" where
  "ends = map (\<lambda>b. (b_hi b, b_node b))"

definition blks_ok :: "blk list \<Rightarrow> bool" where
  "blks_ok bs \<longleftrightarrow>
     (\<forall>b \<in> set bs. b_lo b \<le> b_hi b) \<and> sorted_wrt (\<lambda>b c. b_hi b < b_lo c) bs \<and>
     distinct (map b_node bs)"

definition blk_data :: "blk \<Rightarrow> alloc_data" where
  "blk_data b = \<lparr>ad_vptr = b_vptr b, ad_size = b_hi b - b_lo b\<rparr>"

definition blk_rel :: "'a irx_scheme \<Rightarrow> blk list \<Rightarrow> bool" where
  "blk_rel a bs \<longleftrightarrow>
     blks_ok bs \<and> vvmem_start a = starts bs \<and> vvmem_end a = ends bs \<and>
     (\<forall>b \<in> set bs. map_of (allocationsHolder a) (b_node b) = Some (blk_data b)) \<and>
     (\<forall>n \<in> fst ` set (allocationsHolder a). n < next_node a) \<and>
     distinct (map fst (allocationsHolder a))"

text \<open>The past-the-end reads never give a pointer that is in one of the maps.\<close>

definition end_reads_ok :: "('a irx_scheme \<Rightarrow> end_reads) \<Rightarrow> bool" where
  "end_reads_ok er \<longleftrightarrow>
     (\<forall>a. rd_start (er a) \<notin> snd ` set (vvmem_end a) \<and> rd_end (er a) \<notin> snd ` set (vvmem_start a))"

definition lookup_blk :: "blk list \<Rightarrow> u64 \<Rightarrow> blk option" where
  "lookup_blk bs v = find (covers v) bs"

lemmas blk_simps = starts_def ends_def covers_def apart_def

section \<open>Facts about blocks\<close>

lemma sorted_wrt_cases:
  assumes "sorted_wrt R xs" and "x \<in> set xs" and "y \<in> set xs"
  shows "x = y \<or> R x y \<or> R y x"
  using assms by (induction xs) auto

lemma blks_ok_apart:
  "blks_ok bs \<Longrightarrow> b \<in> set bs \<Longrightarrow> c \<in> set bs \<Longrightarrow> b = c \<or> apart b c"
  unfolding blks_ok_def apart_def by (blast dest: sorted_wrt_cases)

lemma blks_ok_le: "blks_ok bs \<Longrightarrow> b \<in> set bs \<Longrightarrow> b_lo b \<le> b_hi b"
  by (simp add: blks_ok_def)

lemma blks_ok_node:
  "blks_ok bs \<Longrightarrow> b \<in> set bs \<Longrightarrow> c \<in> set bs \<Longrightarrow> b_node b = b_node c \<Longrightarrow> b = c"
  unfolding blks_ok_def by (metis distinct_map inj_onD)

lemma covers_unique:
  assumes "blks_ok bs" "b \<in> set bs" "c \<in> set bs" "covers v b" "covers v c"
  shows "b = c"
  using blks_ok_apart [OF assms(1-3)] assms(4,5) by (auto simp: blk_simps)

lemma lookup_blk_Some_iff:
  assumes "blks_ok bs"
  shows "lookup_blk bs v = Some b \<longleftrightarrow> b \<in> set bs \<and> covers v b"
proof
  assume "lookup_blk bs v = Some b"
  then show "b \<in> set bs \<and> covers v b" by (auto simp: lookup_blk_def find_Some_iff)
next
  assume "b \<in> set bs \<and> covers v b"
  then show "lookup_blk bs v = Some b"
    unfolding lookup_blk_def using covers_unique [OF assms] by (intro find_Some_unique) auto
qed

lemma lookup_blk_None_iff: "lookup_blk bs v = None \<longleftrightarrow> (\<forall>b \<in> set bs. \<not> covers v b)"
  by (auto simp: lookup_blk_def find_None_iff)

lemma find_start_covered:
  assumes ok: "blks_ok bs" and b: "b \<in> set bs" and v: "covers v b"
  shows "find_start (starts bs) v = Some (b_lo b, b_node b)"
proof -
  have best: "best_start (starts bs) v (find_start (starts bs) v)" by (rule find_start_best)
  show ?thesis
  proof (cases "find_start (starts bs) v")
    case None
    with best b v show ?thesis by (force simp: best_start_def blk_simps)
  next
    case (Some e)
    with best obtain c where c: "c \<in> set bs" "e = (b_lo c, b_node c)" "b_lo c \<le> v"
      and ge: "b_lo b \<le> b_lo c"
      using b v by (force simp: best_start_def blk_simps)
    have "\<not> apart b c"
      using blks_ok_le [OF ok c(1)] c(3) ge v by (auto simp: blk_simps)
    with blks_ok_apart [OF ok b c(1)] have "c = b" by auto
    with Some c(2) show ?thesis by simp
  qed
qed

lemma find_end_covered:
  assumes ok: "blks_ok bs" and b: "b \<in> set bs" and v: "covers v b"
  shows "find_end (ends bs) v = Some (b_hi b, b_node b)"
proof -
  have best: "best_end (ends bs) v (find_end (ends bs) v)" by (rule find_end_best)
  show ?thesis
  proof (cases "find_end (ends bs) v")
    case None
    with best b v show ?thesis by (force simp: best_end_def blk_simps)
  next
    case (Some e)
    with best obtain c where c: "c \<in> set bs" "e = (b_hi c, b_node c)" "v \<le> b_hi c"
      and le: "b_hi c \<le> b_hi b"
      using b v by (force simp: best_end_def blk_simps)
    have "\<not> apart b c"
      using blks_ok_le [OF ok c(1)] c(3) le v by (auto simp: blk_simps)
    with blks_ok_apart [OF ok b c(1)] have "c = b" by auto
    with Some c(2) show ?thesis by simp
  qed
qed

lemma find_uncovered_differ:
  assumes ok: "distinct (map b_node bs)" and no: "\<forall>b \<in> set bs. \<not> covers v b"
    and s: "find_start (starts bs) v = Some (l, n)" and e: "find_end (ends bs) v = Some (h, n')"
  shows "n \<noteq> n'"
proof
  assume "n = n'"
  from find_start_best [of "starts bs" v] s obtain b where
    b: "b \<in> set bs" "l = b_lo b" "n = b_node b" "b_lo b \<le> v"
    by (auto simp: best_start_def starts_def)
  from find_end_best [of "ends bs" v] e obtain c where
    c: "c \<in> set bs" "h = b_hi c" "n' = b_node c" "v \<le> b_hi c"
    by (auto simp: best_end_def ends_def)
  from b c \<open>n = n'\<close> ok have "b = c" by (metis distinct_map inj_onD)
  with b c no show False by (auto simp: covers_def)
qed

lemma second_simps [simp]: "second j None = j" "second j (Some (k, d)) = d"
  by (simp_all add: second_def)

lemma blk_relD:
  assumes "blk_rel a bs"
  shows "blks_ok bs" "vvmem_start a = starts bs" "vvmem_end a = ends bs"
    and "b \<in> set bs \<Longrightarrow> deref a (b_node b) = Inr (blk_data b)"
  using assms by (auto simp: blk_rel_def deref_def)

lemma end_reads_okD:
  assumes "end_reads_ok er"
  shows "n \<in> snd ` set (vvmem_end a) \<Longrightarrow> rd_start (er a) \<noteq> n"
    and "n \<in> snd ` set (vvmem_start a) \<Longrightarrow> rd_end (er a) \<noteq> n"
  using assms unfolding end_reads_ok_def by metis+

definition al_of :: "blk option \<Rightarrow> allocation" where
  "al_of ob = (case ob of
     None \<Rightarrow> \<lparr>al_start = None, al_end = None, al_data = None\<rparr>
   | Some b \<Rightarrow> \<lparr>al_start = Some (b_lo b, b_node b), al_end = Some (b_hi b, b_node b),
                al_data = Some (b_node b)\<rparr>)"

lemma al_of_simps [simp]:
  "al_of None = \<lparr>al_start = None, al_end = None, al_data = None\<rparr>"
  "al_of (Some b) = \<lparr>al_start = Some (b_lo b, b_node b), al_end = Some (b_hi b, b_node b),
     al_data = Some (b_node b)\<rparr>"
  by (simp_all add: al_of_def)

lemma irx_find_uncovered:
  assumes rel: "distinct (map b_node bs)" "vvmem_start a = starts bs" "vvmem_end a = ends bs"
    and er: "end_reads_ok er" and no: "\<forall>b \<in> set bs. \<not> covers v b"
  shows "irx_find er a v = al_of None"
proof -
  note [simp] = rel(2,3)
  let ?s = "find_start (starts bs) v" and ?e = "find_end (ends bs) v"
  have "(?s = None \<and> ?e = None) \<or> second (rd_start (er a)) ?s \<noteq> second (rd_end (er a)) ?e"
  proof (cases ?s)
    case sN: None
    show ?thesis
    proof (cases ?e)
      case (Some h)
      with find_end_best [of "ends bs" v] have "snd h \<in> snd ` set (vvmem_end a)"
        by (cases h) (force simp: best_end_def)
      then have "rd_start (er a) \<noteq> snd h" by (rule end_reads_okD [OF er])
      with Some sN show ?thesis by (cases h) simp
    qed (use sN in simp)
  next
    case sS: (Some l)
    show ?thesis
    proof (cases ?e)
      case None
      from sS find_start_best [of "starts bs" v] have "snd l \<in> snd ` set (vvmem_start a)"
        by (cases l) (force simp: best_start_def)
      then have "rd_end (er a) \<noteq> snd l" by (rule end_reads_okD [OF er])
      with None sS show ?thesis by (cases l) simp
    next
      case (Some h)
      with sS show ?thesis
        using find_uncovered_differ [OF rel(1) no] by (cases l; cases h) auto
    qed
  qed
  then show ?thesis by (auto simp: irx_find_def)
qed

lemma irx_find_maps:
  assumes rel: "blks_ok bs" "vvmem_start a = starts bs" "vvmem_end a = ends bs"
    and er: "end_reads_ok er"
  shows "irx_find er a v = al_of (lookup_blk bs v)"
proof (cases "lookup_blk bs v")
  case (Some b)
  note [simp] = rel(2,3)
  from Some have "b \<in> set bs" "covers v b"
    using lookup_blk_Some_iff [OF rel(1)] by auto
  with rel(1) Some show ?thesis
    by (simp add: irx_find_def find_start_covered find_end_covered)
next
  case None
  then have "\<forall>b \<in> set bs. \<not> covers v b" by (simp add: lookup_blk_None_iff)
  with None irx_find_uncovered [OF _ rel(2,3) er] rel(1) show ?thesis by (simp add: blks_ok_def)
qed

lemma irx_find_eq:
  assumes "blk_rel a bs" and "end_reads_ok er"
  shows "irx_find er a v = al_of (lookup_blk bs v)"
  using irx_find_maps [OF blk_relD(1-3) [OF assms(1)] assms(2)] .

section \<open>Insertion\<close>

lemma map_put_starts:
  "\<forall>c \<in> set bs. b_lo c \<noteq> b_lo b \<Longrightarrow>
   map_put (b_lo b) (b_node b) (starts bs) = starts (insort_key b_lo b bs)"
  by (induction bs) (auto simp: starts_def)

lemma map_put_ends:
  assumes "b_lo b \<le> b_hi b" and "\<forall>c \<in> set bs. b_lo c \<le> b_hi c \<and> apart b c"
  shows "map_put (b_hi b) (b_node b) (ends bs) = ends (insort_key b_lo b bs)"
  using assms by (induction bs) (auto simp: ends_def apart_def)

lemma insort_blks_ok:
  assumes ok: "blks_ok bs" and b: "b_lo b \<le> b_hi b" and ap: "\<forall>c \<in> set bs. apart b c"
    and n: "b_node b \<notin> b_node ` set bs"
  shows "blks_ok (insort_key b_lo b bs)"
proof -
  have "sorted_wrt (\<lambda>b c. b_hi b < b_lo c) (insort_key b_lo b bs)"
    using ok ap b unfolding blks_ok_def
  proof (induction bs)
    case (Cons c bs)
    then have c: "b_lo c \<le> b_hi c" "apart b c" by simp_all
    show ?case
    proof (cases "b_lo b \<le> b_lo c")
      case True
      with c b have "b_hi b < b_lo c" by (auto simp: apart_def)
      with Cons.prems True c show ?thesis by fastforce
    next
      case False
      with c b have "b_hi c < b_lo b" by (auto simp: apart_def)
      with Cons False show ?thesis by (auto simp: set_insort_key)
    qed
  qed simp
  moreover have "distinct (map b_node (insort_key b_lo b bs))"
  proof -
    have "mset (map b_node (insort_key b_lo b bs)) = mset (map b_node (b # bs))" by simp
    then have "distinct (map b_node (insort_key b_lo b bs)) = distinct (map b_node (b # bs))"
      by (rule mset_eq_imp_distinct_iff)
    then show ?thesis using ok n by (auto simp: blks_ok_def)
  qed
  ultimately show ?thesis using ok b by (auto simp: blks_ok_def set_insort_key)
qed

lemma irx_put_rel:
  assumes rel: "blk_rel a bs"
    and wrap: "l \<le> l + sz"
    and ap: "\<forall>c \<in> set bs. l + sz < b_lo c \<or> b_hi c < l"
  shows "blk_rel (snd (irx_put l p sz a)) (insort_key b_lo (Blk l (l + sz) (next_node a) p) bs)"
    (is "blk_rel ?a' (insort_key b_lo ?b bs)")
proof -
  note r = blk_relD [OF rel]
  have hold: "map_of (allocationsHolder a) (b_node c) = Some (blk_data c)" if "c \<in> set bs" for c
    using rel that by (simp add: blk_rel_def)
  have lt: "\<forall>n \<in> fst ` set (allocationsHolder a). n < next_node a"
    and dist: "distinct (map fst (allocationsHolder a))"
    using rel by (simp_all add: blk_rel_def)
  have nlt: "b_node c < next_node a" if "c \<in> set bs" for c
    using lt map_of_SomeD [OF hold [OF that]] by (force)
  have ap': "\<forall>c \<in> set bs. b_lo c \<le> b_hi c \<and> apart ?b c"
    using ap blks_ok_le [OF r(1)] by (auto simp: apart_def)
  have new: "map_of (allocationsHolder a) (next_node a) = None"
    using lt by (force simp: map_of_eq_None_iff)
  have "blks_ok (insort_key b_lo ?b bs)"
  proof (rule insort_blks_ok [OF r(1)])
    show "b_node ?b \<notin> b_node ` set bs" using nlt by (auto dest: less_not_refl2)
  qed (use ap' wrap in auto)
  moreover
  have "vvmem_start ?a' = starts (insort_key b_lo ?b bs)"
    using map_put_starts [of bs ?b] ap' wrap by (fastforce simp: irx_put_def Let_def r apart_def)
  moreover have "vvmem_end ?a' = ends (insort_key b_lo ?b bs)"
    using map_put_ends [of ?b bs] ap' wrap by (simp add: irx_put_def Let_def r)
  moreover have "\<forall>c \<in> set (insort_key b_lo ?b bs).
      map_of (allocationsHolder ?a') (b_node c) = Some (blk_data c)"
    using new hold by (auto simp: irx_put_def Let_def set_insort_key blk_data_def map_add_def)
  ultimately show ?thesis using lt dist
    by (auto simp: blk_rel_def irx_put_def Let_def less_Suc_eq)
qed

section \<open>Removal\<close>

lemma map_erase_starts:
  assumes "blks_ok bs" and "b \<in> set bs"
  shows "map_erase (b_lo b) (starts bs) = starts (remove1 b bs)"
  using assms
proof (induction bs)
  case (Cons c bs)
  show ?case
  proof (cases "c = b")
    case False
    with Cons.prems have "b_lo c \<noteq> b_lo b"
      using blks_ok_apart [OF Cons.prems(1), of b c] blks_ok_le [OF Cons.prems(1), of b]
        blks_ok_le [OF Cons.prems(1), of c]
      by (auto simp: apart_def)
    with False Cons show ?thesis by (auto simp: starts_def blks_ok_def)
  qed (simp add: starts_def)
qed simp

lemma map_erase_ends:
  assumes "blks_ok bs" and "b \<in> set bs"
  shows "map_erase (b_hi b) (ends bs) = ends (remove1 b bs)"
  using assms
proof (induction bs)
  case (Cons c bs)
  show ?case
  proof (cases "c = b")
    case False
    with Cons.prems have "b_hi c \<noteq> b_hi b"
      using blks_ok_apart [OF Cons.prems(1), of b c] blks_ok_le [OF Cons.prems(1), of b]
        blks_ok_le [OF Cons.prems(1), of c]
      by (auto simp: apart_def)
    with False Cons show ?thesis by (auto simp: ends_def blks_ok_def)
  qed (simp add: ends_def)
qed simp

lemma sorted_wrt_remove1: "sorted_wrt R xs \<Longrightarrow> sorted_wrt R (remove1 x xs)"
  by (induction xs) (auto dest: notin_set_remove1)

lemma blks_ok_distinct: "blks_ok bs \<Longrightarrow> distinct bs"
  by (simp add: blks_ok_def distinct_map)

lemma blks_ok_remove1: "blks_ok bs \<Longrightarrow> blks_ok (remove1 b bs)"
  by (auto simp: blks_ok_def sorted_wrt_remove1 distinct_map distinct_remove1
      dest: notin_set_remove1 inj_on_subset [OF _ set_remove1_subset])

text \<open>
  The allocators free a block by its host address, so what follows asks that no two live blocks
  share one.
\<close>

definition vptrs_distinct :: "blk list \<Rightarrow> bool" where
  "vptrs_distinct bs \<longleftrightarrow> distinct (map b_vptr bs)"

lemma map_of_filter_keep:
  "distinct (map fst xs) \<Longrightarrow> map_of xs k = Some d \<Longrightarrow> P (k, d) \<Longrightarrow>
   map_of (filter P xs) k = Some d"
  by (induction xs) (auto split: if_splits simp: map_of_eq_None_iff rev_image_eqI)

lemma map_of_filter_drop:
  "distinct (map fst xs) \<Longrightarrow> map_of xs k = Some d \<Longrightarrow> \<not> P (k, d) \<Longrightarrow>
   map_of (filter P xs) k = None"
  by (induction xs) (auto split: if_splits simp: map_of_eq_None_iff rev_image_eqI)

lemma irx_remove_rel:
  assumes rel: "blk_rel a bs" and er: "end_reads_ok er" and vd: "vptrs_distinct bs"
    and b: "lookup_blk bs v = Some b"
  shows "\<exists>a'. irx_remove er v a = Inr a' \<and> blk_rel a' (remove1 b bs) \<and>
    allocations a' = allocations a \<and> irx.more a' = irx.more a"
proof -
  note r = blk_relD [OF rel]
  have bs: "b \<in> set bs" using b lookup_blk_Some_iff [OF r(1)] by auto
  let ?hold = "filter (\<lambda>(m, d). ad_vptr d \<noteq> b_vptr b) (allocationsHolder a)"
  let ?a' = "a\<lparr>vvmem_start := starts (remove1 b bs), vvmem_end := ends (remove1 b bs),
    allocationsHolder := ?hold\<rparr>"
  have run: "irx_remove er v a = Inr ?a'"
    using irx_find_eq [OF rel er] r(4) [OF bs] map_erase_starts [OF r(1) bs]
      map_erase_ends [OF r(1) bs] b
    by (simp add: irx_remove_def r(2,3)) (simp add: blk_data_def)
  have dist: "distinct (map fst (allocationsHolder a))"
    and lt: "\<forall>n \<in> fst ` set (allocationsHolder a). n < next_node a"
    and hold: "\<forall>c \<in> set bs. map_of (allocationsHolder a) (b_node c) = Some (blk_data c)"
    using rel by (simp_all add: blk_rel_def)
  have "map_of ?hold (b_node c) = Some (blk_data c)" if "c \<in> set (remove1 b bs)" for c
  proof -
    from that have c: "c \<in> set bs" "c \<noteq> b"
      using blks_ok_distinct [OF r(1)] by (auto dest: notin_set_remove1)
    with vd bs have "b_vptr c \<noteq> b_vptr b"
      by (auto simp: vptrs_distinct_def distinct_map dest: inj_onD)
    with hold c dist show ?thesis
      by (intro map_of_filter_keep) (auto simp: blk_data_def)
  qed
  with blks_ok_remove1 [OF r(1), of b] dist lt have "blk_rel ?a' (remove1 b bs)"
    by (auto simp: blk_rel_def distinct_map_filter)
  with run show ?thesis by simp
qed

lemma vptrs_distinct_remove1: "vptrs_distinct bs \<Longrightarrow> vptrs_distinct (remove1 b bs)"
  by (auto simp: vptrs_distinct_def distinct_map distinct_remove1
      dest: inj_on_subset [OF _ set_remove1_subset])

lemma lookup_blk_insort:
  assumes ok': "blks_ok (insort_key b_lo b bs)" and ok: "blks_ok bs"
  shows "lookup_blk (insort_key b_lo b bs) v = (if covers v b then Some b else lookup_blk bs v)"
proof (cases "covers v b")
  case True
  then show ?thesis by (simp add: lookup_blk_Some_iff [OF ok'] set_insort_key)
next
  case False
  show ?thesis
  proof (cases "lookup_blk bs v")
    case None
    with False have "lookup_blk (insort_key b_lo b bs) v = None"
      by (auto simp: lookup_blk_None_iff set_insort_key)
    with None False show ?thesis by simp
  next
    case (Some c)
    then have "c \<in> set (insort_key b_lo b bs)" "covers v c"
      using lookup_blk_Some_iff [OF ok] by (auto simp: set_insort_key)
    then show ?thesis unfolding Some
      using False by (simp add: lookup_blk_Some_iff [OF ok'])
  qed
qed

lemma lookup_blk_remove1:
  assumes ok: "blks_ok bs" and b: "b \<in> set bs"
  shows "lookup_blk (remove1 b bs) w = (if covers w b then None else lookup_blk bs w)"
proof (cases "covers w b")
  case True
  then have "\<forall>c \<in> set (remove1 b bs). \<not> covers w c"
    using covers_unique [OF ok b] blks_ok_distinct [OF ok] by auto
  with True show ?thesis by (simp add: lookup_blk_None_iff)
next
  case False
  show ?thesis
  proof (cases "lookup_blk bs w")
    case None
    then have "lookup_blk (remove1 b bs) w = None"
      by (auto simp: lookup_blk_None_iff dest: notin_set_remove1)
    with None False show ?thesis by simp
  next
    case (Some c)
    then have c: "c \<in> set bs" "covers w c"
      using lookup_blk_Some_iff [OF ok] by auto
    moreover from False c(2) have "c \<noteq> b" by auto
    ultimately have "c \<in> set (remove1 b bs)" by (simp add: in_set_remove1)
    note c = this c(2)
    with Some False show ?thesis using lookup_blk_Some_iff [OF blks_ok_remove1 [OF ok], of b w c] c by simp
  qed
qed

section \<open>Translation\<close>

text \<open>The free functions \<open>vvptr2vptr\<close> and \<open>vptr2vvptr\<close> every user goes through.\<close>

definition vvptr2vptr :: "('a irx_scheme \<Rightarrow> end_reads) \<Rightarrow> 'a irx_scheme \<Rightarrow> u64 \<Rightarrow> u64 res" where
  "vvptr2vptr er a vvptr = (if irx_has a vvptr then irx_vvptr2vptr er a vvptr else Inr vvptr)"

definition vptr2vvptr :: "'a irx_scheme \<Rightarrow> u64 \<Rightarrow> u64 res" where
  "vptr2vvptr a vptr = irx_vptr2vvptr a vptr"

definition host_addr :: "blk \<Rightarrow> u64 \<Rightarrow> u64" where
  "host_addr b v = b_vptr b + (v - b_lo b)"

lemma irx_vvptr2vptr_eq:
  assumes rel: "blk_rel a bs" and er: "end_reads_ok er"
  shows "irx_vvptr2vptr er a v =
    Inr (case lookup_blk bs v of None \<Rightarrow> 0 | Some b \<Rightarrow> host_addr b v)"
proof (cases "lookup_blk bs v")
  case None
  then show ?thesis by (simp add: irx_vvptr2vptr_def irx_find_eq [OF rel er])
next
  case (Some b)
  then have "b \<in> set bs" using lookup_blk_Some_iff [OF blk_relD(1) [OF rel]] by auto
  with Some show ?thesis
    by (simp add: irx_vvptr2vptr_def irx_find_eq [OF rel er] blk_relD(4) [OF rel] host_addr_def
        blk_data_def)
qed

lemma irx_has_iff:
  assumes rel: "blk_rel a bs"
  shows "irx_has a v \<longleftrightarrow> (\<exists>b \<in> set bs. b_lo b \<le> v) \<and> (\<exists>b \<in> set bs. v \<le> b_hi b)"
proof -
  have "find_start (starts bs) v \<noteq> None \<longleftrightarrow> (\<exists>b \<in> set bs. b_lo b \<le> v)"
    using find_start_best [of "starts bs" v]
    by (cases "find_start (starts bs) v") (auto simp: best_start_def starts_def not_le)
  moreover have "find_end (ends bs) v \<noteq> None \<longleftrightarrow> (\<exists>b \<in> set bs. v \<le> b_hi b)"
    using find_end_best [of "ends bs" v]
    by (cases "find_end (ends bs) v") (auto simp: best_end_def ends_def not_le)
  ultimately show ?thesis
    by (simp add: irx_has_def Let_def blk_relD(2,3) [OF rel])
qed

lemma find_vvptr_eq:
  assumes "\<forall>b \<in> set bs. deref a (b_node b) = Inr (blk_data b)"
  shows "find_vvptr a (starts bs) p =
    Inr (map_option (\<lambda>b. (b_lo b, b_node b)) (find (\<lambda>b. b_vptr b = p) bs))"
  using assms by (induction bs) (simp_all add: starts_def blk_data_def)

lemma vptr2vvptr_eq:
  assumes rel: "blk_rel a bs"
  shows "vptr2vvptr a p =
    Inr (case find (\<lambda>b. b_vptr b = p) bs of None \<Rightarrow> 0 | Some b \<Rightarrow> b_lo b)"
proof -
  note r = blk_relD [OF rel]
  have "find_vvptr a (vvmem_start a) p =
      Inr (map_option (\<lambda>b. (b_lo b, b_node b)) (find (\<lambda>b. b_vptr b = p) bs))"
    using find_vvptr_eq [of bs a p] r(4) by (simp add: r(2))
  moreover have "b \<in> set bs \<and> b_vptr b = p" if "find (\<lambda>b. b_vptr b = p) bs = Some b" for b
    using that by (auto simp: find_Some_iff)
  ultimately show ?thesis
    by (cases "find (\<lambda>b. b_vptr b = p) bs")
      (simp_all add: vptr2vvptr_def irx_vptr2vvptr_def r(4) blk_data_def)
qed

section \<open>The contract of a block store\<close>

text \<open>
  What the allocators and the interpreter rely on: the state represents a list of disjoint
  blocks, insertion and deletion change that list and nothing else, and look-up is determined by
  it.
\<close>

locale block_store =
  fixes rel :: "'s \<Rightarrow> blk list \<Rightarrow> bool"
    and look :: "'s \<Rightarrow> u64 \<Rightarrow> u64 res"
    and ins :: "u64 \<Rightarrow> u64 \<Rightarrow> u64 \<Rightarrow> 's \<Rightarrow> irx_alloc \<times> 's"
    and del :: "u64 \<Rightarrow> 's \<Rightarrow> 's res"
    and fresh :: "'s \<Rightarrow> node"
  assumes rel_ok: "rel s bs \<Longrightarrow> blks_ok bs"
    and look_eq: "rel s bs \<Longrightarrow>
      look s v = Inr (case lookup_blk bs v of None \<Rightarrow> 0 | Some b \<Rightarrow> host_addr b v)"
    and ins_rel: "rel s bs \<Longrightarrow> l \<le> l + sz \<Longrightarrow>
      \<forall>c \<in> set bs. l + sz < b_lo c \<or> b_hi c < l \<Longrightarrow>
      rel (snd (ins l p sz s)) (insort_key b_lo (Blk l (l + sz) (fresh s) p) bs)"
    and del_rel: "rel s bs \<Longrightarrow> vptrs_distinct bs \<Longrightarrow> lookup_blk bs v = Some b \<Longrightarrow>
      \<exists>s'. del v s = Inr s' \<and> rel s' (remove1 b bs)"
begin

lemma look_inserted:
  assumes "rel s bs" and "l \<le> l + sz" and "\<forall>c \<in> set bs. l + sz < b_lo c \<or> b_hi c < l"
    and "l \<le> v" and "v \<le> l + sz"
  shows "look (snd (ins l p sz s)) v = Inr (p + (v - l))"
proof -
  let ?b = "Blk l (l + sz) (fresh s) p"
  note r = ins_rel [OF assms(1-3), of p]
  have "lookup_blk (insort_key b_lo ?b bs) v = Some ?b"
    using assms(4,5) by (simp add: lookup_blk_Some_iff [OF rel_ok [OF r]] set_insort_key covers_def)
  then show ?thesis by (simp add: look_eq [OF r] host_addr_def)
qed

lemma look_insert_frame:
  assumes "rel s bs" and "l \<le> l + sz" and "\<forall>c \<in> set bs. l + sz < b_lo c \<or> b_hi c < l"
    and "\<not> (l \<le> v \<and> v \<le> l + sz)"
  shows "look (snd (ins l p sz s)) v = look s v"
proof -
  let ?b = "Blk l (l + sz) (fresh s) p"
  note r = ins_rel [OF assms(1-3), of p]
  have "lookup_blk (insort_key b_lo ?b bs) v = lookup_blk bs v"
    using assms(4) by (auto simp: lookup_blk_insort [OF rel_ok [OF r] rel_ok [OF assms(1)]] covers_def)
  then show ?thesis by (simp add: look_eq [OF r] look_eq [OF assms(1)])
qed

lemma look_deleted:
  assumes "rel s bs" and "vptrs_distinct bs" and "lookup_blk bs v = Some b" and "del v s = Inr s'"
  shows "look s' w = (if covers w b then Inr 0 else look s w)"
proof -
  have s': "rel s' (remove1 b bs)" using del_rel [OF assms(1-3)] assms(4) by auto
  note ok = rel_ok [OF assms(1)]
  have b: "b \<in> set bs" using assms(3) lookup_blk_Some_iff [OF ok] by auto
  have "lookup_blk (remove1 b bs) w = (if covers w b then None else lookup_blk bs w)"
    by (rule lookup_blk_remove1 [OF ok b])
  then show ?thesis by (simp add: look_eq [OF s'] look_eq [OF assms(1)])
qed

end

interpretation blocks: block_store "\<lambda>a bs. end_reads_ok er \<and> blk_rel a bs" "irx_vvptr2vptr er"
  irx_put "irx_remove er" next_node for er :: "'a irx_scheme \<Rightarrow> end_reads"
proof unfold_locales
  fix a :: "'a irx_scheme" and bs v b
  assume "end_reads_ok er \<and> blk_rel a bs" "vptrs_distinct bs" "lookup_blk bs v = Some b"
  then show "\<exists>a'. irx_remove er v a = Inr a' \<and> end_reads_ok er \<and> blk_rel a' (remove1 b bs)"
    using irx_remove_rel by blast
qed (auto simp: irx_vvptr2vptr_eq irx_put_rel dest: blk_relD)

section \<open>Properties\<close>

text \<open>Past-the-end reads that give a pointer to no live node, for the concrete examples.\<close>

definition junk_reads :: "'a irx_scheme \<Rightarrow> end_reads" where
  "junk_reads a =
     (let n = Suc (sum_list (map snd (vvmem_start a @ vvmem_end a)))
      in \<lparr>rd_start = n, rd_end = n\<rparr>)"

lemma sum_above:
  assumes "n \<in> snd ` set (m :: amap)"
  shows "n < Suc (k + sum_list (map snd m))" and "n < Suc (sum_list (map snd m) + k)"
  using member_le_sum_list [of n "map snd m"] assms by simp_all

lemma junk_reads_ok: "end_reads_ok junk_reads"
  unfolding end_reads_ok_def junk_reads_def
  by (simp add: Let_def) (metis less_irrefl sum_above)

text \<open>
  C1. The translation every memory access goes through: an address inside a live block, its
  past-the-end address included, goes to the same offset of the block's host memory; an address
  below the lowest block or above the highest is left unchanged; an address in a gap between two
  blocks gives the null pointer.
\<close>

theorem vvptr2vptr_correct:
  assumes "blk_rel a bs" and "end_reads_ok er"
  shows "vvptr2vptr er a v = Inr
    (case lookup_blk bs v of
       Some b \<Rightarrow> b_vptr b + (v - b_lo b)
     | None \<Rightarrow> if (\<exists>b \<in> set bs. b_lo b \<le> v) \<and> (\<exists>b \<in> set bs. v \<le> b_hi b) then 0 else v)"
proof (cases "lookup_blk bs v")
  case None
  then show ?thesis
    by (simp add: vvptr2vptr_def irx_has_iff [OF assms(1)] irx_vvptr2vptr_eq [OF assms])
next
  case (Some b)
  then have "b \<in> set bs" "covers v b"
    using lookup_blk_Some_iff [OF blk_relD(1) [OF assms(1)]] by auto
  with Some show ?thesis
    by (auto simp: vvptr2vptr_def irx_has_iff [OF assms(1)] irx_vvptr2vptr_eq [OF assms]
        host_addr_def covers_def)
qed

text \<open>An allocator with the two blocks \<open>[100, 108]\<close> and \<open>[200, 204]\<close>.\<close>

definition two_blocks :: irx where
  "two_blocks = snd (irx_put 200 9000 4 (snd (irx_put 100 5000 8 empty_irx)))"

lemma two_blocks_rel: "blk_rel two_blocks [Blk 100 108 0 5000, Blk 200 204 1 9000]"
  by (simp add: two_blocks_def empty_irx_def irx_put_def blk_rel_def blks_ok_def starts_def
      ends_def blk_data_def)

theorem vvptr2vptr_correct_witness:
  "vvptr2vptr junk_reads two_blocks 103 = Inr 5003 \<and>
   vvptr2vptr junk_reads two_blocks 150 = Inr 0 \<and>
   vvptr2vptr junk_reads two_blocks 300 = Inr 300"
  by (simp add: vvptr2vptr_correct [OF two_blocks_rel junk_reads_ok] lookup_blk_def covers_def)

text \<open>
  C12. Both directions agree on the base of every live block, when no two live blocks share a
  host address: the base goes to the block's host pointer and that pointer back to the base. A
  host pointer that is no block's base, one into the middle of a block included, gives the null
  address.
\<close>

theorem translation_roundtrip:
  assumes "blk_rel a bs" and "end_reads_ok er" and "vptrs_distinct bs"
  shows "(\<forall>b \<in> set bs. vvptr2vptr er a (b_lo b) = Inr (b_vptr b) \<and>
      vptr2vvptr a (b_vptr b) = Inr (b_lo b)) \<and>
    (\<forall>p. p \<notin> b_vptr ` set bs \<longrightarrow> vptr2vvptr a p = Inr 0)"
proof (intro conjI ballI allI impI)
  note ok = blk_relD(1) [OF assms(1)]
  fix b assume b: "b \<in> set bs"
  then have c: "covers (b_lo b) b" using blks_ok_le [OF ok] by (simp add: covers_def)
  with b have "lookup_blk bs (b_lo b) = Some b" by (simp add: lookup_blk_Some_iff [OF ok])
  with b c show "vvptr2vptr er a (b_lo b) = Inr (b_vptr b)"
    by (auto simp: vvptr2vptr_def irx_has_iff [OF assms(1)] irx_vvptr2vptr_eq [OF assms(1,2)]
        host_addr_def covers_def)
  have "find (\<lambda>c. b_vptr c = b_vptr b) bs = Some b"
    using b assms(3) by (intro find_Some_unique)
      (auto simp: vptrs_distinct_def distinct_map dest: inj_onD)
  then show "vptr2vvptr a (b_vptr b) = Inr (b_lo b)" by (simp add: vptr2vvptr_eq [OF assms(1)])
next
  fix p assume "p \<notin> b_vptr ` set bs"
  then have "find (\<lambda>b. b_vptr b = p) bs = None" by (auto simp: find_None_iff)
  then show "vptr2vvptr a p = Inr 0" by (simp add: vptr2vvptr_eq [OF assms(1)])
qed

theorem translation_roundtrip_witness:
  "vptr2vvptr two_blocks 9000 = Inr 200 \<and> vptr2vvptr two_blocks 9002 = Inr 0 \<and>
   vvptr2vptr junk_reads two_blocks 200 = Inr 9000"
proof -
  have "vptrs_distinct [Blk 100 108 0 5000, Blk 200 204 1 9000]"
    by (simp add: vptrs_distinct_def)
  from translation_roundtrip [OF two_blocks_rel junk_reads_ok this] show ?thesis by simp
qed

text \<open>
  \<open>put\<close> of a block that keeps apart from the live ones, then \<open>remove\<close> of any address
  of it: after \<open>put\<close> its addresses translate into its host memory and every other address as
  before; \<open>remove\<close> succeeds and translation is as before the \<open>put\<close> for all addresses.
\<close>

theorem put_remove_frame:
  assumes "blk_rel a bs" and "end_reads_ok er" and "vptrs_distinct bs" and "p \<notin> b_vptr ` set bs"
    and "l \<le> l + sz" and "\<forall>c \<in> set bs. l + sz < b_lo c \<or> b_hi c < l"
    and "l \<le> v" and "v \<le> l + sz"
  shows "\<exists>a1 a2. irx_put l p sz a = (\<lparr>ia_vvptr = l, ia_vptr = p, ia_size = sz\<rparr>, a1) \<and>
    irx_remove er v a1 = Inr a2 \<and>
    (\<forall>w. irx_vvptr2vptr er a1 w =
       (if l \<le> w \<and> w \<le> l + sz then Inr (p + (w - l)) else irx_vvptr2vptr er a w)) \<and>
    (\<forall>w. irx_vvptr2vptr er a2 w = irx_vvptr2vptr er a w)"
proof -
  let ?b = "Blk l (l + sz) (next_node a) p" and ?a1 = "snd (irx_put l p sz a)"
  let ?bs = "insort_key b_lo ?b bs"
  have rel: "end_reads_ok er \<and> blk_rel a bs" using assms by simp
  have r1: "blk_rel ?a1 ?bs" using assms by (intro irx_put_rel) auto
  have one: "irx_vvptr2vptr er ?a1 w =
      (if l \<le> w \<and> w \<le> l + sz then Inr (p + (w - l)) else irx_vvptr2vptr er a w)" for w
    using blocks.look_inserted [OF rel assms(5,6)] blocks.look_insert_frame [OF rel assms(5,6)]
    by auto
  have v: "lookup_blk ?bs v = Some ?b"
    using assms(7,8) by (simp add: lookup_blk_Some_iff [OF blk_relD(1) [OF r1]] set_insort_key
        covers_def)
  have "mset (map b_vptr ?bs) = mset (p # map b_vptr bs)" by simp
  then have "distinct (map b_vptr ?bs) = distinct (p # map b_vptr bs)"
    by (rule mset_eq_imp_distinct_iff)
  then have vd: "vptrs_distinct ?bs" using assms(3,4) by (auto simp: vptrs_distinct_def)
  obtain a2 where a2: "irx_remove er v ?a1 = Inr a2"
    using irx_remove_rel [OF r1 assms(2) vd v] by blast
  have miss: "irx_vvptr2vptr er a w = Inr 0" if "l \<le> w" "w \<le> l + sz" for w
  proof -
    have "\<not> covers w c" if "c \<in> set bs" for c
      using \<open>l \<le> w\<close> \<open>w \<le> l + sz\<close> bspec [OF assms(6) that] by (auto simp: covers_def)
    then have "lookup_blk bs w = None" by (simp add: lookup_blk_None_iff)
    then show ?thesis by (simp add: irx_vvptr2vptr_eq [OF assms(1,2)])
  qed
  have "irx_vvptr2vptr er a2 w = irx_vvptr2vptr er a w" for w
    using blocks.look_deleted [of er ?a1 ?bs v ?b a2 w] r1 assms(2) vd v a2 one [of w] miss [of w]
    by (auto simp: covers_def)
  with one a2 show ?thesis by (intro exI [of _ ?a1] exI [of _ a2]) (simp add: irx_put_def Let_def)
qed

theorem put_remove_frame_witness:
  "\<exists>a1 a2. irx_put 120 7000 16 two_blocks = (\<lparr>ia_vvptr = 120, ia_vptr = 7000, ia_size = 16\<rparr>, a1) \<and>
     irx_remove junk_reads 136 a1 = Inr a2 \<and> irx_vvptr2vptr junk_reads a1 124 = Inr 7004 \<and>
     irx_vvptr2vptr junk_reads a2 = irx_vvptr2vptr junk_reads two_blocks"
proof -
  have "vptrs_distinct [Blk 100 108 0 5000, Blk 200 204 1 9000]"
    by (simp add: vptrs_distinct_def)
  from put_remove_frame [OF two_blocks_rel junk_reads_ok this, of 7000 120 16 136]
  show ?thesis by fastforce
qed

text \<open>
  \<open>remove\<close> drops every holder node with the block's host address. When two live blocks share
  one, removing the first frees the data of the second, whose map entries stay: the next
  translation of an address of the second block reads freed memory.
\<close>

theorem remove_shared_vptr_dangles:
  assumes "blk_rel a bs" and "end_reads_ok er" and "b \<in> set bs" and "c \<in> set bs" and "b \<noteq> c"
    and "b_vptr b = b_vptr c" and "irx_remove er (b_lo b) a = Inr a'"
  shows "irx_vvptr2vptr er a' (b_lo c) = Inl UseAfterFree"
proof -
  note r = blk_relD [OF assms(1)]
  have cov: "covers (b_lo d) d" if "d \<in> set bs" for d
    using blks_ok_le [OF r(1) that] by (simp add: covers_def)
  have "lookup_blk bs (b_lo b) = Some b"
    using cov assms(3) by (simp add: lookup_blk_Some_iff [OF r(1)])
  then have a': "a' = a\<lparr>vvmem_start := starts (remove1 b bs), vvmem_end := ends (remove1 b bs),
      allocationsHolder := filter (\<lambda>(m, d). ad_vptr d \<noteq> b_vptr b) (allocationsHolder a)\<rparr>"
    using assms(7) r(4) [OF assms(3)] map_erase_starts [OF r(1) assms(3)]
      map_erase_ends [OF r(1) assms(3)]
    by (simp add: irx_remove_def irx_find_eq [OF assms(1,2)] r(2,3)) (simp add: blk_data_def)
  have c: "c \<in> set (remove1 b bs)" using assms(4,5) by (simp add: in_set_remove1)
  have "lookup_blk (remove1 b bs) (b_lo c) = Some c"
    using c cov assms(4) by (simp add: lookup_blk_Some_iff [OF blks_ok_remove1 [OF r(1)]])
  then have "irx_find er a' (b_lo c) = al_of (Some c)"
    using irx_find_maps [OF blks_ok_remove1 [OF r(1)] _ _ assms(2), of a' b] by (simp add: a')
  moreover have "map_of (allocationsHolder a) (b_node c) = Some (blk_data c)"
    "distinct (map fst (allocationsHolder a))"
    using assms(1,4) by (simp_all add: blk_rel_def)
  then have "deref a' (b_node c) = Inl UseAfterFree"
    using assms(6) by (simp add: deref_def a' map_of_filter_drop blk_data_def)
  ultimately show ?thesis by (simp add: irx_vvptr2vptr_def)
qed

text \<open>Two blocks over the same host memory.\<close>

definition shared_blocks :: irx where
  "shared_blocks = snd (irx_put 200 5000 4 (snd (irx_put 100 5000 8 empty_irx)))"

theorem remove_shared_vptr_dangles_witness:
  "\<exists>a'. irx_remove junk_reads 100 shared_blocks = Inr a' \<and>
     irx_vvptr2vptr junk_reads a' 200 = Inl UseAfterFree"
proof -
  let ?b = "Blk 100 108 0 5000" and ?c = "Blk 200 204 1 5000"
  have rel: "blk_rel shared_blocks [?b, ?c]"
    by (simp add: shared_blocks_def empty_irx_def irx_put_def blk_rel_def blks_ok_def starts_def
        ends_def blk_data_def)
  have "\<exists>a'. irx_remove junk_reads 100 shared_blocks = Inr a'"
    by (simp add: irx_remove_def irx_find_eq [OF rel junk_reads_ok] lookup_blk_def covers_def)
      (simp add: deref_def shared_blocks_def empty_irx_def irx_put_def)
  then obtain a' where "irx_remove junk_reads 100 shared_blocks = Inr a'" ..
  with remove_shared_vptr_dangles [OF rel junk_reads_ok, of ?b ?c a'] show ?thesis by auto
qed

end
