(* ===== verification/MMapAlloc.thy ===== *)
theory MMapAlloc
  imports IrxAllocator
begin

text \<open>
  \<open>MMapAllocator\<close> (\<open>libirx/irinterpreter2-mmap.h\<close>, \<open>libirx/irinterpreter2-mmap.cc\<close>), the
  allocator that keeps every block in the low four gigabytes of the host, so that interpreter
  and host addresses are the same; only a block added with a 64-bit host address gets a reserved
  low address of its own.

  \<open>mapped\<close> lists the regions, start and requested size, that are mapped through the calls of
  this class. The system call \<open>mmap\<close> is not code of the repository: it is the argument \<open>mm\<close>,
  from a size and the mapped regions to an address, \<open>None\<close> for \<open>MAP_FAILED\<close>, and
  \<open>mmap_ok\<close> states what its manual page promises for the flags the code passes.
\<close>

section \<open>State and operations\<close>

record mmap_allocator = irx +
  extra_allocations :: "alloc_data list"
  mapped :: "(u64 \<times> u64) list"

type_synonym mmap_call = "u64 \<Rightarrow> (u64 \<times> u64) list \<Rightarrow> u64 option"

definition pages :: "u64 \<Rightarrow> nat" where
  "pages sz = (unat sz + 4095) div 4096 * 4096"

definition mmap_ok :: "mmap_call \<Rightarrow> bool" where
  "mmap_ok mm \<longleftrightarrow>
     (\<forall>sz live p. mm sz live = Some p \<longrightarrow>
        sz \<noteq> 0 \<and> p \<noteq> 0 \<and> unat p + pages sz < 2 ^ 32 \<and>
        (\<forall>(q, n) \<in> set live. unat p + pages sz \<le> unat q \<or> unat q + pages n \<le> unat p))"

definition new_mmap_allocator :: mmap_allocator where
  "new_mmap_allocator =
     \<lparr>allocationsHolder = [], vvmem_start = [], vvmem_end = [], allocations = [], next_node = 0,
      extra_allocations = [], mapped = []\<rparr>"

definition mm_add :: "mmap_call \<Rightarrow> u64 \<Rightarrow> u64 \<Rightarrow> mmap_allocator \<Rightarrow> (irx_alloc \<times> mmap_allocator) res" where
  "mm_add mm vptr sz a =
     (if vptr AND NOT 0xFFFFFFFF \<noteq> 0
      then let sz1 = sz + 1
           in case mm sz1 (mapped a) of
                None \<Rightarrow> Inl ExitFailure
              | Some m \<Rightarrow>
                  Inr (irx_put m vptr sz1
                    (a\<lparr>mapped := (m, sz1) # mapped a,
                       extra_allocations :=
                         extra_allocations a @ [\<lparr>ad_vptr = m, ad_size = sz1\<rparr>]\<rparr>))
      else Inr (irx_put vptr vptr sz a))"

definition mm_malloc :: "mmap_call \<Rightarrow> u64 \<Rightarrow> mmap_allocator \<Rightarrow> (irx_alloc \<times> mmap_allocator) res" where
  "mm_malloc mm sz a =
     (case mm sz (mapped a) of
        None \<Rightarrow> Inl ExitFailure
      | Some m \<Rightarrow>
          mm_add mm m sz (a\<lparr>mapped := (m, sz) # mapped a, allocations := allocations a @ [m]\<rparr>))"

text \<open>\<open>munmap\<close> of a whole region, which is all the class asks for.\<close>

definition munmap :: "u64 \<Rightarrow> u64 \<Rightarrow> mmap_allocator \<Rightarrow> mmap_allocator" where
  "munmap p n a = a\<lparr>mapped := filter (\<lambda>r. r \<noteq> (p, n)) (mapped a)\<rparr>"

definition mm_free ::
    "(mmap_allocator \<Rightarrow> end_reads) \<Rightarrow> u64 \<Rightarrow> mmap_allocator \<Rightarrow> mmap_allocator res" where
  "mm_free er vvptr a =
     (let al = irx_find er a vvptr
      in rbind (rassert (second (rd_start (er a)) (al_start al) = second (rd_end (er a)) (al_end al))
                  AssertFail) (\<lambda>_.
         case al_start al of
           None \<Rightarrow> Inl WildPointer
         | Some (l, n) \<Rightarrow>
             rbind (deref a n) (\<lambda>d.
             let a2 = (if isInternalAllocated a (ad_vptr d)
                       then let a1 = munmap (ad_vptr d) (ad_size d) a
                            in a1\<lparr>allocations := removeAll (ad_vptr d) (allocations a1)\<rparr>
                       else a)
             in irx_remove er vvptr a2)))"

fun mm_free_all ::
    "nat \<Rightarrow> (mmap_allocator \<Rightarrow> end_reads) \<Rightarrow> mmap_allocator \<Rightarrow> mmap_allocator res" where
  "mm_free_all fuel er a =
     (case vvmem_start a of
        [] \<Rightarrow> Inr a
      | (k, n) # _ \<Rightarrow>
          (case fuel of
             0 \<Rightarrow> Inl OutOfFuel
           | Suc fuel' \<Rightarrow> rbind (mm_free er k a) (mm_free_all fuel' er)))"

declare mm_free_all.simps [simp del]

definition mm_destroy ::
    "nat \<Rightarrow> (mmap_allocator \<Rightarrow> end_reads) \<Rightarrow> mmap_allocator \<Rightarrow> mmap_allocator res" where
  "mm_destroy fuel er a =
     rbind (mm_free_all fuel er a) (\<lambda>a1.
       Inr (fold (\<lambda>d. munmap (ad_vptr d) (ad_size d)) (extra_allocations a1) a1))"

section \<open>Invariant\<close>

text \<open>
  Blocks of whole pages can touch: the past-the-end address of one is then the first of the other. They are not
  empty, since the host maps no empty region.
\<close>

definition beside :: "blk \<Rightarrow> blk \<Rightarrow> bool" where
  "beside b c \<longleftrightarrow> b_hi b \<le> b_lo c \<or> b_hi c \<le> b_lo b"

definition touch_ok :: "blk list \<Rightarrow> bool" where
  "touch_ok bs \<longleftrightarrow>
     (\<forall>b \<in> set bs. b_lo b < b_hi b) \<and> sorted_wrt (\<lambda>b c. b_hi b \<le> b_lo c) bs \<and> distinct (map b_node bs)"

definition touch_rel :: "'a irx_scheme \<Rightarrow> blk list \<Rightarrow> bool" where
  "touch_rel a bs \<longleftrightarrow>
     touch_ok bs \<and> vvmem_start a = starts bs \<and> vvmem_end a = ends bs \<and>
     (\<forall>b \<in> set bs. map_of (allocationsHolder a) (b_node b) = Some (blk_data b)) \<and>
     (\<forall>n \<in> fst ` set (allocationsHolder a). n < next_node a) \<and>
     distinct (map fst (allocationsHolder a))"

text \<open>An address that ends one block and starts another.\<close>

definition shared :: "blk list \<Rightarrow> u64 \<Rightarrow> bool" where
  "shared bs v \<longleftrightarrow> v \<in> b_hi ` set bs \<and> v \<in> b_lo ` set bs"

text \<open>
  Every block lies inside a mapped region; blocks whose host and interpreter addresses differ have a 64-bit
  host address.
\<close>

definition in_region :: "blk \<Rightarrow> (u64 \<times> u64) \<Rightarrow> bool" where
  "in_region b r \<longleftrightarrow> unat (fst r) \<le> unat (b_lo b) \<and> unat (b_hi b) \<le> unat (fst r) + pages (snd r)"

definition mm_inv :: "mmap_allocator \<Rightarrow> blk list \<Rightarrow> bool" where
  "mm_inv a bs \<longleftrightarrow>
     touch_rel a bs \<and> vptrs_distinct bs \<and>
     (\<forall>b \<in> set bs. (\<exists>r \<in> set (mapped a). in_region b r) \<and>
        (b_vptr b = b_lo b \<or> 2 ^ 32 \<le> unat (b_vptr b)))"

lemma touch_okD:
  assumes "touch_ok bs" and "b \<in> set bs" and "c \<in> set bs"
  shows "b_lo b < b_hi b" and "b = c \<or> beside b c" and "b_node b = b_node c \<Longrightarrow> b = c"
  using assms unfolding touch_ok_def beside_def
  by (blast, blast dest: sorted_wrt_cases, metis distinct_map inj_onD)

lemma touch_relD:
  assumes "touch_rel a bs"
  shows "touch_ok bs" "vvmem_start a = starts bs" "vvmem_end a = ends bs" "distinct (map b_node bs)"
    and "b \<in> set bs \<Longrightarrow> deref a (b_node b) = Inr (blk_data b)"
  using assms by (auto simp: touch_rel_def touch_ok_def deref_def)

text \<open>The block an address belongs to: none if it is shared.\<close>

definition owner :: "blk list \<Rightarrow> u64 \<Rightarrow> blk option" where
  "owner bs v = (if shared bs v then None else lookup_blk bs v)"

text \<open>Among blocks that may touch, an address that is not shared has at most one block, and \<open>find\<close> finds it.\<close>

lemma touch_lookup:
  assumes ok: "touch_ok bs" and sh: "\<not> shared bs v" and b: "b \<in> set bs" "covers v b"
  shows "lookup_blk bs v = Some b"
    and "find_start (starts bs) v = Some (b_lo b, b_node b)"
    and "find_end (ends bs) v = Some (b_hi b, b_node b)"
proof -
  have one: "c = b" if c: "c \<in> set bs" "b_lo b \<le> b_lo c" "b_lo c \<le> v" for c
  proof (rule ccontr)
    assume "c \<noteq> b"
    then have "b_hi b \<le> b_lo c"
      using touch_okD [OF ok c(1) b(1)] c(2) by (auto simp: beside_def)
    then have "v = b_hi b" "v = b_lo c" using b(2) c(3) by (auto simp: covers_def)
    with b(1) c(1) have "shared bs v" unfolding shared_def by blast
    with sh show False ..
  qed
  have one': "c = b" if c: "c \<in> set bs" "b_hi c \<le> b_hi b" "v \<le> b_hi c" for c
  proof (rule ccontr)
    assume "c \<noteq> b"
    then have "b_hi c \<le> b_lo b"
      using touch_okD [OF ok c(1) b(1)] c(2) by (auto simp: beside_def)
    then have "v = b_hi c" "v = b_lo b" using b(2) c(3) by (auto simp: covers_def)
    with b(1) c(1) have "shared bs v" unfolding shared_def by blast
    with sh show False ..
  qed
  show "lookup_blk bs v = Some b"
    unfolding lookup_blk_def
  proof (rule find_Some_unique)
    show "c = b" if "c \<in> set bs" "covers v c" for c
      using that one one' touch_okD(1,2) [OF ok that(1) b(1)] b(2)
      by (auto simp: covers_def beside_def)
  qed (use b in auto)
  show "find_start (starts bs) v = Some (b_lo b, b_node b)"
  proof (cases "find_start (starts bs) v")
    case None
    with find_start_best [of "starts bs" v] b show ?thesis by (force simp: best_start_def blk_simps)
  next
    case (Some e)
    with find_start_best [of "starts bs" v] obtain c where
      "c \<in> set bs" "e = (b_lo c, b_node c)" "b_lo c \<le> v" "b_lo b \<le> b_lo c"
      using b by (force simp: best_start_def blk_simps)
    with one Some show ?thesis by blast
  qed
  show "find_end (ends bs) v = Some (b_hi b, b_node b)"
  proof (cases "find_end (ends bs) v")
    case None
    with find_end_best [of "ends bs" v] b show ?thesis by (force simp: best_end_def blk_simps)
  next
    case (Some e)
    with find_end_best [of "ends bs" v] obtain c where
      "c \<in> set bs" "e = (b_hi c, b_node c)" "v \<le> b_hi c" "b_hi c \<le> b_hi b"
      using b by (force simp: best_end_def blk_simps)
    with one' Some show ?thesis by blast
  qed
qed

text \<open>When a key ends one block and starts another, the two scans disagree on it.\<close>

lemma irx_find_shared_key:
  assumes "(k, n) \<in> set (vvmem_start a)" and "\<forall>m. (k, m) \<in> set (vvmem_start a) \<longrightarrow> m = n"
    and "(k, n') \<in> set (vvmem_end a)" and "\<forall>m. (k, m) \<in> set (vvmem_end a) \<longrightarrow> m = n'"
    and "n \<noteq> n'"
  shows "irx_find er a k = al_of None"
proof -
  have "find_start (vvmem_start a) k = Some (k, n)"
  proof (cases "find_start (vvmem_start a) k")
    case None
    with find_start_best [of "vvmem_start a" k] assms(1) show ?thesis
      by (auto simp: best_start_def)
  next
    case (Some e)
    obtain l d where e: "e = (l, d)" by (cases e)
    from find_start_best [of "vvmem_start a" k] have l: "(l, d) \<in> set (vvmem_start a)" "l \<le> k" "k \<le> l"
      using assms(1) by (auto simp: best_start_def Some e)
    then have "l = k" by simp
    with l(1) assms(2) Some e show ?thesis by simp
  qed
  moreover have "find_end (vvmem_end a) k = Some (k, n')"
  proof (cases "find_end (vvmem_end a) k")
    case None
    with find_end_best [of "vvmem_end a" k] assms(3) show ?thesis
      by (auto simp: best_end_def)
  next
    case (Some e)
    obtain h d where e: "e = (h, d)" by (cases e)
    from find_end_best [of "vvmem_end a" k] have h: "(h, d) \<in> set (vvmem_end a)" "k \<le> h" "h \<le> k"
      using assms(3) by (auto simp: best_end_def Some e)
    then have "h = k" by simp
    with h(1) assms(4) Some e show ?thesis by simp
  qed
  ultimately show ?thesis using assms(5) by (simp add: irx_find_def second_def)
qed

lemma irx_find_touch:
  assumes rel: "touch_rel a bs" and er: "end_reads_ok er"
  shows "irx_find er a v = al_of (owner bs v)"
proof (cases "shared bs v")
  case True
  note ok = touch_relD(1) [OF rel]
  from True obtain b c where bc: "b \<in> set bs" "b_hi b = v" "c \<in> set bs" "b_lo c = v"
    by (auto simp: shared_def)
  have "c \<noteq> b" using touch_okD(1) [OF ok bc(1,1)] bc by auto
  then have "b_node c \<noteq> b_node b" using touch_okD(3) [OF ok bc(3,1)] by blast
  moreover have "m = b_node c" if "(v, m) \<in> set (vvmem_start a)" for m
  proof -
    from that obtain d where d: "d \<in> set bs" "b_lo d = v" "m = b_node d"
      by (auto simp: touch_relD(2) [OF rel] starts_def)
    then have "d = c"
      using touch_okD(1) [OF ok d(1,1)] touch_okD(1) [OF ok bc(3,3)] touch_okD(2) [OF ok d(1) bc(3)] bc(4)
      by (auto simp: beside_def)
    with d(3) show ?thesis by simp
  qed
  moreover have "m = b_node b" if "(v, m) \<in> set (vvmem_end a)" for m
  proof -
    from that obtain d where d: "d \<in> set bs" "b_hi d = v" "m = b_node d"
      by (auto simp: touch_relD(3) [OF rel] ends_def)
    then have "d = b"
      using touch_okD(1) [OF ok d(1,1)] touch_okD(1) [OF ok bc(1,1)] touch_okD(2) [OF ok d(1) bc(1)] bc(2)
      by (auto simp: beside_def)
    with d(3) show ?thesis by simp
  qed
  moreover have "(v, b_node c) \<in> set (vvmem_start a)" "(v, b_node b) \<in> set (vvmem_end a)"
    using image_eqI [OF _ bc(3), of "(v, b_node c)" "\<lambda>b. (b_lo b, b_node b)"]
      image_eqI [OF _ bc(1), of "(v, b_node b)" "\<lambda>b. (b_hi b, b_node b)"] bc(2,4)
    by (simp_all add: touch_relD(2,3) [OF rel] starts_def ends_def)
  ultimately have "irx_find er a v = al_of None" using irx_find_shared_key [of v "b_node c" a "b_node b" er] by blast
  with True show ?thesis by (simp add: owner_def)
next
  case False
  show ?thesis
  proof (cases "\<exists>b \<in> set bs. covers v b")
    case True
    then obtain b where b: "b \<in> set bs" "covers v b" by blast
    note t = touch_lookup [OF touch_relD(1) [OF rel] False b]
    show ?thesis using False t by (simp add: owner_def irx_find_def touch_relD(2,3) [OF rel])
  next
    case no: False
    then have "lookup_blk bs v = None" by (simp add: lookup_blk_None_iff)
    with no False irx_find_uncovered [OF touch_relD(4,2,3) [OF rel] er] show ?thesis by (simp add: owner_def)
  qed
qed

lemma owner_Some_iff:
  assumes "touch_ok bs"
  shows "owner bs v = Some b \<longleftrightarrow> b \<in> set bs \<and> covers v b \<and> \<not> shared bs v"
  using touch_lookup(1) [OF assms, of v b] by (auto simp: owner_def lookup_blk_def find_Some_iff)

lemma irx_vvptr2vptr_touch:
  assumes rel: "touch_rel a bs" and er: "end_reads_ok er"
  shows "irx_vvptr2vptr er a v = Inr (case owner bs v of None \<Rightarrow> 0 | Some b \<Rightarrow> host_addr b v)"
proof (cases "owner bs v")
  case None
  then show ?thesis by (simp add: irx_vvptr2vptr_def irx_find_touch [OF assms])
next
  case (Some b)
  then have "b \<in> set bs" by (simp add: owner_Some_iff [OF touch_relD(1) [OF rel]])
  with Some show ?thesis
    by (simp add: irx_vvptr2vptr_def irx_find_touch [OF assms] touch_relD(5) [OF rel] host_addr_def
        blk_data_def rassert_def)
qed

section \<open>Insertion beside other blocks\<close>

lemma map_put_ends_touch:
  assumes "b_lo b < b_hi b" and "\<forall>c \<in> set bs. b_lo c < b_hi c \<and> beside b c"
  shows "map_put (b_hi b) (b_node b) (ends bs) = ends (insort_key b_lo b bs)"
  using assms by (induction bs) (auto simp: ends_def beside_def)

lemma insort_touch_ok:
  assumes ok: "touch_ok bs" and b: "b_lo b < b_hi b" and ap: "\<forall>c \<in> set bs. beside b c"
    and n: "b_node b \<notin> b_node ` set bs"
  shows "touch_ok (insort_key b_lo b bs)"
proof -
  have "sorted_wrt (\<lambda>b c. b_hi b \<le> b_lo c) (insort_key b_lo b bs)"
    using ok ap b unfolding touch_ok_def
  proof (induction bs)
    case (Cons c bs)
    then have c: "b_lo c < b_hi c" "beside b c" by simp_all
    show ?case
    proof (cases "b_lo b \<le> b_lo c")
      case True
      with c b have "b_hi b \<le> b_lo c" by (auto simp: beside_def)
      with Cons.prems True c show ?thesis by fastforce
    next
      case False
      with c b have "b_hi c \<le> b_lo b" by (auto simp: beside_def)
      with Cons False show ?thesis by (auto simp: set_insort_key)
    qed
  qed simp
  moreover have "mset (map b_node (insort_key b_lo b bs)) = mset (map b_node (b # bs))" by simp
  then have "distinct (map b_node (insort_key b_lo b bs)) = distinct (map b_node (b # bs))"
    by (rule mset_eq_imp_distinct_iff)
  ultimately show ?thesis using ok b n by (auto simp: touch_ok_def set_insort_key)
qed

lemma irx_put_touch:
  assumes rel: "touch_rel a bs" and wrap: "l < l + sz"
    and ap: "\<forall>c \<in> set bs. beside (Blk l (l + sz) (next_node a) p) c"
  shows "touch_rel (snd (irx_put l p sz a)) (insort_key b_lo (Blk l (l + sz) (next_node a) p) bs)"
    (is "touch_rel ?a' (insort_key b_lo ?b bs)")
proof -
  note r = touch_relD [OF rel]
  have hold: "map_of (allocationsHolder a) (b_node c) = Some (blk_data c)" if "c \<in> set bs" for c
    using rel that by (simp add: touch_rel_def)
  have lt: "\<forall>n \<in> fst ` set (allocationsHolder a). n < next_node a"
    and dist: "distinct (map fst (allocationsHolder a))"
    using rel by (simp_all add: touch_rel_def)
  have nlt: "b_node c < next_node a" if "c \<in> set bs" for c
    using lt map_of_SomeD [OF hold [OF that]] by force
  have ap': "\<forall>c \<in> set bs. b_lo c < b_hi c \<and> beside ?b c" using ap touch_okD(1) [OF r(1)] by blast
  have new: "map_of (allocationsHolder a) (next_node a) = None"
    using lt by (force simp: map_of_eq_None_iff)
  have "touch_ok (insort_key b_lo ?b bs)"
  proof (rule insort_touch_ok [OF r(1)])
    show "b_node ?b \<notin> b_node ` set bs" using nlt by (auto dest: less_not_refl2)
  qed (use ap' wrap in auto)
  moreover
  have "vvmem_start ?a' = starts (insort_key b_lo ?b bs)"
    using map_put_starts [of bs ?b] ap' wrap by (fastforce simp: irx_put_def Let_def r beside_def)
  moreover have "vvmem_end ?a' = ends (insort_key b_lo ?b bs)"
    using map_put_ends_touch [of ?b bs] ap' wrap by (simp add: irx_put_def Let_def r)
  moreover have "\<forall>c \<in> set (insort_key b_lo ?b bs).
      map_of (allocationsHolder ?a') (b_node c) = Some (blk_data c)"
    using new hold by (auto simp: irx_put_def Let_def set_insort_key blk_data_def map_add_def)
  ultimately show ?thesis using lt dist
    by (auto simp: touch_rel_def irx_put_def Let_def less_Suc_eq)
qed

lemma high_bits: "((p::u64) AND NOT 0xFFFFFFFF = 0) \<longleftrightarrow> unat p < 2 ^ 32"
proof -
  have m: "(0xFFFFFFFF :: u64) = mask 32" by (simp add: mask_eq_decr_exp)
  have "p AND NOT (mask 32) = p - take_bit 32 p"
  proof -
    have "p - take_bit 32 p = p AND NOT (take_bit 32 p)"
      by (rule disjunctive_diff) (auto simp: bit_simps)
    also have "\<dots> = p AND NOT (mask 32)" by (rule bit_word_eqI) (auto simp: bit_simps)
    finally show ?thesis by simp
  qed
  then have "p AND NOT 0xFFFFFFFF = 0 \<longleftrightarrow> take_bit 32 p = p" unfolding m by auto
  also have "\<dots> \<longleftrightarrow> unat (take_bit 32 p) = unat p" by (metis word_unat_eq_iff)
  also have "\<dots> \<longleftrightarrow> unat p mod 2 ^ 32 = unat p"
    by (simp add: unsigned_take_bit_eq) (simp add: take_bit_eq_mod)
  also have "\<dots> \<longleftrightarrow> unat p < 2 ^ 32" by (metis mod_less mod_less_divisor zero_less_numeral zero_less_power)
  finally show ?thesis .
qed

lemma pages_ge: "unat sz \<le> pages sz"
proof -
  have "pages sz + (unat sz + 4095) mod 4096 = unat sz + 4095"
    unfolding pages_def by (rule div_mult_mod_eq)
  moreover have "(unat sz + 4095) mod 4096 < 4096" by simp
  ultimately show ?thesis by linarith
qed

lemma pages_dvd: "4096 dvd pages sz"
  unfolding pages_def by simp

text \<open>A new region lies beside all blocks, and only whole pages touch the block behind.\<close>

lemma new_region_beside:
  assumes "mm_inv a bs" and "mmap_ok mm" and "mm sz (mapped a) = Some p" and "c \<in> set bs"
  shows "unat p + pages sz \<le> unat (b_lo c) \<or> unat (b_hi c) \<le> unat p"
proof -
  obtain q n where r: "(q, n) \<in> set (mapped a)" "in_region c (q, n)"
    using assms(1,4) by (auto simp: mm_inv_def)
  have "unat p + pages sz \<le> unat q \<or> unat q + pages n \<le> unat p"
    using assms(2,3) r(1) unfolding mmap_ok_def by blast
  with r(2) show ?thesis by (auto simp: in_region_def)
qed

lemma mm_malloc_inv:
  assumes inv: "mm_inv a bs" and ok: "mmap_ok mm" and p: "mm sz (mapped a) = Some p"
  shows "\<exists>a'. mm_malloc mm sz a = Inr (\<lparr>ia_vvptr = p, ia_vptr = p, ia_size = sz\<rparr>, a') \<and>
    mm_inv a' (insort_key b_lo (Blk p (p + sz) (next_node a) p) bs) \<and>
    allocations a' = allocations a @ [p] \<and> mapped a' = (p, sz) # mapped a"
proof -
  let ?a1 = "a\<lparr>mapped := (p, sz) # mapped a, allocations := allocations a @ [p]\<rparr>"
  let ?a' = "snd (irx_put p p sz ?a1)" and ?b = "Blk p (p + sz) (next_node a) p"
  have lt: "unat p + pages sz < 2 ^ 32" and nz: "sz \<noteq> 0" using ok p unfolding mmap_ok_def by blast+
  have e: "unat (p + sz) = unat p + unat sz"
    using lt pages_ge [of sz] by (intro unat_add_nowrap) simp
  have wrap: "p < p + sz" using e nz by (simp add: u64_cmp_nat unat_gt_0)
  have run: "mm_malloc mm sz a = Inr (irx_put p p sz ?a1)"
    using lt p high_bits [of p, THEN iffD2] by (simp add: mm_malloc_def mm_add_def)
  have bsD: "touch_rel a bs" "vptrs_distinct bs" using inv by (simp_all add: mm_inv_def)
  have ap: "beside ?b c" if c: "c \<in> set bs" for c
    using new_region_beside [OF inv ok p c] e pages_ge [of sz] by (auto simp: beside_def u64_cmp_nat)
  have "touch_rel ?a1 bs" using bsD(1) by (simp add: touch_rel_def)
  then have rel: "touch_rel ?a' (insort_key b_lo ?b bs)"
    using irx_put_touch [of ?a1 bs p sz p] ap wrap by simp
  have new: "p \<notin> b_vptr ` set bs"
  proof
    assume "p \<in> b_vptr ` set bs"
    then obtain c where c: "c \<in> set bs" "b_vptr c = p" by auto
    then have "b_lo c = p" using inv lt by (fastforce simp: mm_inv_def)
    with ap [OF c(1)] touch_okD(1) [OF touch_relD(1) [OF bsD(1)] c(1) c(1)] wrap show False
      by (auto simp: beside_def)
  qed
  have "mset (map b_vptr (insort_key b_lo ?b bs)) = mset (p # map b_vptr bs)" by simp
  then have "distinct (map b_vptr (insort_key b_lo ?b bs)) = distinct (p # map b_vptr bs)"
    by (rule mset_eq_imp_distinct_iff)
  then have "vptrs_distinct (insort_key b_lo ?b bs)"
    using bsD(2) new by (auto simp: vptrs_distinct_def)
  moreover have m: "mapped ?a' = (p, sz) # mapped a" by (simp add: irx_put_def Let_def)
  moreover have "in_region ?b (p, sz)" using e pages_ge [of sz] by (simp add: in_region_def)
  ultimately have "mm_inv ?a' (insort_key b_lo ?b bs)"
    using rel inv by (auto simp: mm_inv_def set_insort_key)
  with run m show ?thesis by (simp add: irx_put_def Let_def)
qed

text \<open>What a new block changes of the look-up.\<close>

lemma owner_insert:
  assumes ok': "touch_ok (insort_key b_lo b bs)" and ok: "touch_ok bs"
  shows "owner (insort_key b_lo b bs) v =
    (if v = b_lo b \<and> b_lo b \<in> b_hi ` set bs \<or> v = b_hi b \<and> b_hi b \<in> b_lo ` set bs then None
     else if covers v b then Some b else owner bs v)"
proof -
  let ?bs = "insort_key b_lo b bs"
  have set: "set ?bs = insert b (set bs)" by (simp add: set_insort_key)
  have b: "b_lo b < b_hi b" using touch_okD(1) [OF ok', of b b] by (simp add: set)
  have "mset (map b_node ?bs) = mset (map b_node (b # bs))" by simp
  then have "distinct (map b_node ?bs) = distinct (map b_node (b # bs))" by (rule mset_eq_imp_distinct_iff)
  then have new: "b \<notin> set bs" using ok' by (auto simp: touch_ok_def)
  consider (lost) "v = b_lo b \<and> b_lo b \<in> b_hi ` set bs \<or> v = b_hi b \<and> b_hi b \<in> b_lo ` set bs"
    | (own) "\<not> (v = b_lo b \<and> b_lo b \<in> b_hi ` set bs \<or> v = b_hi b \<and> b_hi b \<in> b_lo ` set bs)" "covers v b"
    | (other) "\<not> covers v b" by blast
  then show ?thesis
  proof cases
    case lost
    then have "shared ?bs v" by (auto simp: shared_def set)
    with lost show ?thesis by (simp add: owner_def)
  next
    case own
    have apart: "b_lo x < b_hi x" "b_hi b \<le> b_lo x \<or> b_hi x \<le> b_lo b" if "x \<in> set bs" for x
      using touch_okD(1,2) [OF ok', of x b] that new by (auto simp: set beside_def)
    have v: "b_lo b \<le> v" "v \<le> b_hi b" using own(2) by (simp_all add: covers_def)
    have hi: "v = b_lo b" if "v \<in> b_hi ` set bs"
    proof -
      from that obtain x where x: "v = b_hi x" "x \<in> set bs" ..
      from apart [OF x(2)] x(1) v show ?thesis by (auto simp: u64_cmp_nat word_unat_eq_iff)
    qed
    have lo: "v = b_hi b" if "v \<in> b_lo ` set bs"
    proof -
      from that obtain x where x: "v = b_lo x" "x \<in> set bs" ..
      from apart [OF x(2)] x(1) v show ?thesis by (auto simp: u64_cmp_nat word_unat_eq_iff)
    qed
    have "\<not> shared ?bs v"
    proof
      assume "shared ?bs v"
      then have "v = b_hi b \<or> v \<in> b_hi ` set bs" "v = b_lo b \<or> v \<in> b_lo ` set bs"
        by (simp_all add: shared_def set)
      with own(1) b hi lo show False by (metis order_less_irrefl)
    qed
    with own show ?thesis by (auto simp: owner_Some_iff [OF ok'] set)
  next
    case other
    then have "v \<noteq> b_lo b" "v \<noteq> b_hi b" using b by (auto simp: covers_def)
    then have "shared ?bs v = shared bs v" by (auto simp: shared_def set)
    then have "owner ?bs v = Some x \<longleftrightarrow> owner bs v = Some x" for x
      using other by (auto simp: owner_Some_iff [OF ok'] owner_Some_iff [OF ok] set)
    then have "owner ?bs v = owner bs v" by (metis not_Some_eq)
    with other \<open>v \<noteq> b_lo b\<close> \<open>v \<noteq> b_hi b\<close> show ?thesis by simp
  qed
qed

section \<open>Properties\<close>

text \<open>
  C35. \<open>MMapAllocator::malloc\<close>, of any size for which the host gives memory: the block's interpreter address is
  its host address, below four gigabytes, it is owned by the allocator, and every address of the block,
  its past-the-end address included, translates to itself while all other addresses translate as before.
  There are two exceptions, when blocks touch: if another block ends where this one starts, or starts
  where it ends, the address they share translates to the null pointer from then on. Only a
  block of whole pages can touch the one behind it.
\<close>

theorem mm_malloc_correct:
  assumes "mm_inv a bs" and "end_reads_ok er" and "mmap_ok mm" and "mm sz (mapped a) = Some p"
  shows "\<exists>a'. mm_malloc mm sz a = Inr (\<lparr>ia_vvptr = p, ia_vptr = p, ia_size = sz\<rparr>, a') \<and>
    unat p + unat sz < 2 ^ 32 \<and> isInternalAllocated a' p \<and>
    mm_inv a' (insort_key b_lo (Blk p (p + sz) (next_node a) p) bs) \<and>
    (\<forall>v. irx_vvptr2vptr er a' v =
       (if v = p \<and> p \<in> b_hi ` set bs \<or> v = p + sz \<and> p + sz \<in> b_lo ` set bs then Inr 0
        else if p \<le> v \<and> v \<le> p + sz then Inr v
        else irx_vvptr2vptr er a v)) \<and>
    (p + sz \<in> b_lo ` set bs \<longrightarrow> 4096 dvd unat sz)"
proof -
  let ?b = "Blk p (p + sz) (next_node a) p"
  let ?bs = "insort_key b_lo ?b bs"
  obtain a' where a': "mm_malloc mm sz a = Inr (\<lparr>ia_vvptr = p, ia_vptr = p, ia_size = sz\<rparr>, a')"
    "mm_inv a' ?bs" "allocations a' = allocations a @ [p]"
    using mm_malloc_inv [OF assms(1,3,4)] by blast
  have rel: "touch_rel a bs" and rel': "touch_rel a' ?bs" using assms(1) a'(2) by (simp_all add: mm_inv_def)
  have lt: "unat p + pages sz < 2 ^ 32" "sz \<noteq> 0" using assms(3,4) unfolding mmap_ok_def by blast+
  have e: "unat (p + sz) = unat p + unat sz"
    using lt pages_ge [of sz] by (intro unat_add_nowrap) simp
  have tr: "irx_vvptr2vptr er a' v =
      (if v = p \<and> p \<in> b_hi ` set bs \<or> v = p + sz \<and> p + sz \<in> b_lo ` set bs then Inr 0
       else if p \<le> v \<and> v \<le> p + sz then Inr v
       else irx_vvptr2vptr er a v)" for v
    by (simp add: irx_vvptr2vptr_touch [OF rel' assms(2)] irx_vvptr2vptr_touch [OF rel assms(2)] host_addr_def
        owner_insert [OF touch_relD(1) [OF rel'] touch_relD(1) [OF rel]] covers_def)
  have dvd: "4096 dvd unat sz" if "p + sz \<in> b_lo ` set bs"
  proof -
    from that obtain c where c: "p + sz = b_lo c" "c \<in> set bs" ..
    have "unat (b_lo c) < unat (b_hi c)"
      using touch_okD(1) [OF touch_relD(1) [OF rel] c(2) c(2)] by (simp add: u64_cmp_nat)
    then have "pages sz = unat sz"
      using new_region_beside [OF assms(1,3,4) c(2)] pages_ge [of sz] e c(1) by auto
    with pages_dvd [of sz] show ?thesis by simp
  qed
  have "unat p + unat sz < 2 ^ 32" using lt pages_ge [of sz] by simp
  with a' tr dvd show ?thesis by (auto simp: isInternalAllocated_def)
qed

text \<open>A host that hands out the lowest free pages above the ones in use.\<close>

definition regions_top :: "(u64 \<times> u64) list \<Rightarrow> nat" where
  "regions_top live = foldr (\<lambda>(q, n) m. max (unat q + pages n) m) live 4096"

definition bump_mmap :: mmap_call where
  "bump_mmap sz live =
     (if sz = 0 \<or> 2 ^ 32 \<le> regions_top live + pages sz then None
      else Some (word_of_nat (regions_top live)))"

lemma regions_top_ge: "(q, n) \<in> set live \<Longrightarrow> unat q + pages n \<le> regions_top live"
  by (induction live) (auto simp: regions_top_def)

lemma regions_top_pos: "4096 \<le> regions_top live"
  by (induction live) (auto simp: regions_top_def)

lemma bump_mmap_ok: "mmap_ok bump_mmap"
proof -
  have "sz \<noteq> 0 \<and> p \<noteq> 0 \<and> unat p + pages sz < 2 ^ 32 \<and>
      (\<forall>(q, n) \<in> set live. unat p + pages sz \<le> unat q \<or> unat q + pages n \<le> unat p)"
    if "bump_mmap sz live = Some p" for sz live p
  proof -
    from that have lt: "regions_top live + pages sz < 2 ^ 32" and z: "sz \<noteq> 0"
      and p: "p = word_of_nat (regions_top live)"
      by (auto simp: bump_mmap_def not_le split: if_splits)
    have u: "unat p = regions_top live" unfolding p using lt
      by (simp add: unsigned_of_nat take_bit_nat_eq_self_iff)
    have "p \<noteq> 0" using regions_top_pos [of live] u by auto
    with z lt u show ?thesis by (auto dest: regions_top_ge)
  qed
  then show ?thesis unfolding mmap_ok_def by blast
qed

lemma new_mmap_inv: "mm_inv new_mmap_allocator []"
  by (simp add: mm_inv_def new_mmap_allocator_def touch_rel_def touch_ok_def starts_def ends_def
      vptrs_distinct_def)

text \<open>Two blocks of a page each: the second one starts where the first ends.\<close>

theorem mm_malloc_correct_witness:
  "\<exists>a1 a2. mm_malloc bump_mmap 4096 new_mmap_allocator =
       Inr (\<lparr>ia_vvptr = 4096, ia_vptr = 4096, ia_size = 4096\<rparr>, a1) \<and>
     irx_vvptr2vptr junk_reads a1 8192 = Inr 8192 \<and>
     mm_malloc bump_mmap 4096 a1 = Inr (\<lparr>ia_vvptr = 8192, ia_vptr = 8192, ia_size = 4096\<rparr>, a2) \<and>
     irx_vvptr2vptr junk_reads a2 4100 = Inr 4100 \<and> irx_vvptr2vptr junk_reads a2 8192 = Inr 0 \<and>
     irx_vvptr2vptr junk_reads a2 8193 = Inr 8193"
proof -
  have m: "bump_mmap 4096 (mapped new_mmap_allocator) = Some 4096"
    by (simp add: bump_mmap_def regions_top_def new_mmap_allocator_def pages_def)
  obtain a1 where a1: "mm_malloc bump_mmap 4096 new_mmap_allocator =
      Inr (\<lparr>ia_vvptr = 4096, ia_vptr = 4096, ia_size = 4096\<rparr>, a1)"
    and inv: "mm_inv a1 [Blk 4096 8192 0 4096]"
    and t1: "\<forall>v. irx_vvptr2vptr junk_reads a1 v = (if 4096 \<le> v \<and> v \<le> 8192 then Inr v
      else irx_vvptr2vptr junk_reads new_mmap_allocator v)"
    using mm_malloc_correct [OF new_mmap_inv junk_reads_ok bump_mmap_ok m] by (auto simp: new_mmap_allocator_def)
  have "mapped a1 = [(4096, 4096)]"
    using a1 high_bits [of 4096]
    by (auto simp: mm_malloc_def mm_add_def irx_put_def Let_def m [simplified new_mmap_allocator_def]
        new_mmap_allocator_def split: option.splits if_splits)
  then have m1: "bump_mmap 4096 (mapped a1) = Some 8192"
    by (simp add: bump_mmap_def regions_top_def pages_def)
  obtain a2 where a2: "mm_malloc bump_mmap 4096 a1 = Inr (\<lparr>ia_vvptr = 8192, ia_vptr = 8192, ia_size = 4096\<rparr>, a2)"
    and t2: "\<forall>v. irx_vvptr2vptr junk_reads a2 v = (if v = 8192 then Inr 0
      else if 8192 \<le> v \<and> v \<le> 12288 then Inr v else irx_vvptr2vptr junk_reads a1 v)"
    using mm_malloc_correct [OF inv junk_reads_ok bump_mmap_ok m1] by auto
  from a1 a2 t1 t2 show ?thesis by simp
qed

text \<open>
  Two regions of whole pages can touch. Then the past-the-end address of the lower block is
  the first address of the upper one, the scans of \<open>find\<close> disagree on it, and the upper block,
  although alive, is lost by its own address: it translates to the null pointer and cannot be
  freed by it.
\<close>

theorem mm_touching_block_lost:
  assumes "mmap_ok mm" and "mm s [] = Some p" and "mm t [(p, s)] = Some q"
    and "q = p + s \<or> p = q + t"
    and "mm_malloc mm s new_mmap_allocator = Inr (x, a1)" and "mm_malloc mm t a1 = Inr (y, a2)"
  shows "{ia_vvptr x, ia_vvptr y} = {p, q} \<and>
    irx_vvptr2vptr er a2 (max p q) = Inr 0 \<and>
    (mm_free er (max p q) a2 = Inl AssertFail \<or> mm_free er (max p q) a2 = Inl WildPointer)"
proof -
  have s: "s \<noteq> 0" "t \<noteq> 0" and lt: "unat p < 2 ^ 32" "unat q < 2 ^ 32"
    and up: "unat p + pages s < 2 ^ 32" "unat q + pages t < 2 ^ 32"
    using assms(1-3) unfolding mmap_ok_def by fastforce+
  let ?a0 = "new_mmap_allocator\<lparr>mapped := [(p, s)], allocations := [p]\<rparr>"
  have a1: "(x, a1) = irx_put p p s ?a0"
    using assms(2,5) lt(1) high_bits [of p, THEN iffD2]
    by (simp add: mm_malloc_def mm_add_def new_mmap_allocator_def)
  then have m1: "mapped a1 = [(p, s)]" "allocations a1 = [p]" "next_node a1 = 1"
    "vvmem_start a1 = [(p, 0)]" "vvmem_end a1 = [(p + s, 0)]"
    by (simp_all add: irx_put_def Let_def new_mmap_allocator_def)
  let ?a1 = "a1\<lparr>mapped := [(q, t), (p, s)], allocations := [p, q]\<rparr>"
  have a2: "(y, a2) = irx_put q q t ?a1"
    using assms(3,6) lt(2) high_bits [of q, THEN iffD2] m1
    by (simp add: mm_malloc_def mm_add_def)
  have st: "vvmem_start a2 = map_put q 1 [(p, 0)]" "vvmem_end a2 = map_put (q + t) 1 [(p + s, 0)]"
    using a2 m1 by (simp_all add: irx_put_def Let_def)
  have xy: "ia_vvptr x = p" "ia_vvptr y = q"
    using a1 a2 by (simp_all add: irx_put_def Let_def)
  have grow: "unat (p + s) = unat p + unat s" "unat (q + t) = unat q + unat t"
    using up pages_ge [of s] pages_ge [of t] by (simp_all add: unat_add_nowrap)
  have pos: "0 < unat s" "0 < unat t" using s by (simp_all add: unat_gt_0)
  have "irx_find er a2 (max p q) = al_of None"
  proof (cases "q = p + s")
    case True
    then have "p < q" "q \<noteq> q + t" using grow pos s by (simp_all add: u64_cmp_nat)
    with True show ?thesis
      by (intro irx_find_shared_key [of _ 1 _ 0]) (auto simp: st max_def)
  next
    case False
    then have "p = q + t" using assms(4) by simp
    then have "q < p" "p \<noteq> p + s" using grow pos s by (simp_all add: u64_cmp_nat)
    with \<open>p = q + t\<close> show ?thesis
      by (intro irx_find_shared_key [of _ 0 _ 1]) (auto simp: st max_def)
  qed
  then show ?thesis
    by (auto simp: xy irx_vvptr2vptr_def mm_free_def rbind_def rassert_def)
qed

theorem mm_touching_block_lost_witness:
  "\<exists>x y a1 a2. mm_malloc bump_mmap 4096 new_mmap_allocator = Inr (x, a1) \<and>
     mm_malloc bump_mmap 4096 a1 = Inr (y, a2) \<and> ia_vvptr y = 8192 \<and>
     irx_vvptr2vptr junk_reads a2 8192 = Inr 0"
proof -
  have m: "bump_mmap 4096 [] = Some 4096" "bump_mmap 4096 [(4096, 4096)] = Some 8192"
    by (simp_all add: bump_mmap_def regions_top_def pages_def)
  have h: "(4096 :: u64) AND NOT 0xFFFFFFFF = 0" "(8192 :: u64) AND NOT 0xFFFFFFFF = 0"
    by (simp_all add: high_bits)
  obtain x a1 where a1: "mm_malloc bump_mmap 4096 new_mmap_allocator = Inr (x, a1)"
    and m1: "mapped a1 = [(4096, 4096)]"
    using m(1) h(1) by (simp add: mm_malloc_def mm_add_def new_mmap_allocator_def irx_put_def)
  obtain y a2 where a2: "mm_malloc bump_mmap 4096 a1 = Inr (y, a2)" and y: "ia_vvptr y = 8192"
    using m(2) m1 h(2) by (simp add: mm_malloc_def mm_add_def irx_put_def Let_def)
  from mm_touching_block_lost [OF bump_mmap_ok m _ a1 a2, of junk_reads]
  have "irx_vvptr2vptr junk_reads a2 8192 = Inr 0" by simp
  with a1 a2 y show ?thesis by blast
qed

end
