(* ===== verification/AddrGen.thy ===== *)
theory AddrGen
  imports Prelude
begin

text \<open>
  \<open>LinearVirtualMemoryAddressGenerator\<close> (\<open>libirx/irinterpreter2-mmap.h\<close>,
  \<open>libirx/irinterpreter2-mmap.cc\<close>): the bump allocator of interpreter addresses
  (\<open>vvmem\<close>) and its freeze stack, and the reservation of its range that a build with
  \<open>DEBUG_MMAP\<close> makes.
\<close>

section \<open>State and operations\<close>

record vma =
  vvsize :: u64
  startAddr :: u64
  endAddr :: u64
  lastAllocAddr :: u64
  freezeStack :: "u64 list"

definition new_vma :: vma where
  "new_vma =
     \<lparr>vvsize = 0x08000000, startAddr = 0x50000000, endAddr = 0x50000000 + 0x08000000,
      lastAllocAddr = 0x50000000, freezeStack = []\<rparr>"

definition stride :: "u64 \<Rightarrow> u64" where
  "stride sz = (sz + 4) AND NOT 3"

definition vma_next :: "u64 \<Rightarrow> vma \<Rightarrow> (u64 \<times> vma) res" where
  "vma_next sz g =
     (let vvmem = lastAllocAddr g;
          g' = g\<lparr>lastAllocAddr := lastAllocAddr g + stride sz\<rparr>
      in if lastAllocAddr g' > endAddr g' then Inl ExitFailure else Inr (vvmem, g'))"

definition vma_freeze :: "vma \<Rightarrow> vma" where
  "vma_freeze g = g\<lparr>freezeStack := lastAllocAddr g # freezeStack g\<rparr>"

definition vma_reset :: "vma \<Rightarrow> vma res" where
  "vma_reset g =
     (case freezeStack g of
        [] \<Rightarrow> Inl EmptyStack
      | t # ts \<Rightarrow> Inr (g\<lparr>lastAllocAddr := t, freezeStack := ts\<rparr>))"

text \<open>
  The constructor of a build with \<open>DEBUG_MMAP\<close> reserves the range of addresses in the host. \<open>os\<close>
  is the host's answer to the \<open>i\<close>-th \<open>mmap\<close> with an address as its hint; \<open>MAP_FAILED\<close> is an
  answer, too. The loop gives the new \<open>startAddr\<close> and the last answer.
\<close>

definition MAP_FAILED :: u64 where
  "MAP_FAILED = - 1"

fun reserve_loop :: "(nat \<Rightarrow> u64 \<Rightarrow> u64) \<Rightarrow> nat \<Rightarrow> nat \<Rightarrow> u64 \<Rightarrow> u64 \<Rightarrow> u64 \<times> u64" where
  "reserve_loop os i 0 start m = (start, m)"
| "reserve_loop os i (Suc n) start m =
     (let addr = start + word_of_nat i * 0x00100000;
          m' = os i addr
      in if m' = MAP_FAILED then reserve_loop os (Suc i) n start m'
         else if m' \<noteq> start then reserve_loop os (Suc i) n start m'
         else (addr, m'))"

text \<open>The offsets below \<open>0xFF000000\<close> are 4080; the assertion ends the constructor.\<close>

definition reserve_range :: "(nat \<Rightarrow> u64 \<Rightarrow> u64) \<Rightarrow> vma \<Rightarrow> vma res" where
  "reserve_range os g =
     (let (a, m) = reserve_loop os 0 4080 (startAddr g) 0
      in if m = a then Inr (g\<lparr>startAddr := a\<rparr>) else Inl AssertFail)"

text \<open>A sequence of allocations, as the callers of the generator make them.\<close>

fun gen_allocs :: "(u64 \<Rightarrow> 'g \<Rightarrow> (u64 \<times> 'g) res) \<Rightarrow> u64 list \<Rightarrow> 'g \<Rightarrow> (u64 list \<times> 'g) res" where
  "gen_allocs nxt [] g = Inr ([], g)"
| "gen_allocs nxt (sz # szs) g =
     rbind (nxt sz g) (\<lambda>(a, g1). rbind (gen_allocs nxt szs g1) (\<lambda>(as, g2). Inr (a # as, g2)))"

lemma gen_allocs_snoc:
  "gen_allocs nxt (szs @ [sz]) g =
     rbind (gen_allocs nxt szs g) (\<lambda>(as, g1). rbind (nxt sz g1) (\<lambda>(a, g2). Inr (as @ [a], g2)))"
proof (induction szs arbitrary: g)
  case Nil
  show ?case by (cases "nxt sz g") auto
next
  case (Cons z szs)
  show ?case
  proof (cases "nxt z g")
    case (Inr r)
    then show ?thesis by (cases r; cases "gen_allocs nxt szs (snd r)") (auto simp: Cons.IH split_beta rbind_assoc)
  qed simp
qed

section \<open>The reservation does not retry\<close>

lemma reserve_later:
  assumes "0 < i" and "i + n \<le> 4080" and "m \<noteq> start" and "start \<noteq> MAP_FAILED"
  shows "snd (reserve_loop os i n start m) \<noteq> fst (reserve_loop os i n start m)"
  using assms
proof (induction n arbitrary: i m)
  case (Suc n)
  have "unat (word_of_nat i * 0x00100000 :: u64) = i * 0x00100000"
    using Suc.prems(2) by (simp add: unat_word_ariths unat_of_nat take_bit_eq_mod)
  then have "(word_of_nat i * 0x00100000 :: u64) \<noteq> 0"
    using Suc.prems(1) by (metis mult_eq_0_iff neq0_conv unat_0 zero_neq_numeral)
  with Suc.IH [of "Suc i"] Suc.prems(2,4) show ?case by (auto simp: Let_def)
qed simp

text \<open>
  Only the first attempt can succeed: every later one compares the answer with the old
  \<open>startAddr\<close> and not with the address it asked for, so the assertion at the end fails whatever the
  host answers.
\<close>

lemma reserve_range_first:
  assumes "startAddr g \<noteq> MAP_FAILED"
  shows "reserve_range os g = (if os 0 (startAddr g) = startAddr g then Inr g else Inl AssertFail)"
proof -
  have "4080 = Suc 4079" by simp
  then have first: "reserve_loop os 0 4080 (startAddr g) 0 =
      (if os 0 (startAddr g) = startAddr g then (startAddr g, startAddr g)
       else reserve_loop os 1 4079 (startAddr g) (os 0 (startAddr g)))"
    using assms by (simp only: reserve_loop.simps) (simp add: Let_def)
  show ?thesis
    using reserve_later [of 1 4079 "os 0 (startAddr g)" "startAddr g" os] assms
    by (auto simp: reserve_range_def first split_beta)
qed

section \<open>The stride of a block\<close>

lemma and_not_mask_diff: "(x::u64) AND NOT (mask 2) = x - take_bit 2 x"
proof -
  have "x - take_bit 2 x = x AND NOT (take_bit 2 x)"
    by (rule disjunctive_diff) (auto simp: bit_simps)
  also have "\<dots> = x AND NOT (mask 2)" by (rule bit_word_eqI) (auto simp: bit_simps)
  finally show ?thesis by simp
qed

lemma and_not_3_nat: "unat ((x::u64) AND NOT 3) = unat x div 4 * 4"
proof -
  have m: "(3 :: u64) = mask 2" by (simp add: mask_eq_decr_exp)
  have t: "unat (take_bit 2 x) = unat x mod 4"
    by (simp add: unsigned_take_bit_eq) (simp add: take_bit_eq_mod)
  have le: "take_bit 2 x \<le> x" by (simp add: word_le_nat_alt t)
  have "unat (x - take_bit 2 x) = unat x - unat x mod 4"
    using le by (simp add: unat_sub t)
  then show ?thesis unfolding m and_not_mask_diff by (simp add: minus_mod_eq_div_mult)
qed

lemma stride_nat: "unat sz + 4 < 2 ^ 64 \<Longrightarrow> unat (stride sz) = (unat sz + 4) div 4 * 4"
  unfolding stride_def and_not_3_nat by (simp add: unat_add_nowrap)

lemma stride_bounds:
  assumes "unat sz + 4 < 2 ^ 64"
  shows "unat sz < unat (stride sz)" and "unat (stride sz) \<le> unat sz + 4"
    and "4 dvd unat (stride sz)"
  using assms by (simp_all add: stride_nat)

section \<open>The generator's invariant\<close>

definition vma_inv :: "vma \<Rightarrow> bool" where
  "vma_inv g \<longleftrightarrow>
     startAddr g \<le> lastAllocAddr g \<and> lastAllocAddr g \<le> endAddr g \<and>
     sorted_wrt (\<ge>) (lastAllocAddr g # freezeStack g) \<and>
     list_all (\<lambda>a. startAddr g \<le> a \<and> 4 dvd unat a) (lastAllocAddr g # freezeStack g)"

text \<open>A request is small when the end of the address range plus its stride stays in 64 bits.\<close>

definition vma_fits :: "u64 \<Rightarrow> vma \<Rightarrow> bool" where
  "vma_fits sz g \<longleftrightarrow> unat (endAddr g) + unat sz + 4 < 2 ^ 64"

lemma new_vma_inv: "vma_inv new_vma"
  by (simp add: vma_inv_def new_vma_def)

lemma vma_next_advance:
  assumes "vma_inv g" and "vma_fits sz g"
  shows "unat (lastAllocAddr g + stride sz) = unat (lastAllocAddr g) + unat (stride sz)"
proof (rule unat_add_nowrap)
  have "unat (lastAllocAddr g) \<le> unat (endAddr g)"
    using assms(1) by (simp add: vma_inv_def u64_cmp_nat)
  moreover have "unat (stride sz) \<le> unat sz + 4"
    using assms(2) by (intro stride_bounds) (simp add: vma_fits_def)
  ultimately show "unat (lastAllocAddr g) + unat (stride sz) < 2 ^ 64"
    using assms(2) by (simp add: vma_fits_def)
qed

lemma vma_next_InrE:
  assumes "vma_next sz g = Inr (a, g')"
  obtains "a = lastAllocAddr g" and "g' = g\<lparr>lastAllocAddr := lastAllocAddr g + stride sz\<rparr>"
    and "lastAllocAddr g' \<le> endAddr g'"
  using assms by (auto simp: vma_next_def Let_def not_less split: if_splits)

lemma vma_next_block:
  assumes "vma_inv g" and "vma_fits sz g" and "vma_next sz g = Inr (a, g')"
  shows "a = lastAllocAddr g" and "unat a + unat sz < unat (lastAllocAddr g')"
    and "unat (lastAllocAddr g') \<le> unat a + unat sz + 4"
proof -
  from assms(3) have g': "a = lastAllocAddr g" "lastAllocAddr g' = lastAllocAddr g + stride sz"
    by (auto elim: vma_next_InrE)
  then show "a = lastAllocAddr g" by simp
  have "unat sz + 4 < 2 ^ 64" using assms(2) by (simp add: vma_fits_def)
  with g' vma_next_advance [OF assms(1,2)] stride_bounds [of sz]
  show "unat a + unat sz < unat (lastAllocAddr g')"
    and "unat (lastAllocAddr g') \<le> unat a + unat sz + 4" by simp_all
qed

lemma vma_next_inv:
  assumes "vma_inv g" and "vma_fits sz g" and "vma_next sz g = Inr (a, g')"
  shows "vma_inv g'"
proof -
  from assms(3) have g': "g' = g\<lparr>lastAllocAddr := lastAllocAddr g + stride sz\<rparr>"
    and le: "lastAllocAddr g' \<le> endAddr g'"
    by (auto elim: vma_next_InrE)
  have "unat sz + 4 < 2 ^ 64" using assms(2) by (simp add: vma_fits_def)
  then have "4 dvd unat (stride sz)" by (rule stride_bounds)
  moreover have "4 dvd unat (lastAllocAddr g)" using assms(1) by (simp add: vma_inv_def)
  ultimately have "4 dvd unat (lastAllocAddr g')"
    using vma_next_advance [OF assms(1,2)] by (simp add: g')
  moreover have "lastAllocAddr g \<le> lastAllocAddr g'"
    using vma_next_advance [OF assms(1,2)] by (simp add: g' u64_cmp_nat)
  ultimately show ?thesis using assms(1) le
    unfolding vma_inv_def by (auto simp: g')
qed

lemma vma_next_fits: "vma_next sz g = Inr (a, g') \<Longrightarrow> vma_fits sz' g' = vma_fits sz' g"
  by (erule vma_next_InrE) (simp add: vma_fits_def)

lemma vma_next_cases:
  assumes "vma_inv g" and "vma_fits sz g"
  shows "if unat (endAddr g) < unat (lastAllocAddr g) + (unat sz + 4) div 4 * 4
    then vma_next sz g = Inl ExitFailure
    else \<exists>g'. vma_next sz g = Inr (lastAllocAddr g, g') \<and>
      unat (lastAllocAddr g') = unat (lastAllocAddr g) + (unat sz + 4) div 4 * 4 \<and>
      unat (lastAllocAddr g) + unat sz < unat (lastAllocAddr g') \<and>
      4 dvd unat (lastAllocAddr g) \<and> vma_inv g'"
proof -
  have n: "unat (lastAllocAddr g + stride sz) = unat (lastAllocAddr g) + (unat sz + 4) div 4 * 4"
    using vma_next_advance [OF assms] assms(2) by (simp add: vma_fits_def stride_nat)
  show ?thesis
  proof (cases "unat (endAddr g) < unat (lastAllocAddr g) + (unat sz + 4) div 4 * 4")
    case True
    with n show ?thesis by (simp add: vma_next_def u64_cmp_nat)
  next
    case False
    let ?g' = "g\<lparr>lastAllocAddr := lastAllocAddr g + stride sz\<rparr>"
    from False n have r: "vma_next sz g = Inr (lastAllocAddr g, ?g')"
      by (simp add: vma_next_def u64_cmp_nat)
    from vma_next_block [OF assms r] vma_next_inv [OF assms r] False n r assms(1)
    show ?thesis by (auto simp: vma_inv_def)
  qed
qed

lemma vma_freeze_inv: "vma_inv g \<Longrightarrow> vma_inv (vma_freeze g)"
  by (auto simp: vma_inv_def vma_freeze_def)

lemma vma_reset_inv: "vma_inv g \<Longrightarrow> vma_reset g = Inr g' \<Longrightarrow> vma_inv g'"
  by (auto simp: vma_inv_def vma_reset_def split: list.splits)

section \<open>The interface the allocators rely on\<close>

text \<open>
  What \<open>MapAllocator::add\<close> and \<open>LLVMGlobalVariableAllocator::add\<close> rely on: the
  block \<open>[a, a + sz]\<close>, its past-the-end address included, lies between the frontier
  before the call and the frontier after it.
\<close>

locale addr_gen =
  fixes gnext :: "u64 \<Rightarrow> 'g \<Rightarrow> (u64 \<times> 'g) res"
    and front :: "'g \<Rightarrow> u64"
    and ginv :: "'g \<Rightarrow> bool"
    and gfits :: "u64 \<Rightarrow> 'g \<Rightarrow> bool"
  assumes gnext_inv: "ginv g \<Longrightarrow> gfits sz g \<Longrightarrow> gnext sz g = Inr (a, g') \<Longrightarrow> ginv g'"
    and gnext_fits: "gnext sz g = Inr (a, g') \<Longrightarrow> gfits sz' g' = gfits sz' g"
    and gnext_block: "ginv g \<Longrightarrow> gfits sz g \<Longrightarrow> gnext sz g = Inr (a, g') \<Longrightarrow>
      front g \<le> a \<and> a \<le> a + sz \<and> a + sz < front g'"
begin

lemma allocs_above:
  assumes "ginv g" and "list_all (\<lambda>sz. gfits sz g) szs" and "gen_allocs gnext szs g = Inr (as, g')"
  shows "ginv g' \<and> length as = length szs \<and> front g \<le> front g' \<and>
    list_all (\<lambda>(a, sz). front g \<le> a \<and> a \<le> a + sz \<and> a + sz < front g') (zip as szs)"
  using assms
proof (induction szs arbitrary: g as)
  case Nil
  then show ?case by simp
next
  case (Cons sz szs)
  then obtain a g1 as' where a: "gnext sz g = Inr (a, g1)"
    and as': "gen_allocs gnext szs g1 = Inr (as', g')" and "as = a # as'"
    by auto
  have i: "ginv g1" and f: "list_all (\<lambda>sz. gfits sz g1) szs"
    using Cons.prems a by (auto simp: list_all_iff gnext_fits intro: gnext_inv)
  have "front g \<le> a \<and> a \<le> a + sz \<and> a + sz < front g1"
    using gnext_block [OF _ _ a] Cons.prems(1,2) by simp
  with Cons.IH [OF i f as'] show ?case
    by (auto simp: \<open>as = a # as'\<close> list_all_iff)
qed

lemma allocs_disjoint:
  assumes "ginv g" and "list_all (\<lambda>sz. gfits sz g) szs" and "gen_allocs gnext szs g = Inr (as, g')"
  shows "sorted_wrt (\<lambda>(a, sz) (b, sz'). a + sz < b) (zip as szs)"
  using assms
proof (induction szs arbitrary: g as)
  case Nil
  then show ?case by simp
next
  case (Cons sz szs)
  then obtain a g1 as' where a: "gnext sz g = Inr (a, g1)"
    and as': "gen_allocs gnext szs g1 = Inr (as', g')" and "as = a # as'"
    by auto
  have i: "ginv g1" and f: "list_all (\<lambda>sz. gfits sz g1) szs"
    using Cons.prems a by (auto simp: list_all_iff gnext_fits intro: gnext_inv)
  have "a + sz < front g1" using gnext_block [OF _ _ a] Cons.prems(1,2) by simp
  with allocs_above [OF i f as'] Cons.IH [OF i f as'] show ?case
    by (auto simp: \<open>as = a # as'\<close> list_all_iff)
qed

end

interpretation lin: addr_gen vma_next lastAllocAddr vma_inv vma_fits
proof unfold_locales
  fix sz g a g'
  assume *: "vma_inv g" "vma_fits sz g" "vma_next sz g = Inr (a, g')"
  then have "unat a + unat sz < unat (lastAllocAddr g')" "a = lastAllocAddr g"
    by (auto dest: vma_next_block)
  moreover from this have "unat a + unat sz < 2 ^ 64"
    by (meson order_less_trans u64_unat_lt)
  ultimately show "lastAllocAddr g \<le> a \<and> a \<le> a + sz \<and> a + sz < lastAllocAddr g'"
    by (auto simp: u64_cmp_nat unat_add_nowrap)
qed (auto intro: vma_next_inv vma_next_fits dest: vma_next_fits)

section \<open>Properties\<close>

text \<open>
  For a generator in a good state and a request that does not overflow 64 bits,
  \<open>next\<close> either exits, exactly when the rounded-up block does not fit below
  \<open>endAddr\<close>, or hands out the old frontier, 4-byte aligned, and moves the frontier by the
  size rounded up to the next multiple of four, so that the block and its past-the-end address
  lie below the new frontier.
\<close>

theorem vma_next_correct:
  assumes "vma_inv g" and "vma_fits sz g"
  shows "if unat (endAddr g) < unat (lastAllocAddr g) + (unat sz + 4) div 4 * 4
    then vma_next sz g = Inl ExitFailure
    else \<exists>g'. vma_next sz g = Inr (lastAllocAddr g, g') \<and>
      unat (lastAllocAddr g') = unat (lastAllocAddr g) + (unat sz + 4) div 4 * 4 \<and>
      unat (lastAllocAddr g) + unat sz < unat (lastAllocAddr g') \<and>
      4 dvd unat (lastAllocAddr g) \<and> vma_inv g'"
  using assms by (rule vma_next_cases)

theorem vma_next_correct_witness:
  "vma_inv new_vma \<and> vma_fits 10 new_vma \<and>
   (\<exists>g'. vma_next 10 new_vma = Inr (0x50000000, g') \<and> lastAllocAddr g' = 0x5000000C)"
proof -
  have h: "vma_inv new_vma" "vma_fits 10 new_vma"
    by (rule new_vma_inv) (simp add: vma_fits_def new_vma_def)
  from vma_next_correct [OF h] h show ?thesis
    by (simp add: new_vma_def vma_next_def stride_def)
qed

text \<open>
  C29. The addresses of any sequence of allocations from a good generator are increasing, and
  each block, its past-the-end address included, ends before the next one begins and stays inside
  \<open>[startAddr, endAddr]\<close>: no two blocks overlap or touch.
\<close>

theorem vma_allocs_disjoint:
  assumes "vma_inv g" and "\<forall>sz \<in> set szs. vma_fits sz g"
    and "gen_allocs vma_next szs g = Inr (as, g')"
  shows "sorted_wrt (\<lambda>(a, sz) (b, sz'). a + sz < b) (zip as szs) \<and>
    list_all (\<lambda>(a, sz). startAddr g \<le> a \<and> a \<le> a + sz \<and> a + sz < lastAllocAddr g') (zip as szs) \<and>
    lastAllocAddr g' \<le> endAddr g'"
proof -
  have f: "list_all (\<lambda>sz. vma_fits sz g) szs" using assms(2) by (simp add: list_all_iff)
  from lin.allocs_above [OF assms(1) f assms(3)] lin.allocs_disjoint [OF assms(1) f assms(3)]
  show ?thesis using assms(1)
    by (auto simp: list_all_iff vma_inv_def intro: order_trans)
qed

theorem vma_allocs_disjoint_witness:
  "\<exists>as g'. gen_allocs vma_next [3, 0, 8] new_vma = Inr (as, g') \<and>
     as = [0x50000000, 0x50000004, 0x50000008] \<and>
     sorted_wrt (\<lambda>(a, sz) (b, sz'). a + sz < b) (zip as [3, 0, 8])"
proof -
  let ?g = "new_vma\<lparr>lastAllocAddr := 0x50000014\<rparr>"
  have r: "gen_allocs vma_next [3, 0, 8] new_vma = Inr ([0x50000000, 0x50000004, 0x50000008], ?g)"
    by (simp add: new_vma_def vma_next_def stride_def)
  have f: "\<forall>sz \<in> set [3, 0, 8]. vma_fits sz new_vma"
    by (simp add: vma_fits_def new_vma_def)
  from vma_allocs_disjoint [OF new_vma_inv f r] r show ?thesis by blast
qed

text \<open>Runs of the generator's operations, and the runs whose freezes and resets match.\<close>

datatype vma_op = VNext u64 | VFreeze | VReset

fun vma_step :: "vma_op \<Rightarrow> vma \<Rightarrow> vma res" where
  "vma_step (VNext sz) g = rbind (vma_next sz g) (\<lambda>(a, g'). Inr g')"
| "vma_step VFreeze g = Inr (vma_freeze g)"
| "vma_step VReset g = vma_reset g"

fun vma_run :: "vma_op list \<Rightarrow> vma \<Rightarrow> vma res" where
  "vma_run [] g = Inr g"
| "vma_run (x # xs) g = rbind (vma_step x g) (vma_run xs)"

inductive balanced :: "vma_op list \<Rightarrow> bool" where
  bal_nil: "balanced []"
| bal_next: "balanced xs \<Longrightarrow> balanced (VNext sz # xs)"
| bal_nest: "balanced xs \<Longrightarrow> balanced ys \<Longrightarrow> balanced (VFreeze # xs @ VReset # ys)"

lemma vma_run_append: "vma_run (xs @ ys) g = rbind (vma_run xs g) (vma_run ys)"
  by (induction xs arbitrary: g) (simp_all add: rbind_def split: sum.splits)

lemma vma_reset_freeze [simp]: "vma_reset ((vma_freeze g)\<lparr>lastAllocAddr := l\<rparr>) = Inr g"
  by (simp add: vma_reset_def vma_freeze_def)

lemma balanced_frame: "balanced xs \<Longrightarrow> vma_run xs g = Inr g' \<Longrightarrow> \<exists>l. g' = g\<lparr>lastAllocAddr := l\<rparr>"
proof (induction arbitrary: g g' rule: balanced.induct)
  case bal_nil
  then have "g' = g\<lparr>lastAllocAddr := lastAllocAddr g\<rparr>" by simp
  then show ?case ..
next
  case (bal_next xs sz)
  then obtain a g1 where "vma_next sz g = Inr (a, g1)" and "vma_run xs g1 = Inr g'"
    by auto
  with bal_next.IH [of g1 g'] show ?case by (auto elim!: vma_next_InrE)
next
  case (bal_nest xs ys)
  then obtain g1 g2 where x: "vma_run xs (vma_freeze g) = Inr g1" and "vma_reset g1 = Inr g2"
    and y: "vma_run ys g2 = Inr g'"
    by (auto simp: vma_run_append)
  moreover from bal_nest.IH(1) [OF x] obtain l where "g1 = (vma_freeze g)\<lparr>lastAllocAddr := l\<rparr>" ..
  ultimately have "g2 = g" by simp
  with y bal_nest.IH(2) show ?case by blast
qed

text \<open>
  \<open>freeze\<close>, then any run of allocations and properly nested freezes and resets, then
  \<open>reset\<close> gives back exactly the generator the run started from, and that last reset cannot
  find the freeze stack empty.
\<close>

theorem vma_freeze_reset:
  assumes "balanced xs" and "vma_run xs (vma_freeze g) = Inr g'"
  shows "vma_reset g' = Inr g"
  using balanced_frame [OF assms] by auto

theorem vma_freeze_reset_witness:
  "\<exists>g'. vma_run [VNext 40, VFreeze, VNext 7, VReset, VNext 1] (vma_freeze new_vma) = Inr g' \<and>
     lastAllocAddr g' = 0x50000030 \<and> vma_reset g' = Inr new_vma"
proof -
  let ?xs = "[VNext 40, VFreeze, VNext 7, VReset, VNext 1]"
  have b: "balanced ?xs"
    using bal_next [OF bal_nest [OF bal_next [OF bal_nil] bal_next [OF bal_nil]]] by simp
  let ?g = "(vma_freeze new_vma)\<lparr>lastAllocAddr := 0x50000030\<rparr>"
  have r: "vma_run ?xs (vma_freeze new_vma) = Inr ?g"
    by (simp add: new_vma_def vma_next_def stride_def vma_freeze_def vma_reset_def)
  from vma_freeze_reset [OF b r] r show ?thesis by auto
qed

text \<open>
  The overflow the code does not guard: a request of \<open>2^64 - 4\<close> to \<open>2^64 - 1\<close> bytes
  wraps to a stride of zero, so \<open>next\<close> reports success, hands out the frontier and does not
  move it: the same address goes out again.
\<close>

theorem vma_next_overflow:
  assumes "vma_inv g" and "2 ^ 64 - 4 \<le> unat sz"
  shows "vma_next sz g = Inr (lastAllocAddr g, g)"
proof -
  have "unat (sz + 4) = unat sz + 4 - 2 ^ 64"
    using assms(2) u64_unat_lt [of sz] by (simp add: unat_word_ariths mod_if)
  then have "unat (stride sz) = 0"
    unfolding stride_def and_not_3_nat using u64_unat_lt [of sz] by simp
  then have "stride sz = 0" by (simp add: unat_eq_zero)
  with assms(1) show ?thesis by (simp add: vma_next_def vma_inv_def not_less)
qed

theorem vma_next_overflow_witness:
  "vma_next 0xFFFFFFFFFFFFFFFC new_vma = Inr (0x50000000, new_vma)"
  using vma_next_overflow [OF new_vma_inv, of "0xFFFFFFFFFFFFFFFC"] by (simp add: new_vma_def)

end
