(* ===== verification/GVAlloc.thy ===== *)
theory GVAlloc
  imports AddrGen IrxAllocator
begin

text \<open>
  \<open>LLVMGlobalVariableAllocator\<close> (\<open>libirx/irinterpreter2-mmap.h\<close>,
  \<open>libirx/irinterpreter2-mmap.cc\<close>): a block is the memory LLVM keeps for a fresh private global
  variable, its interpreter address comes from the linear generator. LLVM's part is two
  arguments: \<open>sizes\<close> gives the store size of the structure type of a name, \<open>None\<close> when the
  context has no such type, and \<open>gv_mem\<close> the address of the memory of the \<open>n\<close>-th variable. The
  counter \<open>n\<close> is a static variable of the function and passed along.
\<close>

section \<open>State and operations\<close>

record gv_allocator = irx +
  gv_vma :: vma

definition gv_add :: "u64 \<Rightarrow> u64 \<Rightarrow> gv_allocator \<Rightarrow> (irx_alloc \<times> gv_allocator) res" where
  "gv_add vmem sz a =
     rbind (vma_next sz (gv_vma a)) (\<lambda>(vvmem, g). Inr (irx_put vvmem vmem sz (a\<lparr>gv_vma := g\<rparr>)))"

definition gv_malloc_struct ::
    "(string \<Rightarrow> u64 option) \<Rightarrow> (nat \<Rightarrow> u64) \<Rightarrow> string \<Rightarrow> nat \<Rightarrow> gv_allocator \<Rightarrow>
     (irx_alloc \<times> gv_allocator \<times> nat) res" where
  "gv_malloc_struct sizes gv_mem name n a =
     (case sizes name of
        None \<Rightarrow> Inl NullDeref
      | Some sz \<Rightarrow> rbind (gv_add (gv_mem n) sz a) (\<lambda>(r, a'). Inr (r, a', Suc n)))"

definition gv_malloc :: "u64 \<Rightarrow> gv_allocator \<Rightarrow> (irx_alloc \<times> gv_allocator) res" where
  "gv_malloc sz a = Inl (Throw ''unimplemented'')"

definition gv_free :: "(gv_allocator \<Rightarrow> end_reads) \<Rightarrow> u64 \<Rightarrow> gv_allocator \<Rightarrow> gv_allocator res" where
  "gv_free er vvptr a = irx_remove er vvptr a"

section \<open>Properties\<close>

definition gv_inv :: "gv_allocator \<Rightarrow> blk list \<Rightarrow> bool" where
  "gv_inv a bs \<longleftrightarrow>
     blk_rel a bs \<and> vma_inv (gv_vma a) \<and> (\<forall>b \<in> set bs. b_hi b < lastAllocAddr (gv_vma a))"

lemma blk_rel_gv: "blk_rel (a\<lparr>gv_vma := g\<rparr>) bs = blk_rel a bs"
  by (simp add: blk_rel_def)

lemma gv_add_inv:
  assumes inv: "gv_inv a bs" and fits: "vma_fits sz (gv_vma a)"
    and nx: "vma_next sz (gv_vma a) = Inr (l, g)"
  shows "\<exists>a'. gv_add p sz a = Inr (\<lparr>ia_vvptr = l, ia_vptr = p, ia_size = sz\<rparr>, a') \<and>
    gv_inv a' (insort_key b_lo (Blk l (l + sz) (next_node a) p) bs) \<and> gv_vma a' = g"
proof -
  let ?a1 = "a\<lparr>gv_vma := g\<rparr>"
  let ?a' = "snd (irx_put l p sz ?a1)"
  have i: "blk_rel a bs" "vma_inv (gv_vma a)" using inv by (simp_all add: gv_inv_def)
  have l: "lastAllocAddr (gv_vma a) \<le> l" "l \<le> l + sz" "l + sz < lastAllocAddr g"
    using lin.gnext_block [OF i(2) fits nx] by auto
  have hi: "b_hi c < l" if "c \<in> set bs" for c
    using inv that l(1) by (auto simp: gv_inv_def)
  have "blk_rel ?a' (insort_key b_lo (Blk l (l + sz) (next_node ?a1) p) bs)"
    using i(1) l hi by (intro irx_put_rel) (auto simp: blk_rel_gv)
  moreover have "b_hi c < lastAllocAddr g" if "c \<in> set bs" for c
    using hi [OF that] l by (meson le_less_trans less_trans)
  moreover have "gv_vma ?a' = g" by (simp add: irx_put_def Let_def)
  ultimately have "gv_inv ?a' (insort_key b_lo (Blk l (l + sz) (next_node a) p) bs)"
    using l vma_next_inv [OF i(2) fits nx] by (auto simp: gv_inv_def set_insort_key)
  then show ?thesis using nx by (simp add: gv_add_def irx_put_def Let_def)
qed

text \<open>
  \<open>LLVMGlobalVariableAllocator::malloc\<close> by name, from a good state and with room left:
  the block gets the generator's frontier, the memory of the next numbered variable and the
  type's store size; its addresses translate into that memory and all others as before; the
  state is good again and the counter moves on, so the next block gets another variable. A name
  without a type makes the code use a null type.
\<close>

theorem gv_malloc_struct_correct:
  assumes inv: "gv_inv a bs" and er: "end_reads_ok er"
    and fits: "\<forall>sz. sizes name = Some sz \<longrightarrow> vma_fits sz (gv_vma a)"
  shows "case sizes name of
      None \<Rightarrow> gv_malloc_struct sizes gv_mem name n a = Inl NullDeref
    | Some sz \<Rightarrow> (case vma_next sz (gv_vma a) of
        Inl e \<Rightarrow> gv_malloc_struct sizes gv_mem name n a = Inl ExitFailure
      | Inr (l, g) \<Rightarrow> \<exists>a'. gv_malloc_struct sizes gv_mem name n a =
            Inr (\<lparr>ia_vvptr = l, ia_vptr = gv_mem n, ia_size = sz\<rparr>, a', Suc n) \<and>
          l = lastAllocAddr (gv_vma a) \<and>
          gv_inv a' (insort_key b_lo (Blk l (l + sz) (next_node a) (gv_mem n)) bs) \<and>
          (\<forall>v. irx_vvptr2vptr er a' v =
             (if l \<le> v \<and> v \<le> l + sz then Inr (gv_mem n + (v - l)) else irx_vvptr2vptr er a v)))"
proof (cases "sizes name")
  case None
  then show ?thesis by (simp add: gv_malloc_struct_def)
next
  case (Some sz)
  note fit = fits [rule_format, OF Some]
  show ?thesis
  proof (cases "vma_next sz (gv_vma a)")
    case (Inl e)
    then have "e = ExitFailure" by (auto simp: vma_next_def Let_def split: if_splits)
    with Inl Some show ?thesis by (simp add: gv_malloc_struct_def gv_add_def)
  next
    case (Inr x)
    obtain l g where x: "x = (l, g)" by (cases x)
    let ?b = "Blk l (l + sz) (next_node a) (gv_mem n)"
    obtain a' where a': "gv_add (gv_mem n) sz a =
        Inr (\<lparr>ia_vvptr = l, ia_vptr = gv_mem n, ia_size = sz\<rparr>, a')" "gv_inv a' (insort_key b_lo ?b bs)"
      using gv_add_inv [OF inv fit, of l g "gv_mem n"] Inr x by blast
    have rel: "blk_rel a bs" and rel': "blk_rel a' (insort_key b_lo ?b bs)"
      using inv a'(2) by (simp_all add: gv_inv_def)
    have "irx_vvptr2vptr er a' v =
        (if l \<le> v \<and> v \<le> l + sz then Inr (gv_mem n + (v - l)) else irx_vvptr2vptr er a v)" for v
      by (simp add: irx_vvptr2vptr_eq [OF rel' er] irx_vvptr2vptr_eq [OF rel er]
          lookup_blk_insort [OF blk_relD(1) [OF rel'] blk_relD(1) [OF rel]] covers_def host_addr_def)
    moreover have "l = lastAllocAddr (gv_vma a)" using Inr x by (auto elim: vma_next_InrE)
    ultimately show ?thesis using Some Inr x a' by (simp add: gv_malloc_struct_def)
  qed
qed

definition new_gv_allocator :: gv_allocator where
  "new_gv_allocator =
     \<lparr>allocationsHolder = [], vvmem_start = [], vvmem_end = [], allocations = [], next_node = 0,
      gv_vma = new_vma\<rparr>"

lemma new_gv_inv: "gv_inv new_gv_allocator []"
  by (simp add: gv_inv_def new_gv_allocator_def blk_rel_def blks_ok_def starts_def ends_def
      new_vma_inv)

theorem gv_malloc_struct_correct_witness:
  "\<exists>a'. gv_malloc_struct [''struct.device'' \<mapsto> 24] (\<lambda>n. 0x7000 + 64 * word_of_nat n)
       ''struct.device'' 1 new_gv_allocator =
     Inr (\<lparr>ia_vvptr = 0x50000000, ia_vptr = 0x7040, ia_size = 24\<rparr>, a', 2) \<and>
     irx_vvptr2vptr junk_reads a' 0x50000010 = Inr 0x7050"
proof -
  let ?g = "new_vma\<lparr>lastAllocAddr := 0x5000001C\<rparr>" and ?s = "[''struct.device'' \<mapsto> 24 :: u64]"
  let ?m = "\<lambda>n. 0x7000 + 64 * word_of_nat n :: u64"
  have nx: "vma_next 24 (gv_vma new_gv_allocator) = Inr (0x50000000, ?g)"
    by (simp add: new_gv_allocator_def vma_next_def new_vma_def stride_def)
  have f: "\<forall>sz. ?s ''struct.device'' = Some sz \<longrightarrow> vma_fits sz (gv_vma new_gv_allocator)"
    by (simp add: vma_fits_def new_gv_allocator_def new_vma_def)
  from gv_malloc_struct_correct [where gv_mem = ?m and n = 1, OF new_gv_inv junk_reads_ok,
      where name = "''struct.device''" and sizes = ?s, OF f] nx
  obtain a' where a': "gv_malloc_struct ?s ?m ''struct.device'' 1 new_gv_allocator =
      Inr (\<lparr>ia_vvptr = 0x50000000, ia_vptr = 0x7040, ia_size = 24\<rparr>, a', 2)"
    and tr: "\<forall>v. irx_vvptr2vptr junk_reads a' v = (if 0x50000000 \<le> v \<and> v \<le> 0x50000000 + 24
      then Inr (0x7040 + (v - 0x50000000)) else irx_vvptr2vptr junk_reads new_gv_allocator v)"
    by (auto simp: numeral_2_eq_2)
  have "irx_vvptr2vptr junk_reads a' 0x50000010 = Inr 0x7050"
    using spec [OF tr, of "0x50000010"] by simp
  with a' show ?thesis by blast
qed

end
