(* ===== verification/MapAlloc.thy ===== *)
theory MapAlloc
  imports AddrGen IrxAllocator
begin

text \<open>
  \<open>MapAllocator\<close> (\<open>libirx/irinterpreter2-mmap.h\<close>, \<open>libirx/irinterpreter2-mmap.cc\<close>),
  the allocator the interpreter is created with: interpreter addresses come from the linear
  generator, host memory from \<open>llvm::safe_malloc\<close>.

  \<open>host_live\<close> is the part of the host's memory the allocator can see: the addresses of the
  host objects that are alive. \<open>llvm::safe_malloc\<close> is not code of this repository: it is the
  argument \<open>sm\<close>, which gives the address for a size and the live addresses, or \<open>None\<close> when
  it reports a bad allocation, and \<open>safe_malloc_ok\<close> states what its callers rely on.
\<close>

section \<open>State and operations\<close>

record map_allocator = irx +
  ma_vma :: vma
  host_live :: "u64 list"

type_synonym safe_malloc = "u64 \<Rightarrow> u64 list \<Rightarrow> u64 option"

definition safe_malloc_ok :: "safe_malloc \<Rightarrow> bool" where
  "safe_malloc_ok sm \<longleftrightarrow> (\<forall>sz live p. sm sz live = Some p \<longrightarrow> p \<noteq> 0 \<and> p \<notin> set live)"

definition new_map_allocator :: "u64 list \<Rightarrow> map_allocator" where
  "new_map_allocator live =
     \<lparr>allocationsHolder = [], vvmem_start = [], vvmem_end = [], allocations = [], next_node = 0,
      ma_vma = new_vma, host_live = live\<rparr>"

definition ma_add ::
    "(map_allocator \<Rightarrow> end_reads) \<Rightarrow> u64 \<Rightarrow> u64 \<Rightarrow> map_allocator \<Rightarrow>
     (irx_alloc \<times> map_allocator) res" where
  "ma_add er vmem sz a =
     rbind (vma_next sz (ma_vma a)) (\<lambda>(vvmem, g).
       let a1 = a\<lparr>ma_vma := g\<rparr>;
           st = irx_find er a1 vvmem;
           en = irx_find er a1 (vvmem + sz + 1)
       in if al_start st \<noteq> None \<or> al_start en \<noteq> None then Inl ExitFailure
          else Inr (irx_put vvmem vmem sz a1))"

definition ma_malloc ::
    "(map_allocator \<Rightarrow> end_reads) \<Rightarrow> safe_malloc \<Rightarrow> u64 \<Rightarrow> map_allocator \<Rightarrow>
     (irx_alloc \<times> map_allocator) res" where
  "ma_malloc er sm sz a =
     (case sm sz (host_live a) of
        None \<Rightarrow> Inl (Throw ''std::bad_alloc'')
      | Some vmem \<Rightarrow>
          let a1 = a\<lparr>host_live := vmem # host_live a, allocations := allocations a @ [vmem]\<rparr>
          in ma_add er vmem sz a1)"

text \<open>\<open>::free\<close> of the C library, with its undefined behaviour as an error.\<close>

definition c_free :: "u64 \<Rightarrow> map_allocator \<Rightarrow> map_allocator res" where
  "c_free p a =
     (if p \<in> set (host_live a) then Inr (a\<lparr>host_live := remove1 p (host_live a)\<rparr>)
      else Inl DoubleFree)"

definition ma_free ::
    "(map_allocator \<Rightarrow> end_reads) \<Rightarrow> u64 \<Rightarrow> map_allocator \<Rightarrow> map_allocator res" where
  "ma_free er vvptr a =
     (let al = irx_find er a vvptr
      in rbind (rassert (second (rd_start (er a)) (al_start al) = second (rd_end (er a)) (al_end al))
                  AssertFail) (\<lambda>_.
         case al_start al of
           None \<Rightarrow> Inl WildPointer
         | Some (l, n) \<Rightarrow>
             rbind (deref a n) (\<lambda>d.
             rbind (if isInternalAllocated a (ad_vptr d)
                    then rbind (c_free (ad_vptr d) a) (\<lambda>a1.
                           Inr (a1\<lparr>allocations := removeAll (ad_vptr d) (allocations a1)\<rparr>))
                    else Inr a) (\<lambda>a2.
             irx_remove er vvptr a2))))"

definition ma_freeze :: "map_allocator \<Rightarrow> map_allocator" where
  "ma_freeze a = a\<lparr>ma_vma := vma_freeze (ma_vma a)\<rparr>"

definition ma_reset :: "map_allocator \<Rightarrow> map_allocator res" where
  "ma_reset a = rbind (vma_reset (ma_vma a)) (\<lambda>g. Inr (a\<lparr>ma_vma := g\<rparr>))"

text \<open>
  The destructor's loop, \<open>while(vvmem_start.size()) free(vvmem_start.begin()->first)\<close>, with
  fuel; \<open>ma_destroy_total\<close> below shows that the number of blocks is enough.
\<close>

fun ma_destroy ::
    "nat \<Rightarrow> (map_allocator \<Rightarrow> end_reads) \<Rightarrow> map_allocator \<Rightarrow> map_allocator res" where
  "ma_destroy fuel er a =
     (case vvmem_start a of
        [] \<Rightarrow> Inr a
      | (k, n) # _ \<Rightarrow>
          (case fuel of
             0 \<Rightarrow> Inl OutOfFuel
           | Suc fuel' \<Rightarrow> rbind (ma_free er k a) (ma_destroy fuel' er)))"

declare ma_destroy.simps [simp del]

section \<open>Invariant\<close>

definition ma_core :: "map_allocator \<Rightarrow> blk list \<Rightarrow> bool" where
  "ma_core a bs \<longleftrightarrow>
     blk_rel a bs \<and> vma_inv (ma_vma a) \<and> vptrs_distinct bs \<and>
     (\<forall>b \<in> set bs. b_hi b < lastAllocAddr (ma_vma a)) \<and>
     b_vptr ` set bs \<subseteq> set (host_live a) \<and> distinct (host_live a)"

definition ma_inv :: "map_allocator \<Rightarrow> blk list \<Rightarrow> bool" where
  "ma_inv a bs \<longleftrightarrow>
     ma_core a bs \<and> set (allocations a) \<subseteq> b_vptr ` set bs \<and> distinct (allocations a)"

lemma blk_rel_more:
  "blk_rel (a\<lparr>ma_vma := g\<rparr>) bs = blk_rel a bs"
  "blk_rel (a\<lparr>host_live := h\<rparr>) bs = blk_rel a bs"
  "blk_rel (a\<lparr>allocations := al\<rparr>) bs = blk_rel a bs"
  by (simp_all add: blk_rel_def)

lemma ma_coreD:
  assumes "ma_core a bs"
  shows "blk_rel a bs" "vma_inv (ma_vma a)" "vptrs_distinct bs" "blks_ok bs"
    "b \<in> set bs \<Longrightarrow> b_hi b < lastAllocAddr (ma_vma a)"
    "b \<in> set bs \<Longrightarrow> b_vptr b \<in> set (host_live a)" "distinct (host_live a)"
  using assms by (auto simp: ma_core_def dest: blk_relD)

lemma new_map_allocator_inv: "distinct live \<Longrightarrow> ma_inv (new_map_allocator live) []"
  by (simp add: ma_inv_def ma_core_def new_map_allocator_def blk_rel_def blks_ok_def starts_def ends_def
      new_vma_inv vptrs_distinct_def)

lemma insort_key_last: "\<forall>c \<in> set bs. f c < f b \<Longrightarrow> insort_key f b bs = bs @ [b]"
  by (induction bs) auto

text \<open>The block an allocation adds.\<close>

definition new_blk :: "u64 \<Rightarrow> u64 \<Rightarrow> map_allocator \<Rightarrow> blk" where
  "new_blk vmem sz a =
     Blk (lastAllocAddr (ma_vma a)) (lastAllocAddr (ma_vma a) + sz) (next_node a) vmem"

definition exhausted :: "u64 \<Rightarrow> map_allocator \<Rightarrow> bool" where
  "exhausted sz a \<longleftrightarrow>
     unat (endAddr (ma_vma a)) < unat (lastAllocAddr (ma_vma a)) + (unat sz + 4) div 4 * 4"

lemma ma_add_eq:
  assumes inv: "ma_core a bs" and er: "end_reads_ok er" and fits: "vma_fits sz (ma_vma a)"
    and ex: "\<not> exhausted sz a"
  shows "\<exists>g. vma_next sz (ma_vma a) = Inr (lastAllocAddr (ma_vma a), g) \<and>
    ma_add er vmem sz a =
      Inr (irx_put (lastAllocAddr (ma_vma a)) vmem sz (a\<lparr>ma_vma := g\<rparr>))"
proof -
  let ?l = "lastAllocAddr (ma_vma a)"
  obtain g where g: "vma_next sz (ma_vma a) = Inr (?l, g)"
    and up: "unat ?l + unat sz < unat (lastAllocAddr g)"
    using vma_next_cases [OF ma_coreD(2) [OF inv] fits] ex by (auto simp: exhausted_def)
  have "unat (?l + sz + 1) = unat ?l + unat sz + 1"
    using up u64_unat_lt [of "lastAllocAddr g"] by (simp add: unat_word_ariths)
  then have above: "b_hi b < ?l" "b_hi b < ?l + sz + 1" if "b \<in> set bs" for b
    using ma_coreD(5) [OF inv that] by (simp_all add: u64_cmp_nat)
  have "lookup_blk bs ?l = None" "lookup_blk bs (?l + sz + 1) = None"
    using above by (auto simp: lookup_blk_None_iff covers_def dest: leD)
  moreover have "blk_rel (a\<lparr>ma_vma := g\<rparr>) bs" using ma_coreD(1) [OF inv] by (simp add: blk_rel_more)
  ultimately have "ma_add er vmem sz a = Inr (irx_put ?l vmem sz (a\<lparr>ma_vma := g\<rparr>))"
    by (simp add: ma_add_def g Let_def irx_find_eq [OF _ er])
  with g show ?thesis by blast
qed

lemma irx_put_frame:
  "fst (irx_put l p sz a) = \<lparr>ia_vvptr = l, ia_vptr = p, ia_size = sz\<rparr>"
  "allocations (snd (irx_put l p sz a)) = allocations a"
  "irx.more (snd (irx_put l p sz a)) = irx.more a"
  by (simp_all add: irx_put_def Let_def)

lemma ma_more_fields:
  "ma_vma (snd (irx_put l p sz a)) = ma_vma a"
  "host_live (snd (irx_put l p sz a)) = host_live a"
  by (simp_all add: irx_put_def Let_def)

lemma ma_add_core:
  assumes inv: "ma_core a bs" and er: "end_reads_ok er" and fits: "vma_fits sz (ma_vma a)"
    and ex: "\<not> exhausted sz a"
    and v: "vmem \<in> set (host_live a)" "vmem \<notin> b_vptr ` set bs"
  shows "\<exists>a'. ma_add er vmem sz a =
      Inr (\<lparr>ia_vvptr = lastAllocAddr (ma_vma a), ia_vptr = vmem, ia_size = sz\<rparr>, a') \<and>
    ma_core a' (bs @ [new_blk vmem sz a]) \<and> allocations a' = allocations a \<and>
    host_live a' = host_live a \<and> vma_next sz (ma_vma a) = Inr (lastAllocAddr (ma_vma a), ma_vma a')"
proof -
  let ?l = "lastAllocAddr (ma_vma a)"
  obtain g where g: "vma_next sz (ma_vma a) = Inr (?l, g)"
    and r: "ma_add er vmem sz a = Inr (irx_put ?l vmem sz (a\<lparr>ma_vma := g\<rparr>))"
    using ma_add_eq [OF inv er fits ex] by blast
  let ?a1 = "a\<lparr>ma_vma := g\<rparr>" and ?b = "new_blk vmem sz a"
  let ?a' = "snd (irx_put ?l vmem sz ?a1)"
  note d = ma_coreD [OF inv]
  have gi: "vma_inv g" using vma_next_inv [OF d(2) fits g] .
  have wrap: "?l \<le> ?l + sz" and up: "?l + sz < lastAllocAddr g"
    using lin.gnext_block [OF d(2) fits g] by auto
  have hi: "b_hi c < ?l" if "c \<in> set bs" for c using d(5) [OF that] .
  have lo: "b_lo c < ?l" if "c \<in> set bs" for c
    using hi [OF that] blks_ok_le [OF d(4) that] by simp
  have "blk_rel ?a' (insort_key b_lo (Blk ?l (?l + sz) (next_node ?a1) vmem) bs)"
    using d(1) wrap hi by (intro irx_put_rel) (auto simp: blk_rel_more)
  moreover have "insort_key b_lo ?b bs = bs @ [?b]"
    using lo by (intro insort_key_last) (auto simp: new_blk_def)
  ultimately have rel: "blk_rel ?a' (bs @ [?b])" by (simp add: new_blk_def)
  have "b_hi c < lastAllocAddr g" if "c \<in> set bs" for c
    using hi [OF that] wrap up by (meson le_less_trans less_trans)
  with rel gi d v up have "ma_core ?a' (bs @ [?b])"
    by (auto simp: ma_core_def ma_more_fields new_blk_def vptrs_distinct_def)
  moreover have "irx_put ?l vmem sz ?a1 = (\<lparr>ia_vvptr = ?l, ia_vptr = vmem, ia_size = sz\<rparr>, ?a')"
    by (simp add: irx_put_frame prod_eq_iff)
  ultimately show ?thesis using r g
    by (intro exI [of _ ?a']) (simp add: irx_put_frame ma_more_fields)
qed

lemma ma_add_inv:
  assumes inv: "ma_inv a bs" and er: "end_reads_ok er" and fits: "vma_fits sz (ma_vma a)"
    and ex: "\<not> exhausted sz a"
    and v: "vmem \<in> set (host_live a)" "vmem \<notin> b_vptr ` set bs"
  shows "\<exists>a'. ma_add er vmem sz a =
      Inr (\<lparr>ia_vvptr = lastAllocAddr (ma_vma a), ia_vptr = vmem, ia_size = sz\<rparr>, a') \<and>
    ma_inv a' (bs @ [new_blk vmem sz a]) \<and>
    vma_next sz (ma_vma a) = Inr (lastAllocAddr (ma_vma a), ma_vma a')"
  using ma_add_core [OF _ er fits ex v] inv by (fastforce simp: ma_inv_def)

lemma ma_malloc_inv:
  assumes inv: "ma_inv a bs" and er: "end_reads_ok er" and sm: "safe_malloc_ok sm"
    and v: "sm sz (host_live a) = Some v"
    and fits: "vma_fits sz (ma_vma a)" and ex: "\<not> exhausted sz a"
  shows "\<exists>a'. ma_malloc er sm sz a =
      Inr (\<lparr>ia_vvptr = lastAllocAddr (ma_vma a), ia_vptr = v, ia_size = sz\<rparr>, a') \<and>
    ma_inv a' (bs @ [new_blk v sz a]) \<and>
    allocations a' = allocations a @ [v] \<and> host_live a' = v # host_live a \<and>
    vma_next sz (ma_vma a) = Inr (lastAllocAddr (ma_vma a), ma_vma a')"
proof -
  let ?a1 = "a\<lparr>host_live := v # host_live a, allocations := allocations a @ [v]\<rparr>"
  have fresh: "v \<notin> set (host_live a)" using sm v by (simp add: safe_malloc_ok_def)
  have c: "ma_core a bs" and al: "set (allocations a) \<subseteq> b_vptr ` set bs" "distinct (allocations a)"
    using inv by (simp_all add: ma_inv_def)
  have nv: "v \<notin> b_vptr ` set bs" using ma_coreD(6) [OF c] fresh by auto
  have "ma_core ?a1 bs" using c fresh by (auto simp: ma_core_def blk_rel_more)
  from ma_add_core [OF this er, of sz v] fits ex nv
  obtain a' where "ma_add er v sz ?a1 =
      Inr (\<lparr>ia_vvptr = lastAllocAddr (ma_vma a), ia_vptr = v, ia_size = sz\<rparr>, a')"
    "ma_core a' (bs @ [new_blk v sz a])" "allocations a' = allocations a @ [v]"
    "host_live a' = v # host_live a"
    "vma_next sz (ma_vma a) = Inr (lastAllocAddr (ma_vma a), ma_vma a')"
    by (auto simp: exhausted_def new_blk_def)
  with al nv v show ?thesis
    by (auto simp: ma_malloc_def Let_def ma_inv_def new_blk_def)
qed

section \<open>Freeing\<close>

lemma irx_more_fields:
  "irx.more (a'::map_allocator) = irx.more a \<Longrightarrow> ma_vma a' = ma_vma a \<and> host_live a' = host_live a"
  by (cases a; cases a') simp

lemma ma_free_inv:
  assumes inv: "ma_inv a bs" and er: "end_reads_ok er" and b: "lookup_blk bs v = Some b"
  shows "\<exists>a'. ma_free er v a = Inr a' \<and> ma_inv a' (remove1 b bs) \<and> ma_vma a' = ma_vma a \<and>
    allocations a' = removeAll (b_vptr b) (allocations a) \<and>
    host_live a' = (if b_vptr b \<in> set (allocations a) then remove1 (b_vptr b) (host_live a)
                    else host_live a)"
proof -
  have c: "ma_core a bs" and al: "set (allocations a) \<subseteq> b_vptr ` set bs" "distinct (allocations a)"
    using inv by (simp_all add: ma_inv_def)
  note d = ma_coreD [OF c]
  have bin: "b \<in> set bs" using b lookup_blk_Some_iff [OF d(4)] by auto
  let ?a2 = "if b_vptr b \<in> set (allocations a)
    then a\<lparr>host_live := remove1 (b_vptr b) (host_live a),
           allocations := removeAll (b_vptr b) (allocations a)\<rparr>
    else a"
  have rel2: "blk_rel ?a2 bs" using d(1) by (simp add: blk_rel_more)
  obtain a' where a': "irx_remove er v ?a2 = Inr a'" "blk_rel a' (remove1 b bs)"
    "allocations a' = allocations ?a2" "irx.more a' = irx.more ?a2"
    using irx_remove_rel [OF rel2 er d(3) b] by blast
  have fr: "ma_vma a' = ma_vma a" "host_live a' = host_live ?a2"
    using irx_more_fields [OF a'(4)] by simp_all
  have run: "ma_free er v a = Inr a'"
    using a'(1) b bin d(6) [OF bin]
    by (cases "b_vptr b \<in> set (allocations a)")
      (simp_all add: ma_free_def irx_find_eq [OF d(1) er] blk_relD(4) [OF d(1)] blk_data_def
        isInternalAllocated_def c_free_def)
  have al2: "allocations a' = removeAll (b_vptr b) (allocations a)"
    using a'(3) by simp
  have sub: "set (remove1 b bs) = set bs - {b}"
    using blks_ok_distinct [OF d(4)] by simp
  have vp: "b_vptr x \<noteq> b_vptr b" if "x \<in> set bs" "x \<noteq> b" for x
    using d(3) that bin by (auto simp: vptrs_distinct_def distinct_map dest: inj_onD)
  have "ma_core a' (remove1 b bs)"
    using a'(2) d vptrs_distinct_remove1 [OF d(3)] vp
    by (auto simp: ma_core_def fr sub distinct_remove1 in_set_remove1)
  moreover have "set (allocations a') \<subseteq> b_vptr ` set (remove1 b bs)"
    using al(1) by (auto simp: al2 sub)
  ultimately have "ma_inv a' (remove1 b bs)" using al(2) by (simp add: ma_inv_def al2 distinct_removeAll)
  with run fr al2 show ?thesis by simp
qed

lemma ma_free_unmapped:
  assumes inv: "ma_inv a bs" and er: "end_reads_ok er" and b: "lookup_blk bs v = None"
  shows "ma_free er v a = Inl AssertFail \<or> ma_free er v a = Inl WildPointer"
proof -
  have d: "blk_rel a bs" using inv by (simp add: ma_inv_def ma_core_def)
  show ?thesis using b
    by (simp add: ma_free_def irx_find_eq [OF d er] rbind_def rassert_def)
qed

lemma ma_destroy_inv:
  assumes "ma_inv a bs" and er: "end_reads_ok er" and "length bs \<le> fuel"
  shows "\<exists>a'. ma_destroy fuel er a = Inr a' \<and> ma_inv a' [] \<and> ma_vma a' = ma_vma a \<and>
    set (host_live a') = set (host_live a) - set (allocations a)"
  using assms(1,3)
proof (induction fuel arbitrary: a bs)
  case 0
  then have "bs = []" by simp
  moreover from 0 have "allocations a = []" by (simp add: ma_inv_def)
  moreover have "vvmem_start a = []" if "bs = []"
    using 0 that by (auto simp: ma_inv_def ma_core_def blk_rel_def starts_def)
  ultimately show ?case using 0 by (auto simp: ma_destroy.simps)
next
  case (Suc fuel)
  have c: "ma_core a bs" using Suc.prems by (simp add: ma_inv_def)
  show ?case
  proof (cases bs)
    case Nil
    with Suc.prems have "allocations a = []" "vvmem_start a = []"
      by (auto simp: ma_inv_def ma_core_def blk_rel_def starts_def)
    with Nil Suc.prems show ?thesis by (auto simp: ma_destroy.simps)
  next
    case (Cons b bs')
    have "covers (b_lo b) b" using blks_ok_le [OF ma_coreD(4) [OF c], of b] Cons
      by (simp add: covers_def)
    then have look: "lookup_blk bs (b_lo b) = Some b"
      using lookup_blk_Some_iff [OF ma_coreD(4) [OF c]] Cons by auto
    obtain a1 where a1: "ma_free er (b_lo b) a = Inr a1" "ma_inv a1 bs'" "ma_vma a1 = ma_vma a"
      "allocations a1 = removeAll (b_vptr b) (allocations a)"
      "host_live a1 = (if b_vptr b \<in> set (allocations a) then remove1 (b_vptr b) (host_live a)
                    else host_live a)"
      using ma_free_inv [OF Suc.prems(1) er look] Cons by auto
    have "set (host_live a1) = set (host_live a) - (set (allocations a) \<inter> {b_vptr b})"
      using ma_coreD(7) [OF c] by (auto simp: a1(5) )
    moreover obtain a' where a': "ma_destroy fuel er a1 = Inr a'" "ma_inv a' []"
      "ma_vma a' = ma_vma a1" "set (host_live a') = set (host_live a1) - set (allocations a1)"
      using Suc.IH [OF a1(2)] Suc.prems(2) Cons by auto
    ultimately have "set (host_live a') = set (host_live a) - set (allocations a)"
      using a1(4) by auto
    moreover have "vvmem_start a = (b_lo b, b_node b) # starts bs'"
      using blk_relD(2) [OF ma_coreD(1) [OF c]] Cons by (simp add: starts_def)
    ultimately show ?thesis using a' a1 by (auto simp: ma_destroy.simps)
  qed
qed

lemma ma_freeze_inv: "ma_inv a bs \<Longrightarrow> ma_inv (ma_freeze a) bs"
  by (auto simp: ma_inv_def ma_core_def ma_freeze_def blk_rel_more vma_freeze_inv)
    (simp add: vma_freeze_def)

section \<open>Properties\<close>

lemma ma_malloc_exhausted:
  assumes "ma_inv a bs" and "vma_fits sz (ma_vma a)" and "exhausted sz a"
    and "sm sz (host_live a) = Some v"
  shows "ma_malloc er sm sz a = Inl ExitFailure"
  using assms vma_next_cases [of "ma_vma a" sz]
  by (simp add: ma_malloc_def ma_add_def Let_def exhausted_def ma_inv_def ma_core_def)

lemma lookup_blk_append:
  "\<forall>c \<in> set bs. \<not> covers v c \<or> \<not> covers v b \<Longrightarrow>
   lookup_blk (bs @ [b]) v = (if covers v b then Some b else lookup_blk bs v)"
  by (induction bs) (auto simp: lookup_blk_def)

lemma new_blk_apart:
  "ma_inv a bs \<Longrightarrow> c \<in> set bs \<Longrightarrow> \<not> covers v c \<or> \<not> covers v (new_blk p sz a)"
  by (fastforce simp: ma_inv_def ma_core_def covers_def new_blk_def)

text \<open>
  C2. \<open>MapAllocator::malloc\<close> from a good state either exits, exactly when the address range is
  used up, or returns the frontier of the address generator with the fresh host memory it got.
  Afterwards the addresses of the new block, its past-the-end address included, translate to the
  same offset of that memory, all other addresses translate as before, the block is recorded as
  one to free, and the state is good again.
\<close>

theorem map_malloc_correct:
  assumes inv: "ma_inv a bs" and er: "end_reads_ok er" and sm: "safe_malloc_ok sm"
    and v: "sm sz (host_live a) = Some p" and fits: "vma_fits sz (ma_vma a)"
  shows "if exhausted sz a then ma_malloc er sm sz a = Inl ExitFailure
    else \<exists>a' b. ma_malloc er sm sz a =
        Inr (\<lparr>ia_vvptr = b_lo b, ia_vptr = p, ia_size = sz\<rparr>, a') \<and>
      b_lo b = lastAllocAddr (ma_vma a) \<and> b_hi b = b_lo b + sz \<and> b_vptr b = p \<and>
      p \<notin> set (host_live a) \<and> host_live a' = p # host_live a \<and>
      isInternalAllocated a' p \<and> ma_inv a' (bs @ [b]) \<and>
      (\<forall>w. irx_vvptr2vptr er a' w =
         (if covers w b then Inr (host_addr b w) else irx_vvptr2vptr er a w))"
proof (cases "exhausted sz a")
  case True
  then show ?thesis using ma_malloc_exhausted [OF inv fits] v by simp
next
  case False
  let ?b = "new_blk p sz a"
  obtain a' where run: "ma_malloc er sm sz a =
      Inr (\<lparr>ia_vvptr = b_lo ?b, ia_vptr = p, ia_size = sz\<rparr>, a')"
    and inv': "ma_inv a' (bs @ [?b])"
    and fr: "allocations a' = allocations a @ [p]" "host_live a' = p # host_live a"
    using ma_malloc_inv [OF inv er sm v fits False] by (auto simp: new_blk_def)
  have rel: "blk_rel a bs" and rel': "blk_rel a' (bs @ [?b])"
    using inv inv' by (simp_all add: ma_inv_def ma_core_def)
  have "irx_vvptr2vptr er a' w =
      (if covers w ?b then Inr (host_addr ?b w) else irx_vvptr2vptr er a w)" for w
    using new_blk_apart [OF inv]
    by (simp add: irx_vvptr2vptr_eq [OF rel' er] irx_vvptr2vptr_eq [OF rel er] lookup_blk_append)
  moreover have "p \<notin> set (host_live a)" using sm v by (simp add: safe_malloc_ok_def)
  ultimately show ?thesis using False run inv' fr
    by simp (intro exI [of _ a'] exI [of _ ?b], simp add: isInternalAllocated_def new_blk_def)
qed

text \<open>A host with three addresses to give out, and an allocator after one \<open>malloc\<close>.\<close>

definition three_addrs :: safe_malloc where
  "three_addrs sz live = find (\<lambda>p. p \<notin> set live) [0x7000, 0x8000, 0x9000]"

lemma three_addrs_ok: "safe_malloc_ok three_addrs"
  by (auto simp: safe_malloc_ok_def three_addrs_def split: if_splits)

definition one_block :: map_allocator where
  "one_block = \<lparr>allocationsHolder = [(0, \<lparr>ad_vptr = 0x7000, ad_size = 8\<rparr>)],
     vvmem_start = [(0x50000000, 0)], vvmem_end = [(0x50000008, 0)], allocations = [0x7000],
     next_node = 1, ma_vma = new_vma\<lparr>lastAllocAddr := 0x5000000C\<rparr>, host_live = [0x7000]\<rparr>"

abbreviation (input) "blk0 \<equiv> Blk 0x50000000 0x50000008 0 0x7000"

lemma one_block_inv: "ma_inv one_block [blk0]"
  by (simp add: one_block_def ma_inv_def ma_core_def blk_rel_def blks_ok_def starts_def ends_def
      blk_data_def vptrs_distinct_def vma_inv_def new_vma_def)

theorem map_malloc_correct_witness:
  "\<exists>a'. ma_malloc junk_reads three_addrs 5 one_block =
     Inr (\<lparr>ia_vvptr = 0x5000000C, ia_vptr = 0x8000, ia_size = 5\<rparr>, a') \<and>
     irx_vvptr2vptr junk_reads a' 0x5000000E = Inr 0x8002 \<and> host_live a' = [0x8000, 0x7000]"
proof -
  have v: "three_addrs 5 (host_live one_block) = Some 0x8000"
    by (simp add: three_addrs_def one_block_def)
  have f: "vma_fits 5 (ma_vma one_block)" "\<not> exhausted 5 one_block"
    by (simp_all add: vma_fits_def one_block_def new_vma_def exhausted_def)
  have l: "lastAllocAddr (ma_vma one_block) = 0x5000000C" "host_live one_block = [0x7000]"
    by (simp_all add: one_block_def)
  from map_malloc_correct [OF one_block_inv junk_reads_ok three_addrs_ok v f(1)] f(2) l
  show ?thesis by (auto simp: covers_def host_addr_def)
qed

text \<open>
  C3. \<open>MapAllocator::free\<close> of any address of a live block, its past-the-end address included:
  the block's host memory goes back to the host exactly when the allocator got it from there, the
  block's addresses stop translating and all others translate as before, the frontier of the
  generator stays, and the state is good again. An address of no block trips the assertion or
  reads through an end iterator, and is never freed.
\<close>

theorem map_free_correct:
  assumes inv: "ma_inv a bs" and er: "end_reads_ok er"
  shows "case lookup_blk bs v of
      None \<Rightarrow> ma_free er v a = Inl AssertFail \<or> ma_free er v a = Inl WildPointer
    | Some b \<Rightarrow> \<exists>a'. ma_free er v a = Inr a' \<and> ma_inv a' (remove1 b bs) \<and>
        host_live a' = (if isInternalAllocated a (b_vptr b) then remove1 (b_vptr b) (host_live a)
                        else host_live a) \<and>
        \<not> isInternalAllocated a' (b_vptr b) \<and> ma_vma a' = ma_vma a \<and>
        (\<forall>w. irx_vvptr2vptr er a' w =
           (if covers w b then Inr 0 else irx_vvptr2vptr er a w))"
proof (cases "lookup_blk bs v")
  case None
  then show ?thesis using ma_free_unmapped [OF inv er] by simp
next
  case (Some b)
  obtain a' where a': "ma_free er v a = Inr a'" "ma_inv a' (remove1 b bs)" "ma_vma a' = ma_vma a"
    "allocations a' = removeAll (b_vptr b) (allocations a)"
    "host_live a' = (if b_vptr b \<in> set (allocations a) then remove1 (b_vptr b) (host_live a)
                    else host_live a)"
    using ma_free_inv [OF inv er Some] by blast
  have rel: "blk_rel a bs" and vd: "vptrs_distinct bs" and rel': "blk_rel a' (remove1 b bs)"
    using inv a'(2) by (simp_all add: ma_inv_def ma_core_def)
  have "irx_vvptr2vptr er a' w = (if covers w b then Inr 0 else irx_vvptr2vptr er a w)" for w
    by (simp add: irx_vvptr2vptr_eq [OF rel' er] irx_vvptr2vptr_eq [OF rel er]
        lookup_blk_remove1 [OF blk_relD(1) [OF rel]]
        lookup_blk_Some_iff [OF blk_relD(1) [OF rel], THEN iffD1, OF Some])
  with Some a' show ?thesis by (simp add: isInternalAllocated_def)
qed

theorem map_free_correct_witness:
  "\<exists>a'. ma_free junk_reads 0x50000008 one_block = Inr a' \<and> host_live a' = [] \<and>
     irx_vvptr2vptr junk_reads a' 0x50000004 = Inr 0"
  using map_free_correct [OF one_block_inv junk_reads_ok, of "0x50000008"]
  by (auto simp: lookup_blk_def covers_def isInternalAllocated_def one_block_def)

text \<open>
  C33. The destructor's loop ends after as many rounds as there are blocks, without a failing
  assertion or a double free, and leaves no block behind; the host memory alive afterwards is
  what was alive before, less exactly the memory the allocator got from the host.
\<close>

theorem ma_destroy_total:
  assumes "ma_inv a bs" and "end_reads_ok er" and "length bs \<le> fuel"
  shows "\<exists>a'. ma_destroy fuel er a = Inr a' \<and> vvmem_start a' = [] \<and> vvmem_end a' = [] \<and>
    allocations a' = [] \<and> set (host_live a') = set (host_live a) - set (allocations a)"
  using ma_destroy_inv [OF assms]
  by (auto simp: ma_inv_def ma_core_def blk_rel_def starts_def ends_def)

theorem ma_destroy_total_witness:
  "\<exists>a'. ma_destroy 1 junk_reads one_block = Inr a' \<and> host_live a' = []"
  using ma_destroy_total [OF one_block_inv junk_reads_ok, of 1]
  by (auto simp: one_block_def)

end
