(* ===== verification/AddrSpace.thy ===== *)
theory AddrSpace
  imports MapAlloc
begin

text \<open>
  What the interpreter needs of its allocator, as an abstract address space: a list of blocks, each
  with its first and past-the-end address and its memory in the host, a frontier that
  only grows except for going back to a mark, and the memory the space has to free. \<open>MapAllocator\<close> of
  \<open>libirx/irinterpreter2-mmap.cc\<close>, with its two ordered maps, its list of
  allocation nodes and 64-bit addresses that wrap, is shown to implement it.
\<close>

section \<open>Refinement of step functions\<close>

text \<open>
  An abstract machine that promises nothing (\<open>None\<close>) outside its preconditions, and a concrete one
  that keeps related states related and gives the same outputs.
\<close>

fun spec_run :: "('c \<Rightarrow> 's \<Rightarrow> ('o \<times> 's) option) \<Rightarrow> 'c list \<Rightarrow> 's \<Rightarrow> ('o list \<times> 's) option" where
  "spec_run step [] s = Some ([], s)"
| "spec_run step (c # cs) s =
     (case step c s of
        None \<Rightarrow> None
      | Some (x, s1) \<Rightarrow>
          (case spec_run step cs s1 of None \<Rightarrow> None | Some (xs, s2) \<Rightarrow> Some (x # xs, s2)))"

fun code_run :: "('c \<Rightarrow> 's \<Rightarrow> ('o \<times> 's) res) \<Rightarrow> 'c list \<Rightarrow> 's \<Rightarrow> ('o list \<times> 's) res" where
  "code_run step [] s = Inr ([], s)"
| "code_run step (c # cs) s =
     rbind (step c s) (\<lambda>(x, s1). rbind (code_run step cs s1) (\<lambda>(xs, s2). Inr (x # xs, s2)))"

locale refinement =
  fixes R :: "'c \<Rightarrow> 'a \<Rightarrow> bool"
    and astep :: "'i \<Rightarrow> 'a \<Rightarrow> ('o \<times> 'a) option"
    and cstep :: "'i \<Rightarrow> 'c \<Rightarrow> ('o \<times> 'c) res"
  assumes step: "R c a \<Longrightarrow> astep i a = Some (x, a') \<Longrightarrow> \<exists>c'. cstep i c = Inr (x, c') \<and> R c' a'"
begin

lemma run:
  "R c a \<Longrightarrow> spec_run astep is a = Some (xs, a') \<Longrightarrow>
   \<exists>c'. code_run cstep is c = Inr (xs, c') \<and> R c' a'"
proof (induction "is" arbitrary: c a xs)
  case (Cons i "is")
  then obtain x a1 xs1 where s: "astep i a = Some (x, a1)" "spec_run astep is a1 = Some (xs1, a')"
    "xs = x # xs1" by (auto split: option.splits prod.splits)
  from step [OF Cons.prems(1) s(1)] obtain c1 where c1: "cstep i c = Inr (x, c1)" "R c1 a1" by blast
  from Cons.IH [OF c1(2) s(2)] c1(1) s(3) show ?case by auto
qed simp

end

section \<open>The abstract address space\<close>

record aspace =
  as_blocks :: "(u64 \<times> u64 \<times> u64) list"
  as_next :: nat
  as_end :: nat
  as_marks :: "nat list"
  as_own :: "u64 list"
  as_live :: "u64 list"

definition new_space :: "u64 list \<Rightarrow> aspace" where
  "new_space live =
     \<lparr>as_blocks = [], as_next = 0x50000000, as_end = 0x58000000, as_marks = [], as_own = [],
      as_live = live\<rparr>"

definition as_find :: "u64 \<Rightarrow> aspace \<Rightarrow> (u64 \<times> u64 \<times> u64) option" where
  "as_find v sp = find (\<lambda>(l, h, p). l \<le> v \<and> v \<le> h) (as_blocks sp)"

text \<open>An address in the gap between two blocks is null, one outside all blocks its own.\<close>

definition as_to_host :: "u64 \<Rightarrow> aspace \<Rightarrow> u64" where
  "as_to_host v sp =
     (case as_find v sp of
        Some (l, h, p) \<Rightarrow> p + (v - l)
      | None \<Rightarrow>
          if (\<exists>(l, h, p) \<in> set (as_blocks sp). l \<le> v) \<and> (\<exists>(l, h, p) \<in> set (as_blocks sp). v \<le> h)
          then 0 else v)"

definition as_from_host :: "u64 \<Rightarrow> aspace \<Rightarrow> u64" where
  "as_from_host q sp =
     (case find (\<lambda>(l, h, p). p = q) (as_blocks sp) of None \<Rightarrow> 0 | Some (l, h, p) \<Rightarrow> l)"

definition as_put :: "u64 \<Rightarrow> u64 \<Rightarrow> aspace \<Rightarrow> (irx_alloc \<times> aspace) option" where
  "as_put p sz sp =
     (let l = word_of_nat (as_next sp);
          next' = as_next sp + (unat sz + 4) div 4 * 4
      in if as_end sp < next' then None
         else Some (\<lparr>ia_vvptr = l, ia_vptr = p, ia_size = sz\<rparr>,
                    sp\<lparr>as_blocks := as_blocks sp @ [(l, l + sz, p)], as_next := next'\<rparr>))"

datatype command = Malloc u64 | Add u64 u64 | Free u64 | ToHost u64 | FromHost u64 | Freeze | Reset

datatype answer = Alloc irx_alloc | Addr u64 | Done

fun as_step :: "safe_malloc \<Rightarrow> command \<Rightarrow> aspace \<Rightarrow> (answer \<times> aspace) option" where
  "as_step sm (Malloc sz) sp =
     (case sm sz (as_live sp) of
        None \<Rightarrow> None
      | Some p \<Rightarrow>
          map_option (\<lambda>(r, sp'). (Alloc r, sp'\<lparr>as_own := as_own sp @ [p], as_live := p # as_live sp\<rparr>))
            (as_put p sz sp))"
| "as_step sm (Add p sz) sp =
     (if p \<in> set (as_live sp) \<and> p \<notin> (snd \<circ> snd) ` set (as_blocks sp)
      then map_option (\<lambda>(r, sp'). (Alloc r, sp')) (as_put p sz sp) else None)"
| "as_step sm (Free v) sp =
     (case as_find v sp of
        None \<Rightarrow> None
      | Some b \<Rightarrow>
          Some (Done, sp\<lparr>as_blocks := remove1 b (as_blocks sp),
            as_live := (if snd (snd b) \<in> set (as_own sp) then remove1 (snd (snd b)) (as_live sp)
                        else as_live sp),
            as_own := removeAll (snd (snd b)) (as_own sp)\<rparr>))"
| "as_step sm (ToHost v) sp = Some (Addr (as_to_host v sp), sp)"
| "as_step sm (FromHost q) sp = Some (Addr (as_from_host q sp), sp)"
| "as_step sm Freeze sp = Some (Done, sp\<lparr>as_marks := as_next sp # as_marks sp\<rparr>)"
| "as_step sm Reset sp =
     (case as_marks sp of
        [] \<Rightarrow> None
      | m # ms \<Rightarrow>
          if \<forall>(l, h, p) \<in> set (as_blocks sp). unat h < m
          then Some (Done, sp\<lparr>as_next := m, as_marks := ms\<rparr>) else None)"

text \<open>The same commands on the allocator.\<close>

fun ma_step ::
    "(map_allocator \<Rightarrow> end_reads) \<Rightarrow> safe_malloc \<Rightarrow> command \<Rightarrow> map_allocator \<Rightarrow>
     (answer \<times> map_allocator) res" where
  "ma_step er sm (Malloc sz) a = rbind (ma_malloc er sm sz a) (\<lambda>(r, a'). Inr (Alloc r, a'))"
| "ma_step er sm (Add p sz) a = rbind (ma_add er p sz a) (\<lambda>(r, a'). Inr (Alloc r, a'))"
| "ma_step er sm (Free v) a = rbind (ma_free er v a) (\<lambda>a'. Inr (Done, a'))"
| "ma_step er sm (ToHost v) a = rbind (vvptr2vptr er a v) (\<lambda>p. Inr (Addr p, a))"
| "ma_step er sm (FromHost q) a = rbind (vptr2vvptr a q) (\<lambda>v. Inr (Addr v, a))"
| "ma_step er sm Freeze a = Inr (Done, ma_freeze a)"
| "ma_step er sm Reset a = rbind (ma_reset a) (\<lambda>a'. Inr (Done, a'))"

section \<open>The allocator implements it\<close>

definition ablock :: "blk \<Rightarrow> u64 \<times> u64 \<times> u64" where
  "ablock b = (b_lo b, b_hi b, b_vptr b)"

definition sim :: "map_allocator \<Rightarrow> aspace \<Rightarrow> bool" where
  "sim a sp \<longleftrightarrow>
     (\<exists>bs. ma_inv a bs \<and> as_blocks sp = map ablock bs) \<and>
     as_next sp = unat (lastAllocAddr (ma_vma a)) \<and> as_end sp = unat (endAddr (ma_vma a)) \<and>
     as_end sp < 2 ^ 62 \<and> as_marks sp = map unat (freezeStack (ma_vma a)) \<and>
     as_own sp = allocations a \<and> as_live sp = host_live a"

lemma simE:
  assumes "sim a sp"
  obtains bs where "ma_inv a bs" "as_blocks sp = map ablock bs"
    "as_next sp = unat (lastAllocAddr (ma_vma a))" "as_end sp = unat (endAddr (ma_vma a))"
    "as_end sp < 2 ^ 62" "as_marks sp = map unat (freezeStack (ma_vma a))"
    "as_own sp = allocations a" "as_live sp = host_live a"
  using assms by (auto simp: sim_def)

lemma find_map_ablock: "find Q (map ablock bs) = map_option ablock (find (Q \<circ> ablock) bs)"
  by (induction bs) simp_all

lemma as_find_sim:
  "as_blocks sp = map ablock bs \<Longrightarrow> as_find v sp = map_option ablock (lookup_blk bs v)"
proof -
  assume "as_blocks sp = map ablock bs"
  moreover have "(\<lambda>(l, h, p). l \<le> v \<and> v \<le> h) \<circ> ablock = covers v"
    by (simp add: fun_eq_iff ablock_def covers_def)
  ultimately show ?thesis by (simp add: as_find_def lookup_blk_def find_map_ablock)
qed

lemma sim_new: "distinct live \<Longrightarrow> sim (new_map_allocator live) (new_space live)"
  using new_map_allocator_inv [of live]
  by (auto simp: sim_def new_space_def new_map_allocator_def new_vma_def intro!: exI [of _ "[]"])

lemma as_put_Some:
  assumes "as_put p sz sp = Some (r, sp')" and "as_next sp = unat (lastAllocAddr (ma_vma a))"
    and "as_end sp = unat (endAddr (ma_vma a))" and "as_end sp < 2 ^ 62"
  shows "vma_fits sz (ma_vma a)" and "\<not> exhausted sz a"
    and "r = \<lparr>ia_vvptr = lastAllocAddr (ma_vma a), ia_vptr = p, ia_size = sz\<rparr>"
    and "sp' = sp\<lparr>as_blocks := as_blocks sp @ [ablock (new_blk p sz a)],
      as_next := as_next sp + (unat sz + 4) div 4 * 4\<rparr>"
proof -
  have le: "as_next sp + (unat sz + 4) div 4 * 4 \<le> as_end sp"
    using assms(1) by (auto simp: as_put_def Let_def split: if_splits)
  have "unat sz < (unat sz + 4) div 4 * 4" by presburger
  then have "unat sz < 2 ^ 62" using le assms(4) by linarith
  then show "vma_fits sz (ma_vma a)" using assms(3,4) by (simp add: vma_fits_def)
  show "\<not> exhausted sz a" using le assms(2,3) by (simp add: exhausted_def)
  show "r = \<lparr>ia_vvptr = lastAllocAddr (ma_vma a), ia_vptr = p, ia_size = sz\<rparr>"
    "sp' = sp\<lparr>as_blocks := as_blocks sp @ [ablock (new_blk p sz a)],
      as_next := as_next sp + (unat sz + 4) div 4 * 4\<rparr>"
    using assms(1,2) by (auto simp: as_put_def Let_def ablock_def new_blk_def split: if_splits)
qed

lemma vma_next_sim:
  assumes "vma_inv (ma_vma a)" and "vma_fits sz (ma_vma a)" and "\<not> exhausted sz a"
    and "vma_next sz (ma_vma a) = Inr (l, g')"
  shows "unat (lastAllocAddr g') = unat (lastAllocAddr (ma_vma a)) + (unat sz + 4) div 4 * 4"
    and "endAddr g' = endAddr (ma_vma a)" and "freezeStack g' = freezeStack (ma_vma a)"
  using vma_next_cases [OF assms(1,2)] assms(3,4)
  by (auto simp: exhausted_def elim: vma_next_InrE split: if_splits)

lemma ma_invD: "ma_inv a bs \<Longrightarrow> vma_inv (ma_vma a) \<and> blk_rel a bs \<and> vptrs_distinct bs"
  by (simp add: ma_inv_def ma_core_def)

lemma sim_malloc:
  assumes "sim a sp" and "end_reads_ok er" and "safe_malloc_ok sm"
    and "as_step sm (Malloc sz) sp = Some (x, sp')"
  shows "\<exists>a'. ma_step er sm (Malloc sz) a = Inr (x, a') \<and> sim a' sp'"
  using assms(1)
proof (rule simE)
  fix bs
  assume i: "ma_inv a bs" "as_blocks sp = map ablock bs"
    and n: "as_next sp = unat (lastAllocAddr (ma_vma a))" "as_end sp = unat (endAddr (ma_vma a))"
      "as_end sp < 2 ^ 62"
    and o: "as_marks sp = map unat (freezeStack (ma_vma a))" "as_own sp = allocations a"
      "as_live sp = host_live a"
  obtain p r sp1 where p: "sm sz (host_live a) = Some p" and put: "as_put p sz sp = Some (r, sp1)"
    and x: "x = Alloc r" "sp' = sp1\<lparr>as_own := as_own sp @ [p], as_live := p # as_live sp\<rparr>"
    using assms(4) o(3) by (auto split: option.splits)
  note q = as_put_Some [OF put n]
  from ma_malloc_inv [OF i(1) assms(2,3) p q(1,2)] obtain a' where
    m: "ma_malloc er sm sz a = Inr (\<lparr>ia_vvptr = lastAllocAddr (ma_vma a), ia_vptr = p, ia_size = sz\<rparr>, a')"
      "ma_inv a' (bs @ [new_blk p sz a])" "allocations a' = allocations a @ [p]"
      "host_live a' = p # host_live a"
      "vma_next sz (ma_vma a) = Inr (lastAllocAddr (ma_vma a), ma_vma a')" by blast
  have "vma_inv (ma_vma a)" using ma_invD [OF i(1)] by simp
  note v = vma_next_sim [OF this q(1,2) m(5)]
  have "sim a' sp'" unfolding sim_def
    using i(2) n o m(2-4) v by (auto simp: x q(4) intro!: exI [of _ "bs @ [new_blk p sz a]"])
  then show ?thesis using m(1) by (simp add: x q(3))
qed

lemma sim_add:
  assumes "sim a sp" and "end_reads_ok er" and "as_step sm (Add p sz) sp = Some (x, sp')"
  shows "\<exists>a'. ma_step er sm (Add p sz) a = Inr (x, a') \<and> sim a' sp'"
  using assms(1)
proof (rule simE)
  fix bs
  assume i: "ma_inv a bs" "as_blocks sp = map ablock bs"
    and n: "as_next sp = unat (lastAllocAddr (ma_vma a))" "as_end sp = unat (endAddr (ma_vma a))"
      "as_end sp < 2 ^ 62"
    and o: "as_marks sp = map unat (freezeStack (ma_vma a))" "as_own sp = allocations a"
      "as_live sp = host_live a"
  have p: "p \<in> set (host_live a)" "p \<notin> b_vptr ` set bs"
    using assms(3) i(2) o(3) by (auto simp: ablock_def image_image split: if_splits)
  obtain r where put: "as_put p sz sp = Some (r, sp')" and x: "x = Alloc r"
    using assms(3) by (auto split: if_splits)
  note q = as_put_Some [OF put n]
  have c: "ma_core a bs" using i(1) by (simp add: ma_inv_def)
  from ma_add_core [OF c assms(2) q(1,2) p] obtain a' where
    m: "ma_add er p sz a = Inr (\<lparr>ia_vvptr = lastAllocAddr (ma_vma a), ia_vptr = p, ia_size = sz\<rparr>, a')"
      "ma_core a' (bs @ [new_blk p sz a])" "allocations a' = allocations a"
      "host_live a' = host_live a"
      "vma_next sz (ma_vma a) = Inr (lastAllocAddr (ma_vma a), ma_vma a')" by blast
  have "ma_inv a' (bs @ [new_blk p sz a])" using m(2,3) i(1) by (auto simp: ma_inv_def)
  moreover have "vma_inv (ma_vma a)" using ma_invD [OF i(1)] by simp
  note v = vma_next_sim [OF this q(1,2) m(5)]
  ultimately have "sim a' sp'" unfolding sim_def
    using i(2) n o m(3,4) v by (auto simp: x q(4) intro!: exI [of _ "bs @ [new_blk p sz a]"])
  then show ?thesis using m(1) by (simp add: x q(3))
qed

lemma map_remove1_inj: "inj_on f (set (b # bs)) \<Longrightarrow> map f (remove1 b bs) = remove1 (f b) (map f bs)"
  by (induction bs) (auto simp: inj_on_def)

lemma sim_free:
  assumes "sim a sp" and "end_reads_ok er" and "as_step sm (Free v) sp = Some (x, sp')"
  shows "\<exists>a'. ma_step er sm (Free v) a = Inr (x, a') \<and> sim a' sp'"
  using assms(1)
proof (rule simE)
  fix bs
  assume i: "ma_inv a bs" "as_blocks sp = map ablock bs"
    and n: "as_next sp = unat (lastAllocAddr (ma_vma a))" "as_end sp = unat (endAddr (ma_vma a))"
      "as_end sp < 2 ^ 62"
    and o: "as_marks sp = map unat (freezeStack (ma_vma a))" "as_own sp = allocations a"
      "as_live sp = host_live a"
  obtain b where b: "lookup_blk bs v = Some b" and x: "x = Done"
    and sp': "sp' = sp\<lparr>as_blocks := remove1 (ablock b) (as_blocks sp),
            as_live := (if b_vptr b \<in> set (as_own sp) then remove1 (b_vptr b) (as_live sp)
                        else as_live sp),
            as_own := removeAll (b_vptr b) (as_own sp)\<rparr>"
    using assms(3) by (auto simp: as_find_sim [OF i(2)] ablock_def split: option.splits)
  from ma_free_inv [OF i(1) assms(2) b] obtain a' where
    m: "ma_free er v a = Inr a'" "ma_inv a' (remove1 b bs)" "ma_vma a' = ma_vma a"
      "allocations a' = removeAll (b_vptr b) (allocations a)"
      "host_live a' = (if b_vptr b \<in> set (allocations a) then remove1 (b_vptr b) (host_live a)
                    else host_live a)" by blast
  have "b \<in> set bs" using b by (auto simp: lookup_blk_def dest: find_Some_in)
  moreover have "inj_on b_vptr (set bs)"
    using ma_invD [OF i(1)] by (simp add: vptrs_distinct_def distinct_map)
  then have "inj_on ablock (set bs)" by (auto simp: inj_on_def ablock_def)
  ultimately have "map ablock (remove1 b bs) = remove1 (ablock b) (map ablock bs)"
    by (intro map_remove1_inj) (simp add: insert_absorb)
  then have "sim a' sp'" unfolding sim_def
    using i(2) n o m(2-5) by (auto simp: sp' intro!: exI [of _ "remove1 b bs"])
  then show ?thesis using m(1) by (simp add: x)
qed

lemma sim_to_host:
  assumes "sim a sp" and "end_reads_ok er"
  shows "vvptr2vptr er a v = Inr (as_to_host v sp)"
  using assms(1)
proof (rule simE)
  fix bs
  assume i: "ma_inv a bs" "as_blocks sp = map ablock bs"
  have r: "blk_rel a bs" using ma_invD [OF i(1)] by simp
  have g: "(\<exists>(l, h, p) \<in> set (as_blocks sp). l \<le> v) \<longleftrightarrow> (\<exists>b \<in> set bs. b_lo b \<le> v)"
    "(\<exists>(l, h, p) \<in> set (as_blocks sp). v \<le> h) \<longleftrightarrow> (\<exists>b \<in> set bs. v \<le> b_hi b)"
    by (auto simp: i(2) ablock_def)
  show ?thesis
  proof (cases "lookup_blk bs v")
    case None
    then show ?thesis unfolding as_to_host_def g as_find_sim [OF i(2)] vvptr2vptr_def irx_has_iff [OF r]
      irx_vvptr2vptr_eq [OF r assms(2)] by simp
  next
    case (Some b)
    then have "b \<in> set bs" "covers v b" by (auto simp: lookup_blk_def dest: find_Some_in)
    then have "irx_has a v" by (auto simp: irx_has_iff [OF r] covers_def)
    with Some show ?thesis
      by (simp add: as_to_host_def as_find_sim [OF i(2)] vvptr2vptr_def
          irx_vvptr2vptr_eq [OF r assms(2)] host_addr_def ablock_def)
  qed
qed

lemma sim_from_host:
  assumes "sim a sp"
  shows "vptr2vvptr a q = Inr (as_from_host q sp)"
  using assms
proof (rule simE)
  fix bs
  assume i: "ma_inv a bs" "as_blocks sp = map ablock bs"
  have r: "blk_rel a bs" using ma_invD [OF i(1)] by simp
  have "(\<lambda>(l, h, p). p = q) \<circ> ablock = (\<lambda>b. b_vptr b = q)" by (simp add: fun_eq_iff ablock_def)
  then show ?thesis
    by (simp add: as_from_host_def i(2) find_map_ablock vptr2vvptr_eq [OF r] ablock_def split: option.split)
qed

lemma sim_reset:
  assumes "sim a sp" and "as_step sm Reset sp = Some (x, sp')"
  shows "\<exists>a'. ma_step er sm Reset a = Inr (x, a') \<and> sim a' sp'"
  using assms(1)
proof (rule simE)
  fix bs
  assume i: "ma_inv a bs" "as_blocks sp = map ablock bs"
    and n: "as_next sp = unat (lastAllocAddr (ma_vma a))" "as_end sp = unat (endAddr (ma_vma a))"
      "as_end sp < 2 ^ 62"
    and o: "as_marks sp = map unat (freezeStack (ma_vma a))" "as_own sp = allocations a"
      "as_live sp = host_live a"
  obtain m ms where mk: "freezeStack (ma_vma a) = m # ms" and x: "x = Done"
    and lt: "\<forall>b \<in> set bs. unat (b_hi b) < unat m"
    and sp': "sp' = sp\<lparr>as_next := unat m, as_marks := map unat ms\<rparr>"
    using assms(2) o(1) i(2) by (auto simp: ablock_def split: list.splits if_splits)
  let ?g = "(ma_vma a)\<lparr>lastAllocAddr := m, freezeStack := ms\<rparr>"
  have g: "vma_reset (ma_vma a) = Inr ?g" by (simp add: vma_reset_def mk)
  have "vma_inv ?g" using vma_reset_inv [OF _ g] ma_invD [OF i(1)] by simp
  then have "ma_inv (a\<lparr>ma_vma := ?g\<rparr>) bs"
    using i(1) lt by (auto simp: ma_inv_def ma_core_def blk_rel_more u64_cmp_nat)
  then have "sim (a\<lparr>ma_vma := ?g\<rparr>) sp'" unfolding sim_def
    using i(2) n o by (auto simp: sp' intro!: exI [of _ bs])
  then show ?thesis by (simp add: ma_reset_def g x)
qed

lemma sim_step:
  assumes "sim a sp" and "end_reads_ok er" and "safe_malloc_ok sm" and "as_step sm c sp = Some (x, sp')"
  shows "\<exists>a'. ma_step er sm c a = Inr (x, a') \<and> sim a' sp'"
proof (cases c)
  case Freeze
  have "sim (ma_freeze a) (sp\<lparr>as_marks := as_next sp # as_marks sp\<rparr>)"
    using assms(1)
  proof (rule simE)
    fix bs
    assume i: "ma_inv a bs" "as_blocks sp = map ablock bs"
      and n: "as_next sp = unat (lastAllocAddr (ma_vma a))" "as_end sp = unat (endAddr (ma_vma a))"
        "as_end sp < 2 ^ 62" "as_marks sp = map unat (freezeStack (ma_vma a))" "as_own sp = allocations a"
        "as_live sp = host_live a"
    show ?thesis unfolding sim_def using ma_freeze_inv [OF i(1)] i(2) n
      by (auto simp: ma_freeze_def vma_freeze_def intro!: exI [of _ bs])
  qed
  then show ?thesis using assms(4) Freeze by auto
next
  case (ToHost v)
  then show ?thesis using assms(1,4) sim_to_host [OF assms(1,2), of v] by auto
next
  case (FromHost q)
  then show ?thesis using assms(1,4) sim_from_host [OF assms(1), of q] by auto
next
  case (Malloc sz)
  then show ?thesis using sim_malloc [OF assms(1-3)] assms(4) by simp
next
  case (Add p sz)
  then show ?thesis using sim_add [OF assms(1,2)] assms(4) by simp
next
  case (Free v)
  then show ?thesis using sim_free [OF assms(1,2)] assms(4) by blast
next
  case Reset
  then show ?thesis using sim_reset [OF assms(1)] assms(4) by blast
qed

interpretation alloc: refinement "\<lambda>a sp. sim a sp \<and> end_reads_ok er \<and> safe_malloc_ok sm"
  "as_step sm" "ma_step er sm" for er :: "map_allocator \<Rightarrow> end_reads" and sm :: safe_malloc
  by unfold_locales (use sim_step in blast)

text \<open>
  C14. \<open>MapAllocator\<close> implements the abstract address space. Whatever sequence of allocations,
  additions, frees, translations in both directions, freezes and resets the abstract space allows,
  starting from related states (a new allocator is related to the empty space), the allocator runs
  it without an exit, a failed assertion or undefined behaviour, gives exactly the answers of the
  abstract space, and ends in a state related to the abstract one: same blocks, same frontier and
  marks, same memory to free.
\<close>

theorem map_allocator_refines:
  assumes "end_reads_ok er" and "safe_malloc_ok sm" and "sim a sp"
    and "spec_run (as_step sm) cs sp = Some (xs, sp')"
  shows "(\<exists>a'. code_run (ma_step er sm) cs a = Inr (xs, a') \<and> sim a' sp') \<and>
    (\<forall>live. distinct live \<longrightarrow> sim (new_map_allocator live) (new_space live))"
  using alloc.run [of a sp er sm cs xs sp'] assms sim_new by blast

text \<open>Two blocks, translations inside, at the end of and between them, a free and a reset.\<close>

theorem map_allocator_refines_witness:
  "\<exists>a'. code_run (ma_step junk_reads three_addrs)
       [Freeze, Malloc 5, Malloc 16, ToHost 0x50000012, FromHost 0x8000, Free 0x50000000,
        ToHost 0x50000002, Free 0x50000018, Reset, Malloc 1] (new_map_allocator []) =
     Inr ([Done, Alloc \<lparr>ia_vvptr = 0x50000000, ia_vptr = 0x7000, ia_size = 5\<rparr>,
           Alloc \<lparr>ia_vvptr = 0x50000008, ia_vptr = 0x8000, ia_size = 16\<rparr>, Addr 0x800A, Addr 0x50000008,
           Done, Addr 0x50000002, Done, Done,
           Alloc \<lparr>ia_vvptr = 0x50000000, ia_vptr = 0x7000, ia_size = 1\<rparr>], a')"
proof -
  let ?cs = "[Freeze, Malloc 5, Malloc 16, ToHost 0x50000012, FromHost 0x8000, Free 0x50000000,
        ToHost 0x50000002, Free 0x50000018, Reset, Malloc 1]"
  let ?xs = "[Done, Alloc \<lparr>ia_vvptr = 0x50000000, ia_vptr = 0x7000, ia_size = 5\<rparr>,
           Alloc \<lparr>ia_vvptr = 0x50000008, ia_vptr = 0x8000, ia_size = 16\<rparr>, Addr 0x800A, Addr 0x50000008,
           Done, Addr 0x50000002, Done, Done,
           Alloc \<lparr>ia_vvptr = 0x50000000, ia_vptr = 0x7000, ia_size = 1\<rparr>]"
  have "map_option fst (spec_run (as_step three_addrs) ?cs (new_space [])) = Some ?xs"
    by (simp add: new_space_def as_put_def three_addrs_def as_find_def as_to_host_def as_from_host_def Let_def)
  then obtain sp' where "spec_run (as_step three_addrs) ?cs (new_space []) = Some (?xs, sp')"
    by (cases "spec_run (as_step three_addrs) ?cs (new_space [])") (auto simp del: spec_run.simps)
  from map_allocator_refines [OF junk_reads_ok three_addrs_ok sim_new this] show ?thesis by auto
qed

end
