(* ===== verification/DebugInfo.thy ===== *)
theory DebugInfo
  imports Prelude
begin

text \<open>
  The search in a module's debug information (\<open>libirx/irinterpreter2-debug.cc\<close>): finding the
  node of a structure, and turning a path of member names into the indices of a
  \<open>getelementptr\<close>.

  LLVM's metadata is a graph of nodes with an identity, which may be cyclic, so a model of it is
  a map from identities to nodes and a null pointer is \<open>None\<close>. Recursive searches take fuel; the
  facts below show how much is enough.
\<close>

section \<open>The metadata graph\<close>

datatype di_tag = TagStructure | TagUnion | TagArray | TagPointer | TagTypedef | TagMember | TagOther

text \<open>
  \<open>DIBasicType\<close> (name, size in bits), \<open>DIDerivedType\<close> (tag, name, base type, size),
  \<open>DICompositeType\<close> (tag, name, base type, elements, size), and the nodes that are no
  \<open>DIType\<close>, such as the subrange of an array.
\<close>

datatype di_node =
    DIBasic string nat
  | DIDerived di_tag string "nat option" nat
  | DIComposite di_tag string "nat option" "nat list" nat
  | DINoType

type_synonym di_graph = "nat \<Rightarrow> di_node"

fun getTag :: "di_node \<Rightarrow> di_tag" where
  "getTag (DIDerived t n b s) = t"
| "getTag (DIComposite t n b es s) = t"
| "getTag _ = TagOther"

fun getName :: "di_node \<Rightarrow> string" where
  "getName (DIBasic n s) = n"
| "getName (DIDerived t n b s) = n"
| "getName (DIComposite t n b es s) = n"
| "getName DINoType = []"

fun getBaseType :: "di_node \<Rightarrow> nat option" where
  "getBaseType (DIDerived t n b s) = b"
| "getBaseType (DIComposite t n b es s) = b"
| "getBaseType _ = None"

fun getElements :: "di_node \<Rightarrow> nat list" where
  "getElements (DIComposite t n b es s) = es"
| "getElements _ = []"

fun getSizeInBits :: "di_node \<Rightarrow> nat" where
  "getSizeInBits (DIBasic n s) = s"
| "getSizeInBits (DIDerived t n b s) = s"
| "getSizeInBits (DIComposite t n b es s) = s"
| "getSizeInBits DINoType = 0"

fun isBasic :: "di_node \<Rightarrow> bool" where
  "isBasic (DIBasic n s) = True"
| "isBasic _ = False"

fun isDerived :: "di_node \<Rightarrow> bool" where
  "isDerived (DIDerived t n b s) = True"
| "isDerived _ = False"

fun isComposite :: "di_node \<Rightarrow> bool" where
  "isComposite (DIComposite t n b es s) = True"
| "isComposite _ = False"

section \<open>Finding a structure\<close>

type_synonym di_cache = "string \<Rightarrow> nat option option"

text \<open>
  \<open>types\<close> is what \<open>DIF.types()\<close> iterates over. The first argument is the cache the pointer
  \<open>DICache\<close> refers to, \<open>None\<close> when it is null.
\<close>

fun find_type :: "di_graph \<Rightarrow> nat list \<Rightarrow> string \<Rightarrow> nat option" where
  "find_type g [] name = None"
| "find_type g (d # ds) name =
     (if getName (g d) = name \<and> getTag (g d) = TagStructure \<and> isComposite (g d) then Some d
      else find_type g ds name)"

definition findStructDebugInfo ::
    "di_graph \<Rightarrow> nat list \<Rightarrow> string \<Rightarrow> di_cache option \<Rightarrow> (nat option \<times> di_cache option) res" where
  "findStructDebugInfo g types name DICache =
     (case Option.bind DICache (\<lambda>c. c name) of
        Some r \<Rightarrow> Inr (r, DICache)
      | None \<Rightarrow>
          (case find_type g types name of
             Some d \<Rightarrow>
               (case DICache of
                  None \<Rightarrow> Inl NullDeref
                | Some c \<Rightarrow> Inr (Some d, Some (c(name \<mapsto> Some d))))
           | None \<Rightarrow> Inr (None, map_option (\<lambda>c. c(name \<mapsto> None)) DICache)))"

definition getStructDebugInfoFields :: "di_graph \<Rightarrow> nat list \<Rightarrow> string \<Rightarrow> nat list res" where
  "getStructDebugInfoFields g types name =
     rbind (findStructDebugInfo g types name None) (\<lambda>(CTy, c).
       case CTy of
         None \<Rightarrow> Inr []
       | Some d \<Rightarrow> Inr (filter (\<lambda>e. isDerived (g e)) (getElements (g d))))"

definition getStructDebugInfoField ::
    "di_graph \<Rightarrow> nat list \<Rightarrow> string \<Rightarrow> string \<Rightarrow> nat option res" where
  "getStructDebugInfoField g types name field =
     rbind (getStructDebugInfoFields g types name) (\<lambda>elements.
       Inr (find (\<lambda>d. getName (g d) = field) elements))"

section \<open>Resolving types\<close>

fun strip_typedefs :: "nat \<Rightarrow> di_graph \<Rightarrow> nat option \<Rightarrow> nat option res" where
  "strip_typedefs 0 g d = Inl OutOfFuel"
| "strip_typedefs (Suc n) g None = Inl NullDeref"
| "strip_typedefs (Suc n) g (Some d) =
     (if getTag (g d) = TagTypedef
      then strip_typedefs n g (if isDerived (g d) then getBaseType (g d) else Some d)
      else Inr (Some d))"

definition resolveDerivedTypeBaseType :: "nat \<Rightarrow> di_graph \<Rightarrow> nat option \<Rightarrow> nat option res" where
  "resolveDerivedTypeBaseType n g d =
     (case d of
        None \<Rightarrow> Inr None
      | Some d' \<Rightarrow> strip_typedefs n g (if isDerived (g d') then getBaseType (g d') else d))"

fun toBasicType :: "nat \<Rightarrow> di_graph \<Rightarrow> nat option \<Rightarrow> nat option res" where
  "toBasicType n g None = Inr None"
| "toBasicType 0 g (Some d) = Inl OutOfFuel"
| "toBasicType (Suc n) g (Some d) =
     (if getTag (g d) \<in> {TagStructure, TagUnion, TagPointer} then Inr None
      else
        (case (if isDerived (g d) then getBaseType (g d) else Some d) of
           None \<Rightarrow> Inr None
         | Some e \<Rightarrow>
             if isBasic (g e) then Inr (Some e)
             else if getTag (g e) = TagArray
             then toBasicType n g (if isComposite (g e) then getBaseType (g e) else Some e)
             else toBasicType n g (if isDerived (g e) then Some e else None)))"

definition DIType2StringType :: "nat \<Rightarrow> di_graph \<Rightarrow> nat option \<Rightarrow> string res" where
  "DIType2StringType n g DITy =
     (case DITy of
        None \<Rightarrow> Inr ''unknown''
      | Some d \<Rightarrow>
          if getTag (g d) = TagPointer then Inr ''PTR''
          else rbind (toBasicType n g (Some d)) (\<lambda>b.
            case b of
              None \<Rightarrow> Inr ''unknown''
            | Some e \<Rightarrow> Inr (getName (g e))))"

definition getDIFieldSize :: "di_graph \<Rightarrow> nat option \<Rightarrow> nat res" where
  "getDIFieldSize g DITy =
     (case DITy of
        None \<Rightarrow> Inl NullDeref
      | Some d \<Rightarrow>
          if isBasic (g d) \<or> isDerived (g d)
          then rbind (rassert (getSizeInBits (g d) mod 8 = 0) AssertFail) (\<lambda>u.
                 Inr (getSizeInBits (g d)))
          else Inl AssertFail)"

section \<open>From member names to indices\<close>

text \<open>\<open>std::stoi\<close>: leading white space, a sign, and at least one digit; what follows is ignored.\<close>

definition is_digit :: "char \<Rightarrow> bool" where
  "is_digit c \<longleftrightarrow> c \<in> set ''0123456789''"

definition is_space :: "char \<Rightarrow> bool" where
  "is_space c \<longleftrightarrow> c \<in> set [CHR '' '', CHR 0x09, CHR 0x0A, CHR 0x0B, CHR 0x0C, CHR 0x0D]"

definition digit_value :: "char \<Rightarrow> int" where
  "digit_value c = int (of_char c) - 48"

fun digits_value :: "int \<Rightarrow> string \<Rightarrow> int" where
  "digits_value acc [] = acc"
| "digits_value acc (c # cs) = digits_value (10 * acc + digit_value c) cs"

definition stoi :: "string \<Rightarrow> int res" where
  "stoi s =
     (let s1 = dropWhile is_space s;
          neg = (case s1 of [] \<Rightarrow> False | c # cs \<Rightarrow> c = CHR ''-'');
          s2 = (case s1 of [] \<Rightarrow> [] | c # cs \<Rightarrow> if c = CHR ''-'' \<or> c = CHR ''+'' then cs else s1);
          ds = takeWhile is_digit s2;
          v = (if neg then - digits_value 0 ds else digits_value 0 ds)
      in if ds = [] then Inl (Throw ''invalid_argument'')
         else if v < - (2 ^ 31) \<or> 2 ^ 31 \<le> v then Inl (Throw ''out_of_range'')
         else Inr v)"

type_synonym di_typed_index = "nat \<times> nat option"

text \<open>
  \<open>member_scan\<close> is the loop over the elements of a structure or a union, with the running
  \<open>index\<close>. A null \<open>CTy\<close> is dereferenced by \<open>getTag\<close>, and the base type of an unnamed element
  by \<open>dyn_cast\<close>.
\<close>

fun GEP2MemberInfo :: "nat \<Rightarrow> di_graph \<Rightarrow> nat option \<Rightarrow> string \<Rightarrow> di_typed_index list res"
and member_scan ::
  "nat \<Rightarrow> di_graph \<Rightarrow> bool \<Rightarrow> nat list \<Rightarrow> nat \<Rightarrow> string \<Rightarrow> di_typed_index list res" where
  "GEP2MemberInfo 0 g CTy member = Inl OutOfFuel"
| "GEP2MemberInfo (Suc n) g None member = Inl NullDeref"
| "GEP2MemberInfo (Suc n) g (Some c) member =
     (if getTag (g c) = TagArray
      then rbind (stoi member) (\<lambda>idx.
             Inr (if idx \<ge> 0 then [(nat idx, getBaseType (g c))] else []))
      else member_scan n g (getTag (g c) = TagUnion) (getElements (g c)) 0 member)"
| "member_scan n g is_union [] index member = Inr []"
| "member_scan n g is_union (e # es) index member =
     (let next_index = (if is_union then index else index + 1)
      in if isDerived (g e)
         then if getName (g e) = []
              then (case getBaseType (g e) of
                      None \<Rightarrow> Inl NullDeref
                    | Some b \<Rightarrow>
                        if isComposite (g b)
                        then rbind (GEP2MemberInfo n g (Some b) member) (\<lambda>sub.
                               if sub \<noteq> [] then Inr ((index, Some b) # sub)
                               else member_scan n g is_union es next_index member)
                        else member_scan n g is_union es next_index member)
              else if getName (g e) = member then Inr [(index, Some e)]
              else member_scan n g is_union es next_index member
         else member_scan n g is_union es next_index member)"

definition GEP2Member :: "nat \<Rightarrow> di_graph \<Rightarrow> nat option \<Rightarrow> string \<Rightarrow> nat list res" where
  "GEP2Member n g CTy member = rbind (GEP2MemberInfo n g CTy member) (\<lambda>is. Inr (map fst is))"

definition as_composite :: "di_graph \<Rightarrow> nat option \<Rightarrow> nat option res" where
  "as_composite g d =
     (case d of
        None \<Rightarrow> Inl NullDeref
      | Some c \<Rightarrow> Inr (if isComposite (g c) then Some c else None))"

fun GEP_steps ::
    "nat \<Rightarrow> di_graph \<Rightarrow> nat option \<Rightarrow> string list \<Rightarrow> di_typed_index list \<Rightarrow> di_typed_index list res" where
  "GEP_steps n g CTy [] indices = Inr indices"
| "GEP_steps n g None (member # needle) indices = Inr []"
| "GEP_steps n g (Some c) (member # needle) indices =
     rbind (GEP2MemberInfo n g (Some c) member) (\<lambda>sub.
       if sub = [] then Inr []
       else rbind (resolveDerivedTypeBaseType n g (snd (last sub))) (\<lambda>DIBTy.
            rbind (as_composite g DIBTy) (\<lambda>CTy'.
              GEP_steps n g CTy' needle (indices @ sub))))"

definition GEP :: "nat \<Rightarrow> di_graph \<Rightarrow> nat option \<Rightarrow> string list \<Rightarrow> di_typed_index list res" where
  "GEP n g CTy needle = GEP_steps n g CTy needle [(0, CTy)]"

definition irm_GEP2Member ::
    "nat \<Rightarrow> di_graph \<Rightarrow> nat list \<Rightarrow> string \<Rightarrow> string \<Rightarrow> di_cache \<Rightarrow> (nat list \<times> di_cache option) res" where
  "irm_GEP2Member n g types name member DICache =
     rbind (findStructDebugInfo g types name (Some DICache)) (\<lambda>(CTy, c).
     rbind (GEP2Member n g CTy member) (\<lambda>is. Inr (is, c)))"

definition irm_GEP ::
    "nat \<Rightarrow> di_graph \<Rightarrow> nat list \<Rightarrow> string \<Rightarrow> string list \<Rightarrow> di_cache \<Rightarrow> (nat list \<times> di_cache option) res" where
  "irm_GEP n g types name needle DICache =
     rbind (findStructDebugInfo g types name (Some DICache)) (\<lambda>(CTy, c).
     rbind (GEP n g CTy needle) (\<lambda>gepInfo. Inr (map fst gepInfo, c)))"


section \<open>The structure cache\<close>

definition cache_ok :: "di_graph \<Rightarrow> nat list \<Rightarrow> di_cache \<Rightarrow> bool" where
  "cache_ok g types c \<longleftrightarrow> (\<forall>name r. c name = Some r \<longrightarrow> r = find_type g types name)"

lemma cache_okD: "cache_ok g types c \<Longrightarrow> c name = Some r \<Longrightarrow> r = find_type g types name"
  by (simp add: cache_ok_def)

lemma find_type_Some: "find_type g types name = Some d \<Longrightarrow>
    d \<in> set types \<and> getName (g d) = name \<and> getTag (g d) = TagStructure \<and> isComposite (g d)"
  by (induction types) (auto split: if_splits)

lemma find_type_None: "find_type g types name = None \<longleftrightarrow>
    (\<forall>d \<in> set types. \<not> (getName (g d) = name \<and> getTag (g d) = TagStructure \<and> isComposite (g d)))"
  by (induction types) auto

lemma find_cached:
  assumes "cache_ok g types c"
  shows "\<exists>c'. findStructDebugInfo g types name (Some c) = Inr (find_type g types name, Some c') \<and>
    cache_ok g types c' \<and> c' name = Some (find_type g types name) \<and> c \<subseteq>\<^sub>m c'"
proof (cases "c name")
  case (Some r)
  then show ?thesis using assms cache_okD [OF assms Some] by (simp add: findStructDebugInfo_def)
next
  case None
  then have "c \<subseteq>\<^sub>m c(name \<mapsto> r)" for r by (auto simp: map_le_def)
  moreover have "cache_ok g types (c(name \<mapsto> find_type g types name))"
    using assms by (simp add: cache_ok_def)
  ultimately show ?thesis using None
    by (auto simp: findStructDebugInfo_def split: option.split)
qed

text \<open>
  C34. The structure cache. With a cache whose entries are right, \<open>findStructDebugInfo\<close> always
  returns, finds what a search of the module's types finds, and leaves the cache with right
  entries, one of them for the name just asked for; an entry once made is never changed. Without
  a cache, as \<open>getStructDebugInfoFields\<close> calls it, a structure that does exist makes it write
  through the null pointer, so \<open>structInfo\<close> can only ever return an empty list of fields.
\<close>

theorem struct_cache_correct:
  assumes "cache_ok g types c"
  shows "(\<exists>c'. findStructDebugInfo g types name (Some c) = Inr (find_type g types name, Some c') \<and>
      cache_ok g types c' \<and> c' name = Some (find_type g types name) \<and> c \<subseteq>\<^sub>m c') \<and>
    findStructDebugInfo g types name None =
      (if find_type g types name = None then Inr (None, None) else Inl NullDeref) \<and>
    getStructDebugInfoFields g types name =
      (if find_type g types name = None then Inr [] else Inl NullDeref)"
  using find_cached [OF assms, of name]
  by (simp add: getStructDebugInfoFields_def findStructDebugInfo_def split: option.split)

section \<open>Enough fuel\<close>

text \<open>
  Debug information may be cyclic, but only through pointers: a structure does not contain itself
  and a typedef does not name itself. \<open>di_ok\<close> says so with a rank, and that the code's
  assumptions on the nodes hold: typedefs and elements with or without a name have a base type,
  and no element without a name is an array.
\<close>

definition di_ok :: "di_graph \<Rightarrow> (nat \<Rightarrow> nat) \<Rightarrow> bool" where
  "di_ok g rk \<longleftrightarrow>
     (\<forall>d. getTag (g d) = TagTypedef \<longrightarrow>
        isDerived (g d) \<and> (\<exists>b. getBaseType (g d) = Some b \<and> rk b < rk d)) \<and>
     (\<forall>c. \<forall>e \<in> set (getElements (g c)). isDerived (g e) \<longrightarrow>
        (\<exists>b. getBaseType (g e) = Some b \<and>
          (getName (g e) = [] \<and> isComposite (g b) \<longrightarrow> getTag (g b) \<noteq> TagArray \<and> rk b < rk c)))"

lemma di_ok_typedef:
  "di_ok g rk \<Longrightarrow> getTag (g d) = TagTypedef \<Longrightarrow>
   isDerived (g d) \<and> (\<exists>b. getBaseType (g d) = Some b \<and> rk b < rk d)"
  unfolding di_ok_def by blast

lemma di_ok_element:
  "di_ok g rk \<Longrightarrow> e \<in> set (getElements (g c)) \<Longrightarrow> isDerived (g e) \<Longrightarrow>
   \<exists>b. getBaseType (g e) = Some b \<and>
     (getName (g e) = [] \<and> isComposite (g b) \<longrightarrow> getTag (g b) \<noteq> TagArray \<and> rk b < rk c)"
  unfolding di_ok_def by blast

lemma strip_typedefs_total:
  assumes "di_ok g rk" and "rk d < n"
  shows "\<exists>d'. strip_typedefs n g (Some d) = Inr (Some d') \<and> getTag (g d') \<noteq> TagTypedef"
  using assms(2)
proof (induction n arbitrary: d)
  case 0
  then show ?case by simp
next
  case (Suc n)
  show ?case
  proof (cases "getTag (g d) = TagTypedef")
    case True
    with di_ok_typedef [OF assms(1)] obtain b where
      b: "isDerived (g d)" "getBaseType (g d) = Some b" "rk b < rk d" by blast
    with Suc.prems have "rk b < n" by simp
    from Suc.IH [OF this] b True show ?thesis by simp
  qed simp
qed

section \<open>Which members a name can mean\<close>

text \<open>
  The members of a structure or union, with the members of its elements without a name, as C
  defines them. A union has only the element 0 for the code. The indices are those of the
  elements on the way; the node is the unnamed type on the way and the member at its end.
\<close>

definition element_index :: "di_node \<Rightarrow> nat \<Rightarrow> nat" where
  "element_index c k = (if getTag c = TagUnion then 0 else k)"

inductive member_at :: "di_graph \<Rightarrow> nat \<Rightarrow> string \<Rightarrow> di_typed_index list \<Rightarrow> bool" for g where
  named: "k < length (getElements (g c)) \<Longrightarrow> e = getElements (g c) ! k \<Longrightarrow> isDerived (g e) \<Longrightarrow>
    getName (g e) = m \<Longrightarrow> m \<noteq> [] \<Longrightarrow> member_at g c m [(element_index (g c) k, Some e)]"
| nested: "k < length (getElements (g c)) \<Longrightarrow> e = getElements (g c) ! k \<Longrightarrow> isDerived (g e) \<Longrightarrow>
    getName (g e) = [] \<Longrightarrow> getBaseType (g e) = Some b \<Longrightarrow> isComposite (g b) \<Longrightarrow>
    member_at g b m is \<Longrightarrow> member_at g c m ((element_index (g c) k, Some b) # is)"

inductive_cases member_atE: "member_at g c m is"

text \<open>The members a name can mean through the \<open>k\<close>-th element.\<close>

definition elem_member :: "di_graph \<Rightarrow> nat \<Rightarrow> string \<Rightarrow> nat \<Rightarrow> di_typed_index list \<Rightarrow> bool" where
  "elem_member g c m k is \<longleftrightarrow> k < length (getElements (g c)) \<and>
     (let e = getElements (g c) ! k in
      isDerived (g e) \<and>
      (getName (g e) = m \<and> m \<noteq> [] \<and> is = [(element_index (g c) k, Some e)] \<or>
       getName (g e) = [] \<and> (\<exists>b sub. getBaseType (g e) = Some b \<and> isComposite (g b) \<and>
         member_at g b m sub \<and> is = (element_index (g c) k, Some b) # sub)))"

lemma elem_member_at: "(\<exists>k. elem_member g c m k is) \<longleftrightarrow> member_at g c m is"
proof
  assume "\<exists>k. elem_member g c m k is"
  then show "member_at g c m is"
    by (auto simp: elem_member_def Let_def intro: member_at.intros)
next
  assume "member_at g c m is"
  then show "\<exists>k. elem_member g c m k is"
    by (rule member_atE) (auto simp: elem_member_def Let_def)
qed

lemma member_at_nonempty: "member_at g c m is \<Longrightarrow> is \<noteq> []"
  by (erule member_atE) auto

text \<open>A search result: one of the wanted lists, or the empty list when there is none.\<close>

definition finds :: "di_typed_index list res \<Rightarrow> (di_typed_index list \<Rightarrow> bool) \<Rightarrow> bool" where
  "finds r P \<longleftrightarrow> (\<exists>is. r = Inr is \<and> (if \<exists>js. P js then is \<noteq> [] \<and> P is else is = []))"

lemma finds_skip: "finds r Q \<Longrightarrow> (\<And>is. \<not> P is) \<Longrightarrow> finds r (\<lambda>is. P is \<or> Q is)"
  by (simp add: finds_def)

lemma finds_here: "P is \<Longrightarrow> is \<noteq> [] \<Longrightarrow> finds (Inr is) (\<lambda>is. P is \<or> Q is)"
  by (auto simp: finds_def)

lemma from_here: "(\<exists>j \<ge> (k::nat). P j) \<longleftrightarrow> P k \<or> (\<exists>j \<ge> Suc k. P j)"
  by (metis Suc_leD Suc_leI le_eq_less_or_eq order_refl)

text \<open>An anonymous structure or union is searched in its own right.\<close>

lemma anonymous_member:
  assumes "isDerived (g e)" and "getName (g e) = []" and "getBaseType (g e) = Some b"
    and "k < length (getElements (g c))" and "getElements (g c) ! k = e" and "isComposite (g b)"
    and "finds (GEP2MemberInfo n g (Some b) m) (member_at g b m)"
  obtains "is" where "GEP2MemberInfo n g (Some b) m = Inr is"
    and "is = [] \<Longrightarrow> \<forall>js. \<not> elem_member g c m k js"
    and "is \<noteq> [] \<Longrightarrow> elem_member g c m k ((element_index (g c) k, Some b) # is)"
proof -
  obtain sub where sub: "GEP2MemberInfo n g (Some b) m = Inr sub"
    "if \<exists>js. member_at g b m js then sub \<noteq> [] \<and> member_at g b m sub else sub = []"
    using assms(7) unfolding finds_def by blast
  show ?thesis
  proof (rule that [OF sub(1)])
    assume "sub = []"
    with sub(2) have "\<not> member_at g b m js" for js by (auto split: if_splits)
    with assms show "\<forall>js. \<not> elem_member g c m k js" by (auto simp: elem_member_def Let_def)
  next
    assume "sub \<noteq> []"
    with sub(2) have "member_at g b m sub" by (auto split: if_splits)
    with assms show "elem_member g c m k ((element_index (g c) k, Some b) # sub)"
      by (simp add: elem_member_def Let_def)
  qed
qed

lemma scan_element:
  assumes "di_ok g rk"
    and rec: "\<And>b. isComposite (g b) \<Longrightarrow> getTag (g b) \<noteq> TagArray \<Longrightarrow> rk b < rk c \<Longrightarrow>
      finds (GEP2MemberInfo n g (Some b) m) (member_at g b m)"
    and k: "k < length (getElements (g c))" and e: "getElements (g c) ! k = e"
    and rest: "finds (member_scan n g (getTag (g c) = TagUnion) es (element_index (g c) (Suc k)) m)
      (\<lambda>is. \<exists>j \<ge> Suc k. elem_member g c m j is)"
  shows "finds (member_scan n g (getTag (g c) = TagUnion) (e # es) (element_index (g c) k) m)
    (\<lambda>is. \<exists>j \<ge> k. elem_member g c m j is)"
proof -
  have nx: "(if getTag (g c) = TagUnion then element_index (g c) k else element_index (g c) k + 1) =
      element_index (g c) (Suc k)"
    by (simp add: element_index_def)
  have here: "finds (Inr is) (\<lambda>is. \<exists>j \<ge> k. elem_member g c m j is)"
    if "elem_member g c m k is" "is \<noteq> []" for "is"
    using finds_here [of "elem_member g c m k", OF that] by (simp add: from_here [of k])
  have skip: "finds (member_scan n g (getTag (g c) = TagUnion) es (element_index (g c) (Suc k)) m)
      (\<lambda>is. \<exists>j \<ge> k. elem_member g c m j is)" if "\<And>is. \<not> elem_member g c m k is"
    using finds_skip [of _ _ "elem_member g c m k", OF rest that] by (simp add: from_here [of k])
  consider "\<not> isDerived (g e) \<or> getName (g e) \<noteq> [] \<and> getName (g e) \<noteq> m"
    | "isDerived (g e)" "getName (g e) \<noteq> []" "getName (g e) = m"
    | "isDerived (g e)" "getName (g e) = []" by blast
  then show ?thesis
  proof cases
    case 1
    then have "\<not> elem_member g c m k is" for "is" using k e by (auto simp: elem_member_def Let_def)
    from skip [OF this] 1 nx show ?thesis by (auto simp: Let_def)
  next
    case 2
    then have "elem_member g c m k [(element_index (g c) k, Some e)]"
      using k e by (simp add: elem_member_def Let_def)
    from here [OF this] 2 show ?thesis by simp
  next
    case 3
    have "e \<in> set (getElements (g c))" using e k by (metis nth_mem)
    with 3 di_ok_element [OF assms(1)] obtain b where b: "getBaseType (g e) = Some b"
      "isComposite (g b) \<Longrightarrow> getTag (g b) \<noteq> TagArray \<and> rk b < rk c" by blast
    show ?thesis
    proof (cases "isComposite (g b)")
      case True
      obtain sub where sub: "GEP2MemberInfo n g (Some b) m = Inr sub"
        "sub = [] \<Longrightarrow> \<forall>js. \<not> elem_member g c m k js"
        "sub \<noteq> [] \<Longrightarrow> elem_member g c m k ((element_index (g c) k, Some b) # sub)"
        using anonymous_member [OF 3 b(1) k e True] rec b(2) True by blast
      show ?thesis
      proof (cases "sub = []")
        case Nil: True
        with skip sub(1,2) 3 b nx True show ?thesis by simp
      next
        case False
        from here [OF sub(3) [OF this]] 3 b sub(1) False True
        show ?thesis by simp
      qed
    next
      case False
      with 3 b e have "\<not> elem_member g c m k is" for "is" by (simp add: elem_member_def Let_def)
      from skip [OF this] 3 b False nx show ?thesis by simp
    qed
  qed
qed

lemma scan_correct:
  assumes "di_ok g rk"
    and "\<And>b. isComposite (g b) \<Longrightarrow> getTag (g b) \<noteq> TagArray \<Longrightarrow> rk b < rk c \<Longrightarrow>
      finds (GEP2MemberInfo n g (Some b) m) (member_at g b m)"
    and "k + length es = length (getElements (g c))" and "es = drop k (getElements (g c))"
  shows "finds (member_scan n g (getTag (g c) = TagUnion) es (element_index (g c) k) m)
    (\<lambda>is. \<exists>j \<ge> k. elem_member g c m j is)"
  using assms(3,4)
proof (induction es arbitrary: k)
  case Nil
  then have "\<not> elem_member g c m j is" if "k \<le> j" for j "is" using that by (simp add: elem_member_def)
  then show ?case by (simp add: finds_def)
next
  case (Cons e es)
  have k: "k < length (getElements (g c))" and e: "getElements (g c) ! k = e"
    using Cons.prems(2) by (metis drop_eq_Nil leI list.distinct(1), metis hd_drop_conv_nth drop_eq_Nil leI list.distinct(1) list.sel(1))
  have "es = drop (Suc k) (getElements (g c))" using Cons.prems(2) by (metis drop_Suc list.sel(3) tl_drop)
  then show ?case
    using Cons.prems(1) by (intro scan_element [OF assms(1,2) k e] Cons.IH) simp_all
qed

lemma GEP2MemberInfo_finds:
  assumes "di_ok g rk" and "rk c < n" and "getTag (g c) \<noteq> TagArray"
  shows "finds (GEP2MemberInfo n g (Some c) m) (member_at g c m)"
  using assms(2,3)
proof (induction n arbitrary: c)
  case 0
  then show ?case by simp
next
  case (Suc n)
  have "finds (member_scan n g (getTag (g c) = TagUnion) (getElements (g c)) (element_index (g c) 0) m)
      (\<lambda>is. \<exists>j \<ge> 0. elem_member g c m j is)"
    by (rule scan_correct [OF assms(1)]) (use Suc in simp_all)
  then show ?case using Suc.prems by (simp add: elem_member_at element_index_def)
qed

text \<open>
  C13. Members by name. When the debug information is well formed and the fuel exceeds the depth
  of the nesting, \<open>GEP2MemberInfo\<close> on a structure or union returns, without an error; it finds
  something exactly when the name means a member, of the structure itself or, through elements
  without a name, of a structure or union inside it; and what it returns are the indices that
  lead to such a member.
\<close>

theorem gep_member_correct:
  assumes "di_ok g rk" and "rk c < n" and "getTag (g c) \<noteq> TagArray"
  shows "\<exists>is. GEP2MemberInfo n g (Some c) member = Inr is \<and>
    GEP2Member n g (Some c) member = Inr (map fst is) \<and>
    (if \<exists>js. member_at g c member js then is \<noteq> [] \<and> member_at g c member is else is = [])"
proof -
  from GEP2MemberInfo_finds [OF assms, of member] obtain "is" where
    "GEP2MemberInfo n g (Some c) member = Inr is"
    "if \<exists>js. member_at g c member js then is \<noteq> [] \<and> member_at g c member is else is = []"
    unfolding finds_def by blast
  then show ?thesis by (intro exI [of _ "is"]) (simp add: GEP2Member_def)
qed


section \<open>The structures of the test program\<close>

text \<open>
  The debug information of \<open>struct k_thread\<close> in \<open>libirx/tests/gep.cc\<close>: a union without a name
  with \<open>name\<close> and \<open>status\<close>, a list node \<open>list\<close> and an \<open>array\<close> of list nodes; the nodes point at
  each other. The member \<open>ptrs\<close>, an array of pointers to \<open>int\<close>, is added to it, and
  it is compiled for a target with 32-bit pointers.
\<close>

definition di_of :: "di_node list \<Rightarrow> di_graph" where
  "di_of xs d = (if d < length xs then xs ! d else DINoType)"

definition thread_nodes :: "di_node list" where
  "thread_nodes =
     [DIComposite TagStructure ''k_thread'' None [1, 5, 6, 19] 832,
      DIDerived TagMember '''' (Some 2) 512,
      DIComposite TagUnion '''' None [3, 4] 512,
      DIDerived TagMember ''name'' (Some 7) 512,
      DIDerived TagMember ''status'' (Some 8) 32,
      DIDerived TagMember ''list'' (Some 10) 64,
      DIDerived TagMember ''array'' (Some 9) 128,
      DIComposite TagArray '''' (Some 11) [12] 512,
      DIBasic ''int'' 32,
      DIComposite TagArray '''' (Some 10) [12] 128,
      DIDerived TagTypedef ''sys_dnode_t'' (Some 13) 0,
      DIBasic ''char'' 8,
      DINoType,
      DIComposite TagStructure ''_dnode'' None [14, 22] 64,
      DIDerived TagMember '''' (Some 15) 32,
      DIComposite TagUnion '''' None [16, 17] 32,
      DIDerived TagMember ''next'' (Some 18) 32,
      DIDerived TagMember ''next2'' (Some 18) 32,
      DIDerived TagPointer '''' (Some 13) 32,
      DIDerived TagMember ''ptrs'' (Some 20) 128,
      DIComposite TagArray '''' (Some 21) [12] 128,
      DIDerived TagPointer '''' (Some 8) 32,
      DIDerived TagMember ''prev'' (Some 18) 32]"

definition thread_di :: di_graph where
  "thread_di = di_of thread_nodes"

definition thread_rank :: "nat \<Rightarrow> nat" where
  "thread_rank d = [3, 0, 2, 0, 0, 0, 0, 0, 0, 0, 2, 0, 0, 1, 0, 0] ! min d 15"

definition di_node_ok :: "di_graph \<Rightarrow> (nat \<Rightarrow> nat) \<Rightarrow> nat \<Rightarrow> bool" where
  "di_node_ok g rk d \<longleftrightarrow>
     (getTag (g d) = TagTypedef \<longrightarrow>
        isDerived (g d) \<and> (case getBaseType (g d) of None \<Rightarrow> False | Some b \<Rightarrow> rk b < rk d)) \<and>
     list_all (\<lambda>e. isDerived (g e) \<longrightarrow>
        (case getBaseType (g e) of
           None \<Rightarrow> False
         | Some b \<Rightarrow> getName (g e) = [] \<and> isComposite (g b) \<longrightarrow> getTag (g b) \<noteq> TagArray \<and> rk b < rk d))
       (getElements (g d))"

lemma di_ok_of:
  assumes "list_all (di_node_ok (di_of xs) rk) [0..<length xs]"
  shows "di_ok (di_of xs) rk"
proof -
  have "di_node_ok (di_of xs) rk d" for d
  proof (cases "d < length xs")
    case True
    with assms show ?thesis by (simp add: list_all_iff)
  next
    case False
    then show ?thesis by (simp add: di_node_ok_def di_of_def)
  qed
  then have n: "\<And>d. di_node_ok (di_of xs) rk d" by simp
  show ?thesis unfolding di_ok_def
  proof (intro conjI allI ballI impI)
    show "isDerived (di_of xs d)" "\<exists>b. getBaseType (di_of xs d) = Some b \<and> rk b < rk d"
      if "getTag (di_of xs d) = TagTypedef" for d
      using n [of d] that by (auto simp: di_node_ok_def split: option.splits)
    show "\<exists>b. getBaseType (di_of xs e) = Some b \<and> (getName (di_of xs e) = [] \<and> isComposite (di_of xs b)
        \<longrightarrow> getTag (di_of xs b) \<noteq> TagArray \<and> rk b < rk c)"
      if "e \<in> set (getElements (di_of xs c))" "isDerived (di_of xs e)" for c e
      using n [of c] that by (auto simp: di_node_ok_def list_all_iff split: option.splits)
  qed
qed

lemma thread_di_ok: "di_ok thread_di thread_rank"
proof -
  have "list_all (di_node_ok (di_of thread_nodes) thread_rank) [0..<length thread_nodes]" by code_simp
  then show ?thesis unfolding thread_di_def by (rule di_ok_of)
qed

text \<open>The expectations of the tests \<open>GEP2Member\<close>, \<open>GEP\<close> and \<open>GEPArray\<close> on the model.\<close>

lemma thread_geps:
  "GEP2Member 5 thread_di (Some 0) ''list'' = Inr [1]"
  "GEP2Member 5 thread_di (Some 0) ''name'' = Inr [0, 0]"
  "res_all (GEP 5 thread_di (Some 0) [''status'']) (\<lambda>is. map fst is = [0, 0, 0])"
  "res_all (GEP 5 thread_di (Some 0) [''name'', ''0'']) (\<lambda>is. map fst is = [0, 0, 0, 0])"
  "res_all (GEP 5 thread_di (Some 0) [''array'', ''1'']) (\<lambda>is. map fst is = [0, 2, 1])"
  "res_all (GEP 5 thread_di (Some 0) [''array'', ''0'', ''next'']) (\<lambda>is. map fst is = [0, 2, 0, 0, 0])"
  "res_all (GEP 5 thread_di (Some 0) [''array'', ''0'', ''next2'']) (\<lambda>is. map fst is = [0, 2, 0, 0, 0])"
  by code_simp+

theorem struct_cache_correct_witness:
  "findStructDebugInfo thread_di [8, 0, 10, 13] ''_dnode'' (Some Map.empty) =
     Inr (Some 13, Some [''_dnode'' \<mapsto> Some 13]) \<and>
   getStructDebugInfoFields thread_di [8, 0, 10, 13] ''_dnode'' = Inl NullDeref"
proof -
  have "cache_ok thread_di [8, 0, 10, 13] Map.empty" by (simp add: cache_ok_def)
  moreover have f: "find_type thread_di [8, 0, 10, 13] ''_dnode'' = Some 13" by code_simp
  ultimately show ?thesis
    using struct_cache_correct [of thread_di "[8, 0, 10, 13]" Map.empty "''_dnode''"]
    by (auto simp: findStructDebugInfo_def)
qed

theorem gep_member_correct_witness:
  "GEP2Member 4 thread_di (Some 0) ''status'' = Inr [0, 0] \<and>
   member_at thread_di 0 ''status'' [(0, Some 2), (0, Some 4)]"
proof -
  have "thread_rank 0 < 4" "getTag (thread_di 0) \<noteq> TagArray" by code_simp+
  moreover have "GEP2MemberInfo 4 thread_di (Some 0) ''status'' = Inr [(0, Some 2), (0, Some 4)]"
    by code_simp
  ultimately show ?thesis
    using gep_member_correct [OF thread_di_ok, of 0 4 "''status''"] by (auto split: if_splits)
qed

end
