(* ===== verification/InterpAlloc.thy ===== *)
theory InterpAlloc
  imports MapAlloc
begin

text \<open>
  The allocation part of \<open>MyInterpreter\<close> (\<open>libirx/irinterpreter2-struct.h\<close>,
  \<open>libirx/irinterpreter2-mmap.cc\<close>, \<open>libirx/irinterpreter2-interpreter.cc\<close>): it keeps the
  addresses of the blocks it handed out, so that \<open>resetExtraAllocations\<close> can free them and put
  the address generator back to where it was frozen. The allocator is the \<open>MapAllocator\<close> that
  \<open>IRModuleInterpreter\<close> creates it with.
\<close>

section \<open>State and operations\<close>

record my_allocs =
  allocator :: map_allocator
  tracked :: "u64 list"

definition my_malloc ::
    "(map_allocator \<Rightarrow> end_reads) \<Rightarrow> safe_malloc \<Rightarrow> u64 \<Rightarrow> 'a my_allocs_scheme \<Rightarrow>
     (irx_alloc \<times> 'a my_allocs_scheme) res" where
  "my_malloc er sm sz s =
     rbind (ma_malloc er sm sz (allocator s)) (\<lambda>(r, a).
       Inr (r, s\<lparr>allocator := a, tracked := tracked s @ [ia_vvptr r]\<rparr>))"

text \<open>The loop \<open>for(uintptr_t vvptr : allocations) allocator->free(vvptr)\<close>.\<close>

fun free_each ::
    "(map_allocator \<Rightarrow> end_reads) \<Rightarrow> u64 list \<Rightarrow> map_allocator \<Rightarrow> map_allocator res" where
  "free_each er [] a = Inr a"
| "free_each er (v # vs) a = rbind (ma_free er v a) (free_each er vs)"

text \<open>The part of \<open>resetExtraAllocations\<close> about allocations, up to \<open>allocator->freeze()\<close>.\<close>

definition reset_allocs ::
    "(map_allocator \<Rightarrow> end_reads) \<Rightarrow> 'a my_allocs_scheme \<Rightarrow> 'a my_allocs_scheme res" where
  "reset_allocs er s =
     rbind (free_each er (tracked s) (allocator s)) (\<lambda>a.
     rbind (ma_reset a) (\<lambda>a'.
       Inr (s\<lparr>allocator := ma_freeze a', tracked := []\<rparr>)))"

fun my_mallocs ::
    "(map_allocator \<Rightarrow> end_reads) \<Rightarrow> safe_malloc \<Rightarrow> u64 list \<Rightarrow> 'a my_allocs_scheme \<Rightarrow>
     (irx_alloc list \<times> 'a my_allocs_scheme) res" where
  "my_mallocs er sm [] s = Inr ([], s)"
| "my_mallocs er sm (sz # szs) s =
     rbind (my_malloc er sm sz s) (\<lambda>(r, s1).
     rbind (my_mallocs er sm szs s1) (\<lambda>(rs, s2). Inr (r # rs, s2)))"

section \<open>Runs of allocations\<close>

lemma ma_malloc_InrE:
  assumes "ma_inv a bs" and "end_reads_ok er" and "safe_malloc_ok sm" and "vma_fits sz (ma_vma a)"
    and "ma_malloc er sm sz a = Inr (r, a')"
  obtains p where "sm sz (host_live a) = Some p" and "\<not> exhausted sz a"
    and "r = \<lparr>ia_vvptr = lastAllocAddr (ma_vma a), ia_vptr = p, ia_size = sz\<rparr>"
    and "ma_inv a' (bs @ [new_blk p sz a])" and "allocations a' = allocations a @ [p]"
    and "host_live a' = p # host_live a"
    and "vma_next sz (ma_vma a) = Inr (lastAllocAddr (ma_vma a), ma_vma a')"
proof -
  obtain p where p: "sm sz (host_live a) = Some p"
    using assms(5) by (auto simp: ma_malloc_def split: option.splits)
  moreover have ex: "\<not> exhausted sz a"
    using ma_malloc_exhausted [OF assms(1,4)] p assms(5) by (metis Inl_Inr_False)
  moreover note ma_malloc_inv [OF assms(1-3) p assms(4) ex] assms(5)
  ultimately show ?thesis using that by auto
qed

text \<open>
  What the interpreter has allocated since the state \<open>s0\<close>: blocks \<open>nbs\<close> of the sizes \<open>szs\<close> at
  the end, tracked in their order, with host memory that was not live at \<open>s0\<close>, at the
  addresses the generator alone gives for these sizes.
\<close>

definition allocs_since ::
    "blk list \<Rightarrow> 'b my_allocs_scheme \<Rightarrow> u64 list \<Rightarrow> 'a my_allocs_scheme \<Rightarrow> blk list \<Rightarrow> bool" where
  "allocs_since bs s0 szs s nbs \<longleftrightarrow>
     ma_inv (allocator s) (bs @ nbs) \<and> tracked s = map b_lo nbs \<and>
     map (\<lambda>b. b_hi b - b_lo b) nbs = szs \<and>
     set (host_live (allocator s)) = b_vptr ` set nbs \<union> set (host_live (allocator s0)) \<and>
     set (allocations (allocator s)) = b_vptr ` set nbs \<union> set (allocations (allocator s0)) \<and>
     b_vptr ` set nbs \<inter> set (host_live (allocator s0)) = {} \<and>
     (\<exists>l. ma_vma (allocator s) = (ma_vma (allocator s0))\<lparr>lastAllocAddr := l\<rparr>) \<and>
     gen_allocs vma_next szs (ma_vma (allocator s0)) = Inr (tracked s, ma_vma (allocator s))"

lemma allocs_since_refl:
  assumes "ma_inv (allocator s) bs" and "tracked s = []"
  shows "allocs_since bs s [] s []"
  using assms by (auto simp: allocs_since_def intro: exI [of _ "lastAllocAddr (ma_vma (allocator s))"])

lemma allocs_since_same:
  "allocs_since bs s0 szs s nbs \<Longrightarrow> allocator s' = allocator s \<Longrightarrow> tracked s' = tracked s \<Longrightarrow>
   allocs_since bs s0 szs s' nbs"
  by (simp add: allocs_since_def)

lemma allocs_since_fits:
  "allocs_since bs s0 szs s nbs \<Longrightarrow> vma_fits sz (ma_vma (allocator s)) = vma_fits sz (ma_vma (allocator s0))"
  by (auto simp: allocs_since_def vma_fits_def)

lemma allocs_since_start:
  assumes "allocs_since bs s0 [] s nbs"
  shows "nbs = []" and "ma_inv (allocator s) bs" and "tracked s = []"
    and "ma_vma (allocator s) = ma_vma (allocator s0)"
    and "set (host_live (allocator s)) = set (host_live (allocator s0))"
    and "set (allocations (allocator s)) = set (allocations (allocator s0))"
  using assms by (auto simp: allocs_since_def)

lemma allocs_since_malloc:
  assumes "allocs_since bs s0 szs s nbs" and "end_reads_ok er" and "safe_malloc_ok sm"
    and "vma_fits sz (ma_vma (allocator s0))" and "my_malloc er sm sz s = Inr (r, s')"
  obtains b where "allocs_since bs s0 (szs @ [sz]) s' (nbs @ [b])" and "b_lo b = ia_vvptr r"
    and "b_vptr b = ia_vptr r"
proof -
  let ?a = "allocator s"
  note since = assms(1) [unfolded allocs_since_def]
  obtain a1 where a1: "ma_malloc er sm sz ?a = Inr (r, a1)"
    and s': "s' = s\<lparr>allocator := a1, tracked := tracked s @ [ia_vvptr r]\<rparr>"
    using assms(5) by (auto simp: my_malloc_def)
  have fit: "vma_fits sz (ma_vma ?a)" using assms(1,4) by (simp add: allocs_since_fits)
  have inv: "ma_inv ?a (bs @ nbs)" using since by simp
  obtain p where p: "sm sz (host_live ?a) = Some p"
    "r = \<lparr>ia_vvptr = lastAllocAddr (ma_vma ?a), ia_vptr = p, ia_size = sz\<rparr>"
    "ma_inv a1 ((bs @ nbs) @ [new_blk p sz ?a])" "allocations a1 = allocations ?a @ [p]"
    "host_live a1 = p # host_live ?a"
    and nx: "vma_next sz (ma_vma ?a) = Inr (lastAllocAddr (ma_vma ?a), ma_vma a1)"
    using ma_malloc_InrE [OF inv assms(2,3) fit a1] by metis
  obtain l where l: "ma_vma a1 = (ma_vma ?a)\<lparr>lastAllocAddr := l\<rparr>"
    using nx by (auto elim: vma_next_InrE)
  have "p \<notin> set (host_live ?a)" using assms(3) p(1) by (simp add: safe_malloc_ok_def)
  moreover have "gen_allocs vma_next (szs @ [sz]) (ma_vma (allocator s0)) =
      Inr (tracked s @ [lastAllocAddr (ma_vma ?a)], ma_vma a1)"
    using since nx by (simp add: gen_allocs_snoc)
  ultimately have "allocs_since bs s0 (szs @ [sz]) s' (nbs @ [new_blk p sz ?a])"
    using since p l by (auto simp: allocs_since_def s' new_blk_def)
  then show ?thesis by (rule that) (simp_all add: p(2) new_blk_def)
qed

lemma allocs_since_mallocs:
  assumes "end_reads_ok er" and "safe_malloc_ok sm"
  shows "allocs_since bs s0 szs s nbs \<Longrightarrow> \<forall>sz \<in> set szs'. vma_fits sz (ma_vma (allocator s0)) \<Longrightarrow>
    my_mallocs er sm szs' s = Inr (rs, s') \<Longrightarrow>
    \<exists>nbs'. allocs_since bs s0 (szs @ szs') s' (nbs @ nbs') \<and> map ia_vvptr rs = map b_lo nbs'"
proof (induction szs' arbitrary: szs s nbs rs)
  case (Cons sz szs')
  obtain r s1 rs' where r: "my_malloc er sm sz s = Inr (r, s1)" "my_mallocs er sm szs' s1 = Inr (rs', s')"
    "rs = r # rs'" using Cons.prems(3) by auto
  obtain b where b: "allocs_since bs s0 (szs @ [sz]) s1 (nbs @ [b])" "b_lo b = ia_vvptr r"
    using allocs_since_malloc [OF Cons.prems(1) assms _ r(1)] Cons.prems(2) by auto
  obtain nbs' where "allocs_since bs s0 ((szs @ [sz]) @ szs') s' ((nbs @ [b]) @ nbs')"
    "map ia_vvptr rs' = map b_lo nbs'" using Cons.IH [OF b(1) _ r(2)] Cons.prems(2) by auto
  with b(2) r(3) show ?case by (intro exI [of _ "b # nbs'"]) simp
qed (auto intro: exI [of _ "[]"])

lemma free_each_inv:
  assumes "ma_inv a (bs @ nbs)" and "end_reads_ok er"
    and "set (map b_vptr nbs) \<subseteq> set (allocations a)"
  shows "\<exists>a'. free_each er (map b_lo nbs) a = Inr a' \<and> ma_inv a' bs \<and> ma_vma a' = ma_vma a \<and>
    set (host_live a') = set (host_live a) - set (map b_vptr nbs) \<and>
    set (allocations a') = set (allocations a) - set (map b_vptr nbs)"
  using assms(1,3)
proof (induction nbs arbitrary: a)
  case Nil
  then show ?case by simp
next
  case (Cons b nbs)
  have c: "ma_core a (bs @ b # nbs)" using Cons.prems(1) by (simp add: ma_inv_def)
  note ok = ma_coreD(4) [OF c]
  have "covers (b_lo b) b" using blks_ok_le [OF ok, of b] by (simp add: covers_def)
  then have look: "lookup_blk (bs @ b # nbs) (b_lo b) = Some b"
    by (simp add: lookup_blk_Some_iff [OF ok])
  have "b \<notin> set bs" using blks_ok_distinct [OF ok] by auto
  then have rem: "remove1 b (bs @ b # nbs) = bs @ nbs" by (simp add: remove1_append)
  obtain a1 where a1: "ma_free er (b_lo b) a = Inr a1" "ma_inv a1 (bs @ nbs)" "ma_vma a1 = ma_vma a"
    "allocations a1 = removeAll (b_vptr b) (allocations a)"
    "host_live a1 = remove1 (b_vptr b) (host_live a)"
    using ma_free_inv [OF Cons.prems(1) assms(2) look] Cons.prems(2) by (auto simp: rem)
  have "b_vptr b \<notin> set (map b_vptr nbs)"
    using ma_coreD(3) [OF c] by (auto simp: vptrs_distinct_def)
  then have "set (map b_vptr nbs) \<subseteq> set (allocations a1)"
    using Cons.prems(2) by (simp add: a1(4)) blast
  from Cons.IH [OF a1(2) this] a1 ma_coreD(7) [OF c] show ?case by auto
qed

text \<open>The reset takes everything back that was allocated since the freeze.\<close>

lemma allocs_since_reset:
  assumes "allocs_since bs s0 szs s nbs" and "ma_inv (allocator s0) bs" and "end_reads_ok er"
    and "ma_vma (allocator s0) = vma_freeze g"
  obtains s' where "reset_allocs er s = Inr s'" and "allocs_since bs s0 [] s' []"
proof -
  note since = assms(1) [unfolded allocs_since_def]
  obtain l where l: "ma_vma (allocator s) = (vma_freeze g)\<lparr>lastAllocAddr := l\<rparr>"
    using since assms(4) by auto
  have "ma_core (allocator s0) bs" and own: "set (allocations (allocator s0)) \<subseteq> set (host_live (allocator s0))"
    using assms(2) by (auto simp: ma_inv_def ma_core_def)
  obtain a where a: "free_each er (map b_lo nbs) (allocator s) = Inr a" "ma_inv a bs"
    "ma_vma a = ma_vma (allocator s)"
    "set (host_live a) = set (host_live (allocator s)) - set (map b_vptr nbs)"
    "set (allocations a) = set (allocations (allocator s)) - set (map b_vptr nbs)"
    using free_each_inv [of "allocator s" bs nbs er] assms(3) since by auto
  have r: "ma_reset a = Inr (a\<lparr>ma_vma := g\<rparr>)" using a(3) by (simp add: ma_reset_def l)
  let ?s' = "s\<lparr>allocator := ma_freeze (a\<lparr>ma_vma := g\<rparr>), tracked := []\<rparr>"
  have "ma_inv (allocator ?s') bs"
    using a(2) \<open>ma_core (allocator s0) bs\<close> assms(4)
    by (auto simp: ma_inv_def ma_core_def ma_freeze_def blk_rel_more)
  moreover have "ma_vma (allocator ?s') = ma_vma (allocator s0)"
    "host_live (allocator ?s') = host_live a" "allocations (allocator ?s') = allocations a"
    by (simp_all add: ma_freeze_def assms(4))
  ultimately have "allocs_since bs s0 [] ?s' []"
    using since a(4,5) own unfolding allocs_since_def
    by (auto intro: exI [of _ "lastAllocAddr (ma_vma (allocator s0))"])
  with a(1) since r show ?thesis by (intro that [of ?s']) (simp_all add: reset_allocs_def)
qed

section \<open>Properties\<close>

lemma my_mallocs_reset:
  assumes inv: "ma_inv (allocator s) bs" and er: "end_reads_ok er" and sm: "safe_malloc_ok sm"
    and fz: "ma_vma (allocator s) = vma_freeze g" and tr: "tracked s = []"
    and fits: "\<forall>sz \<in> set szs. vma_fits sz g"
    and run: "my_mallocs er sm szs s = Inr (rs, s1)"
  shows "\<exists>s2. reset_allocs er s1 = Inr s2 \<and> ma_inv (allocator s2) bs \<and>
    ma_vma (allocator s2) = ma_vma (allocator s) \<and> tracked s2 = [] \<and>
    set (host_live (allocator s2)) = set (host_live (allocator s)) \<and>
    set (allocations (allocator s2)) = set (allocations (allocator s)) \<and>
    gen_allocs vma_next szs (ma_vma (allocator s)) = Inr (map ia_vvptr rs, ma_vma (allocator s1))"
proof -
  have "\<forall>sz \<in> set szs. vma_fits sz (ma_vma (allocator s))"
    using fits by (simp add: fz vma_fits_def vma_freeze_def)
  from allocs_since_mallocs [OF er sm allocs_since_refl [OF inv tr] this run] obtain nbs where
    since: "allocs_since bs s szs s1 nbs" and rs: "map ia_vvptr rs = map b_lo nbs" by auto
  obtain s2 where "reset_allocs er s1 = Inr s2" "allocs_since bs s [] s2 []"
    using allocs_since_reset [OF since inv er fz] .
  with allocs_since_start [OF this(2)] since rs show ?thesis by (simp add: allocs_since_def)
qed

text \<open>
  \<open>resetExtraAllocations\<close> undoes any run of \<open>malloc\<close>s since the freeze: it ends without a
  failing assertion, a double free or an empty freeze stack, the blocks, the frozen generator and
  the live host memory are what they were before the run, so every address translates as before
  it, and the same requests get the same interpreter addresses again, whatever host memory they
  are given.
\<close>

theorem reset_replays_addresses:
  assumes "ma_inv (allocator s) bs" and "end_reads_ok er" and "safe_malloc_ok sm"
    and "ma_vma (allocator s) = vma_freeze g" and "tracked s = []"
    and "\<forall>sz \<in> set szs. vma_fits sz g" and "my_mallocs er sm szs s = Inr (rs, s1)"
  shows "\<exists>s2. reset_allocs er s1 = Inr s2 \<and> tracked s2 = [] \<and>
    ma_vma (allocator s2) = ma_vma (allocator s) \<and>
    set (host_live (allocator s2)) = set (host_live (allocator s)) \<and>
    (\<forall>v. irx_vvptr2vptr er (allocator s2) v = irx_vvptr2vptr er (allocator s) v) \<and>
    (\<forall>sm' rs' s3. safe_malloc_ok sm' \<and> my_mallocs er sm' szs s2 = Inr (rs', s3) \<longrightarrow>
       map ia_vvptr rs' = map ia_vvptr rs)"
proof -
  obtain s2 where s2: "reset_allocs er s1 = Inr s2" "ma_inv (allocator s2) bs"
    "ma_vma (allocator s2) = ma_vma (allocator s)" "tracked s2 = []"
    "set (host_live (allocator s2)) = set (host_live (allocator s))"
    and gen: "gen_allocs vma_next szs (ma_vma (allocator s)) =
      Inr (map ia_vvptr rs, ma_vma (allocator s1))"
    using my_mallocs_reset [OF assms] by blast
  have "irx_vvptr2vptr er (allocator s2) v = irx_vvptr2vptr er (allocator s) v" for v
    using irx_vvptr2vptr_eq [of "allocator s2" bs er v] irx_vvptr2vptr_eq [of "allocator s" bs er v]
      s2(2) assms(1,2) by (simp add: ma_inv_def ma_core_def)
  moreover have "map ia_vvptr rs' = map ia_vvptr rs"
    if "safe_malloc_ok sm'" "my_mallocs er sm' szs s2 = Inr (rs', s3)" for sm' rs' s3
    using my_mallocs_reset [OF s2(2) assms(2) that(1) _ s2(4) assms(6) that(2)] gen s2(3) assms(4)
    by auto
  ultimately show ?thesis using s2 by blast
qed

text \<open>The interpreter as it is after start-up, with one global added before the freeze.\<close>

definition started :: my_allocs where
  "started = \<lparr>allocator = ma_freeze one_block, tracked = []\<rparr>"

theorem reset_replays_addresses_witness:
  "\<exists>rs s1 s2. my_mallocs junk_reads three_addrs [5, 16] started = Inr (rs, s1) \<and>
     map ia_vvptr rs = [0x5000000C, 0x50000014] \<and> reset_allocs junk_reads s1 = Inr s2 \<and>
     set (host_live (allocator s2)) = {0x7000}"
proof -
  let ?g = "new_vma\<lparr>lastAllocAddr := 0x5000000C\<rparr>"
  have inv: "ma_inv (allocator started) [blk0]"
    using ma_freeze_inv [OF one_block_inv] by (simp add: started_def)
  have fz: "ma_vma (allocator started) = vma_freeze ?g" "tracked started = []"
    by (simp_all add: started_def ma_freeze_def one_block_def)
  have fits: "\<forall>sz \<in> set [5, 16]. vma_fits sz ?g" by (simp add: vma_fits_def new_vma_def)
  have "case my_mallocs junk_reads three_addrs [5, 16] started of Inl e \<Rightarrow> False
      | Inr (rs, s1) \<Rightarrow> map ia_vvptr rs = [0x5000000C, 0x50000014]"
    by code_simp
  then obtain rs s1 where run: "my_mallocs junk_reads three_addrs [5, 16] started = Inr (rs, s1)"
    "map ia_vvptr rs = [0x5000000C, 0x50000014]"
    by (cases "my_mallocs junk_reads three_addrs [5, 16] started") auto
  have "host_live (allocator started) = [0x7000]"
    by (simp add: started_def ma_freeze_def one_block_def)
  with reset_replays_addresses [OF inv junk_reads_ok three_addrs_ok fz fits run(1)] run
  show ?thesis by fastforce
qed

end
