(* ===== verification/HostMemory.thy ===== *)
theory HostMemory
  imports Prelude
begin

text \<open>
  The bytes of the host process that the interpreter and the structure access functions read and
  write with \<open>memcpy\<close> and \<open>memset\<close>: a partial map from addresses to bytes. An access
  outside the mapped addresses is undefined behaviour and an error here. Values are little
  endian, as on the hosts libirx runs on.
\<close>

section \<open>Bytes\<close>

type_synonym mem = "u64 \<Rightarrow> u8 option"

fun mem_read :: "mem \<Rightarrow> u64 \<Rightarrow> nat \<Rightarrow> u8 list res" where
  "mem_read m a 0 = Inr []"
| "mem_read m a (Suc n) =
     (case m a of
        None \<Rightarrow> Inl WildPointer
      | Some b \<Rightarrow> rbind (mem_read m (a + 1) n) (\<lambda>bs. Inr (b # bs)))"

fun mem_write :: "mem \<Rightarrow> u64 \<Rightarrow> u8 list \<Rightarrow> mem res" where
  "mem_write m a [] = Inr m"
| "mem_write m a (b # bs) =
     (case m a of
        None \<Rightarrow> Inl WildPointer
      | Some _ \<Rightarrow> mem_write (m(a \<mapsto> b)) (a + 1) bs)"

text \<open>The first \<open>n\<close> bytes of a 64-bit object, and the object with its first bytes given.\<close>

fun bytes_of :: "nat \<Rightarrow> u64 \<Rightarrow> u8 list" where
  "bytes_of 0 x = []"
| "bytes_of (Suc n) x = ucast x # bytes_of n (drop_bit 8 x)"

fun of_bytes :: "u8 list \<Rightarrow> u64" where
  "of_bytes [] = 0"
| "of_bytes (b # bs) = ucast b OR push_bit 8 (of_bytes bs)"

section \<open>Facts\<close>

definition in_range :: "u64 \<Rightarrow> nat \<Rightarrow> u64 \<Rightarrow> bool" where
  "in_range a n x \<longleftrightarrow> unat (x - a) < n"

definition mapped_range :: "mem \<Rightarrow> u64 \<Rightarrow> nat \<Rightarrow> bool" where
  "mapped_range m a n \<longleftrightarrow> (\<forall>x. in_range a n x \<longrightarrow> m x \<noteq> None)"

lemma unat_sub_Suc: "x \<noteq> a \<Longrightarrow> unat (x - a) = Suc (unat (x - (a + 1)))" for x a :: u64
proof -
  assume "x \<noteq> a"
  then have "x - a \<noteq> 0" by simp
  then have "unat (x - a) = Suc (unat (x - a - 1))"
    by (simp add: unat_minus_one unat_gt_0)
  then show ?thesis by (simp add: algebra_simps)
qed

lemma in_range_Suc: "in_range a (Suc n) x \<longleftrightarrow> x = a \<or> in_range (a + 1) n x"
proof (cases "x = a")
  case False
  then show ?thesis by (simp add: in_range_def unat_sub_Suc)
qed (simp add: in_range_def)

lemma not_in_range_self: "n < 2 ^ 64 \<Longrightarrow> \<not> in_range (a + 1) n a"
proof -
  assume "n < 2 ^ 64"
  have "a - (a + 1) = (- 1 :: u64)" by simp
  moreover have "unat (- 1 :: u64) = 2 ^ 64 - 1"
    by (simp add: unsigned_minus_1_eq_mask mask_eq_exp_minus_1)
  ultimately have "unat (a - (a + 1)) = 2 ^ 64 - 1" by (simp only:)
  with \<open>n < 2 ^ 64\<close> show ?thesis unfolding in_range_def by simp
qed

lemma mem_write_eq:
  assumes "length bs \<le> 2 ^ 64" and "mapped_range m a (length bs)"
  shows "mem_write m a bs =
    Inr (\<lambda>x. if in_range a (length bs) x then Some (bs ! unat (x - a)) else m x)"
  using assms
proof (induction bs arbitrary: m a)
  case Nil
  then show ?case by (simp add: in_range_def fun_eq_iff)
next
  case (Cons b bs)
  have self: "\<not> in_range (a + 1) (length bs) a"
    using Cons.prems(1) by (intro not_in_range_self) simp
  obtain c where c: "m a = Some c" using Cons.prems(2) by (auto simp: mapped_range_def in_range_Suc)
  have mp: "mapped_range (m(a \<mapsto> b)) (a + 1) (length bs)"
    using Cons.prems(2) self by (auto simp: mapped_range_def in_range_Suc)
  have eq: "(if in_range (a + 1) (length bs) x then Some (bs ! unat (x - (a + 1)))
        else (m(a \<mapsto> b)) x) =
      (if in_range a (Suc (length bs)) x then Some ((b # bs) ! unat (x - a)) else m x)" for x
  proof (cases "x = a")
    case False
    then show ?thesis by (simp add: in_range_Suc unat_sub_Suc)
  qed (use self in \<open>simp add: in_range_Suc\<close>)
  have "length bs \<le> 2 ^ 64" using Cons.prems(1) by simp
  note Cons.IH [OF this mp]
  also have "(\<lambda>x. if in_range (a + 1) (length bs) x then Some (bs ! unat (x - (a + 1)))
        else (m(a \<mapsto> b)) x) =
      (\<lambda>x. if in_range a (length (b # bs)) x then Some ((b # bs) ! unat (x - a)) else m x)"
    by (rule ext) (use eq in simp)
  finally show ?case by (simp only: mem_write.simps c option.case)
qed


lemma mem_write_mapped:
  assumes "length bs \<le> 2 ^ 64" and "mem_write m a bs = Inr m'"
  shows "mapped_range m a (length bs)"
  using assms
proof (induction bs arbitrary: m a)
  case Nil
  then show ?case by (simp add: mapped_range_def in_range_def)
next
  case (Cons b bs)
  from Cons.prems(2) have a: "m a \<noteq> None" and w: "mem_write (m(a \<mapsto> b)) (a + 1) bs = Inr m'"
    by (auto split: option.splits)
  have "mapped_range (m(a \<mapsto> b)) (a + 1) (length bs)"
    by (rule Cons.IH [OF _ w]) (use Cons.prems(1) in simp)
  with a show ?case by (auto simp: mapped_range_def in_range_Suc split: if_splits)
qed

lemma mem_write_total:
  assumes "\<forall>x. m x \<noteq> None" and "length bs \<le> 2 ^ 64"
  shows "\<exists>m'. mem_write m a bs = Inr m' \<and> (\<forall>x. m' x \<noteq> None)"
  using mem_write_eq [OF assms(2), of m a] assms(1) by (auto simp: mapped_range_def)

lemma mem_read_eq:
  assumes "length bs = n" and "\<And>i. i < n \<Longrightarrow> m (a + word_of_nat i) = Some (bs ! i)"
  shows "mem_read m a n = Inr bs"
  using assms
proof (induction n arbitrary: a bs)
  case 0
  then show ?case by simp
next
  case (Suc n)
  then obtain b bs' where bs: "bs = b # bs'" by (cases bs) auto
  have "m (a + 1 + word_of_nat i) = Some (bs' ! i)" if "i < n" for i
    using Suc.prems(2) [of "Suc i"] that by (simp add: bs add.assoc)
  then have "mem_read m (a + 1) n = Inr bs'" using Suc.prems(1) bs by (intro Suc.IH) auto
  moreover have "m a = Some b" using Suc.prems(2) [of 0] bs by simp
  ultimately show ?case by (simp add: bs)
qed

lemma mem_read_frame:
  "(\<And>x. in_range a n x \<Longrightarrow> m x = m' x) \<Longrightarrow> mem_read m a n = mem_read m' a n"
proof (induction n arbitrary: a)
  case (Suc n)
  have "m a = m' a" using Suc.prems [of a] by (simp add: in_range_Suc)
  moreover have "mem_read m (a + 1) n = mem_read m' (a + 1) n"
    using Suc.prems by (intro Suc.IH) (simp add: in_range_Suc)
  ultimately show ?case by (simp split: option.splits)
qed simp

lemma of_bytes_of: "of_bytes (bytes_of n x) = take_bit (8 * n) x"
proof (induction n x rule: bytes_of.induct)
  case (2 n x)
  have "take_bit (8 * Suc n) x = ucast (ucast x :: u8) OR push_bit 8 (take_bit (8 * n) (drop_bit 8 x))"
    by (rule bit_word_eqI) (auto simp: bit_simps)
  with 2 show ?case by simp
qed simp

lemma length_bytes_of [simp]: "length (bytes_of n x) = n"
  by (induction n x rule: bytes_of.induct) auto

section \<open>The contract of a byte store\<close>

text \<open>
  What \<open>LoadValueFromMemory\<close>, \<open>StoreValueToMemory\<close> and the structure accessors rely on:
  bytes read back as written, and a write changes its range only.
\<close>

locale byte_store =
  fixes rd :: "'m \<Rightarrow> u64 \<Rightarrow> nat \<Rightarrow> u8 list res"
    and wr :: "'m \<Rightarrow> u64 \<Rightarrow> u8 list \<Rightarrow> 'm res"
  assumes rd_wr: "length bs \<le> 2 ^ 64 \<Longrightarrow> wr m a bs = Inr m' \<Longrightarrow> rd m' a (length bs) = Inr bs"
    and rd_frame: "length bs \<le> 2 ^ 64 \<Longrightarrow> wr m a bs = Inr m' \<Longrightarrow>
      (\<forall>x. \<not> (in_range a (length bs) x \<and> in_range c n x)) \<Longrightarrow> rd m' c n = rd m c n"
begin

text \<open>The first \<open>n\<close> bytes of a 64-bit object, through memory.\<close>

lemma object_roundtrip:
  assumes "n \<le> 8" and "wr m a (bytes_of n x) = Inr m'"
  shows "rbind (rd m' a n) (\<lambda>bs. Inr (of_bytes bs)) = Inr (take_bit (8 * n) x)"
  using rd_wr [of "bytes_of n x" m a m'] assms by (simp add: of_bytes_of)

lemma object_frame:
  assumes "n \<le> 8" and "wr m a (bytes_of n x) = Inr m'"
    and "\<forall>y. \<not> (in_range a n y \<and> in_range c k y)"
  shows "rd m' c k = rd m c k"
  using rd_frame [of "bytes_of n x" m a m' c k] assms by simp

end

interpretation host: byte_store mem_read mem_write
proof unfold_locales
  fix bs :: "u8 list" and m a m'
  assume len: "length bs \<le> 2 ^ 64" and w: "mem_write m a bs = Inr m'"
  have m': "m' = (\<lambda>x. if in_range a (length bs) x then Some (bs ! unat (x - a)) else m x)"
    using mem_write_eq [OF len mem_write_mapped [OF len w]] w by simp
  have "m' (a + word_of_nat i) = Some (bs ! i)" if "i < length bs" for i
  proof -
    have "i < 2 ^ 64" using that len by linarith
    then have "unat (a + word_of_nat i - a) = i"
      by (simp add: unsigned_of_nat take_bit_nat_eq_self_iff)
    then show ?thesis using that by (simp add: m' in_range_def)
  qed
  then show "mem_read m' a (length bs) = Inr bs" by (intro mem_read_eq) auto
  show "mem_read m' c n = mem_read m c n"
    if "\<forall>x. \<not> (in_range a (length bs) x \<and> in_range c n x)" for c n
    using that by (intro mem_read_frame) (auto simp: m')
qed

end
