(* ===== verification/InterpMemory.thy ===== *)
theory InterpMemory
  imports InterpAlloc HostMemory
begin

text \<open>
  How \<open>MyInterpreter\<close> (\<open>libirx/irinterpreter2-interpreter.cc\<close>) reads and writes the
  program's memory: loads and stores with the pointer size of the target, the initialisation of
  global variables from constants, and the mapping of globals and functions into the
  interpreter's address space.

  What the code takes from LLVM is a record of functions, \<open>llvm_env\<close>: the sizes and offsets of
  the data layout, the value of a scalar constant, and the loads and stores of
  \<open>ExecutionEngine\<close> the code falls back to.
\<close>

section \<open>Types, constants and values\<close>

datatype mty =
    MVoid
  | MFun
  | MInt nat
  | MFloat
  | MPtr mty
  | MArr mty nat
  | MVec mty nat
  | MStruct string "mty list"

text \<open>\<open>CScalar\<close> stands for the constants that are none of the others, by identity.\<close>

datatype cst =
    CUndef mty
  | CVector mty "cst list"
  | CAggregateZero mty
  | CArray mty "cst list"
  | CStruct mty "cst list"
  | CData mty "u8 list"
  | CScalar nat mty

fun cst_ty :: "cst \<Rightarrow> mty" where
  "cst_ty (CUndef t) = t"
| "cst_ty (CVector t cs) = t"
| "cst_ty (CAggregateZero t) = t"
| "cst_ty (CArray t cs) = t"
| "cst_ty (CStruct t cs) = t"
| "cst_ty (CData t bs) = t"
| "cst_ty (CScalar i t) = t"

fun element_ty :: "mty \<Rightarrow> mty" where
  "element_ty (MArr t n) = t"
| "element_ty (MVec t n) = t"
| "element_ty t = t"

fun is_array :: "mty \<Rightarrow> bool" where
  "is_array (MArr t n) = True"
| "is_array t = False"

fun is_pointer :: "mty \<Rightarrow> bool" where
  "is_pointer (MPtr t) = True"
| "is_pointer t = False"

definition isFirstClassType :: "mty \<Rightarrow> bool" where
  "isFirstClassType t \<longleftrightarrow> t \<noteq> MFun \<and> t \<noteq> MVoid"

text \<open>
  \<open>GenericValue\<close>: the eight bytes of its union, read as \<open>PointerVal\<close>, and the integer.
\<close>

record gval =
  PointerVal :: u64
  IntVal :: int

definition default_gval :: gval where
  "default_gval = \<lparr>PointerVal = 0, IntVal = 0\<rparr>"

record llvm_env =
  storeSize :: "mty \<Rightarrow> nat"
  allocSize :: "mty \<Rightarrow> nat"
  elementOffset :: "mty \<Rightarrow> nat \<Rightarrow> u64"
  constantValue :: "nat \<Rightarrow> gval"
  ee_load :: "gval \<Rightarrow> u64 \<Rightarrow> mty \<Rightarrow> mem \<Rightarrow> gval res"
  ee_store :: "gval \<Rightarrow> u64 \<Rightarrow> mty \<Rightarrow> mem \<Rightarrow> mem res"

section \<open>Loads and stores\<close>

definition store_bytes :: "llvm_env \<Rightarrow> mty \<Rightarrow> nat" where
  "store_bytes env t = storeSize env t mod 2 ^ 32"

definition custom_copy :: "llvm_env \<Rightarrow> mty \<Rightarrow> bool" where
  "custom_copy env t \<longleftrightarrow> is_array t \<or> (is_pointer t \<and> store_bytes env t \<noteq> 8)"

text \<open>
  Both copy \<open>StoreBytes\<close> bytes from or to the eight bytes of \<open>PointerVal\<close>; a longer copy
  runs past that member.
\<close>

definition LoadValueFromMemory :: "llvm_env \<Rightarrow> gval \<Rightarrow> u64 \<Rightarrow> mty \<Rightarrow> mem \<Rightarrow> gval res" where
  "LoadValueFromMemory env Result Ptr t m =
     (if custom_copy env t
      then if store_bytes env t > 8 then Inl BufferOverflow
           else rbind (mem_read m Ptr (store_bytes env t)) (\<lambda>bs.
                  Inr (Result\<lparr>PointerVal := of_bytes bs\<rparr>))
      else ee_load env Result Ptr t m)"

definition StoreValueToMemory :: "llvm_env \<Rightarrow> gval \<Rightarrow> u64 \<Rightarrow> mty \<Rightarrow> mem \<Rightarrow> mem res" where
  "StoreValueToMemory env Val Ptr t m =
     (if custom_copy env t
      then if store_bytes env t > 8 then Inl BufferOverflow
           else mem_write m Ptr (bytes_of (store_bytes env t) (PointerVal Val))
      else ee_store env Val Ptr t m)"

text \<open>The interpreter with its memory and the addresses LLVM keeps for the globals, 0 for none.\<close>

record interp = my_allocs +
  imem :: mem
  gaddr :: "string \<Rightarrow> u64"

text \<open>
  \<open>src\<close> is the value of the pointer operand, \<open>val\<close> that of the stored operand, \<open>i\<close> the load
  instruction as a key of the frame's \<open>Values\<close>.
\<close>

definition visitLoadInst ::
    "llvm_env \<Rightarrow> (map_allocator \<Rightarrow> end_reads) \<Rightarrow> nat \<Rightarrow> gval \<Rightarrow> mty \<Rightarrow> (nat \<Rightarrow> gval option) \<Rightarrow>
     'a interp_scheme \<Rightarrow> (nat \<Rightarrow> gval option) res" where
  "visitLoadInst env er i src t vals s =
     rbind (vvptr2vptr er (allocator s) (PointerVal src)) (\<lambda>Ptr.
     rbind (LoadValueFromMemory env default_gval Ptr t (imem s)) (\<lambda>Result.
       Inr (vals(i \<mapsto> Result))))"

definition visitStoreInst ::
    "llvm_env \<Rightarrow> (map_allocator \<Rightarrow> end_reads) \<Rightarrow> gval \<Rightarrow> gval \<Rightarrow> mty \<Rightarrow>
     'a interp_scheme \<Rightarrow> 'a interp_scheme res" where
  "visitStoreInst env er val src t s =
     rbind (vvptr2vptr er (allocator s) (PointerVal src)) (\<lambda>Ptr.
     rbind (if t = MPtr MFun
            then rbind (vptr2vvptr (allocator s) (PointerVal val)) (\<lambda>GV.
                   Inr (if GV \<noteq> 0 then val\<lparr>PointerVal := GV\<rparr> else val))
            else Inr val) (\<lambda>val'.
     rbind (StoreValueToMemory env val' Ptr t (imem s)) (\<lambda>m.
       Inr (s\<lparr>imem := m\<rparr>))))"

section \<open>Initialising memory from constants\<close>

text \<open>
  Element offsets are products of two \<open>unsigned\<close>, so they are computed in 32 bits.
\<close>

fun InitializeMemory :: "llvm_env \<Rightarrow> cst \<Rightarrow> u64 \<Rightarrow> mem \<Rightarrow> mem res"
and init_elements :: "llvm_env \<Rightarrow> cst list \<Rightarrow> u64 \<Rightarrow> 32 word \<Rightarrow> 32 word \<Rightarrow> mem \<Rightarrow> mem res"
and init_fields :: "llvm_env \<Rightarrow> mty \<Rightarrow> cst list \<Rightarrow> u64 \<Rightarrow> nat \<Rightarrow> mem \<Rightarrow> mem res" where
  "InitializeMemory env (CUndef t) A m = Inr m"
| "InitializeMemory env (CVector t cs) A m =
     init_elements env cs A (word_of_nat (allocSize env (element_ty t))) 0 m"
| "InitializeMemory env (CAggregateZero t) A m = mem_write m A (replicate (allocSize env t) 0)"
| "InitializeMemory env (CArray t cs) A m =
     init_elements env cs A (word_of_nat (allocSize env (element_ty t))) 0 m"
| "InitializeMemory env (CStruct t cs) A m = init_fields env t cs A 0 m"
| "InitializeMemory env (CData t bs) A m = mem_write m A bs"
| "InitializeMemory env (CScalar i t) A m =
     (if isFirstClassType t then StoreValueToMemory env (constantValue env i) A t m
      else Inl AssertFail)"
| "init_elements env [] A es i m = Inr m"
| "init_elements env (c # cs) A es i m =
     rbind (InitializeMemory env c (A + ucast (i * es)) m) (init_elements env cs A es (i + 1))"
| "init_fields env t [] A i m = Inr m"
| "init_fields env t (c # cs) A i m =
     rbind (InitializeMemory env c (A + elementOffset env t i) m) (init_fields env t cs A (Suc i))"

section \<open>Globals\<close>

record iglobal =
  ig_name :: string
  ig_decl :: bool
  ig_ty :: mty
  ig_init :: "cst option"
  ig_tls :: bool

record ifunction =
  if_name :: string
  if_decl :: bool
  if_ptr :: u64

text \<open>
  One global of the loop of \<open>InitializeGlobals\<close>, and the loop: the globals with the thread-local flags
  it restores.
\<close>

definition init_global ::
    "llvm_env \<Rightarrow> (map_allocator \<Rightarrow> end_reads) \<Rightarrow> (string \<Rightarrow> bool option) \<Rightarrow> iglobal \<Rightarrow>
     'a interp_scheme \<Rightarrow> (iglobal \<times> 'a interp_scheme) res" where
  "init_global env er tlmap g s =
     (case ig_init g of
        None \<Rightarrow> Inr (g, s)
      | Some c \<Rightarrow>
          if irx_has (allocator s) (gaddr s (ig_name g))
          then rbind (irx_vvptr2vptr er (allocator s) (gaddr s (ig_name g))) (\<lambda>GA.
            if GA \<noteq> 0
            then let g' = (case tlmap (ig_name g) of None \<Rightarrow> g | Some b \<Rightarrow> g\<lparr>ig_tls := b\<rparr>)
                 in if \<not> ig_tls g'
                    then rbind (InitializeMemory env c GA (imem s)) (\<lambda>m. Inr (g', s\<lparr>imem := m\<rparr>))
                    else Inr (g', s)
            else Inr (g, s))
          else Inr (g, s))"

fun InitializeGlobals ::
    "llvm_env \<Rightarrow> (map_allocator \<Rightarrow> end_reads) \<Rightarrow> (string \<Rightarrow> bool option) \<Rightarrow> iglobal list \<Rightarrow>
     'a interp_scheme \<Rightarrow> (iglobal list \<times> 'a interp_scheme) res" where
  "InitializeGlobals env er tlmap [] s = Inr ([], s)"
| "InitializeGlobals env er tlmap (g # gs) s =
     rbind (init_global env er tlmap g s) (\<lambda>(g', s1).
     rbind (InitializeGlobals env er tlmap gs s1) (\<lambda>(gs', s2). Inr (g' # gs', s2)))"

definition map_global ::
    "llvm_env \<Rightarrow> (map_allocator \<Rightarrow> end_reads) \<Rightarrow> iglobal \<Rightarrow> 'a interp_scheme \<Rightarrow>
     'a interp_scheme res" where
  "map_global env er g s =
     (if ig_decl g \<or> gaddr s (ig_name g) = 0 then Inr s
      else rbind (ma_add er (gaddr s (ig_name g)) (word_of_nat (allocSize env (ig_ty g))) (allocator s))
        (\<lambda>(r, a). Inr (s\<lparr>allocator := a, gaddr := (gaddr s)(ig_name g := ia_vvptr r)\<rparr>)))"

definition map_function ::
    "(map_allocator \<Rightarrow> end_reads) \<Rightarrow> ifunction \<Rightarrow> 'a interp_scheme \<Rightarrow> 'a interp_scheme res" where
  "map_function er f s =
     (if if_decl f \<or> if_ptr f = 0 then Inr s
      else rbind (ma_add er (if_ptr f) 1 (allocator s)) (\<lambda>(r, a). Inr (s\<lparr>allocator := a\<rparr>)))"

fun map_each :: "('x \<Rightarrow> 's \<Rightarrow> 's res) \<Rightarrow> 'x list \<Rightarrow> 's \<Rightarrow> 's res" where
  "map_each step [] s = Inr s"
| "map_each step (x # xs) s = rbind (step x s) (map_each step xs)"

definition updateGlobalMappings ::
    "llvm_env \<Rightarrow> (map_allocator \<Rightarrow> end_reads) \<Rightarrow> iglobal list \<Rightarrow> ifunction list \<Rightarrow>
     'a interp_scheme \<Rightarrow> 'a interp_scheme res" where
  "updateGlobalMappings env er gs fs s =
     rbind (map_each (map_global env er) gs s) (map_each (map_function er) fs)"

lemma init_global_frame:
  "init_global env er tlmap g s = Inr (g', s') \<Longrightarrow>
   allocator s' = allocator s \<and> tracked s' = tracked s \<and> gaddr s' = gaddr s \<and> interp.more s' = interp.more s"
  by (auto simp: init_global_def Let_def split: option.splits if_splits)

lemma InitializeGlobals_frame:
  "InitializeGlobals env er tlmap gs s = Inr (gs', s') \<Longrightarrow>
   allocator s' = allocator s \<and> tracked s' = tracked s \<and> gaddr s' = gaddr s \<and>
   interp.more s' = interp.more s"
  by (induction gs arbitrary: s gs') (auto dest!: init_global_frame)

section \<open>Initialisation stays in bounds\<close>

text \<open>
  Constants that fit their types: the elements of an array or vector have its element type and fit
  in it one after the other, the fields of a structure lie in it, raw data is no longer than its
  type. \<open>store_ok\<close> states what the code relies on of the stores it falls back to: they
  change the bytes of the stored type only.
\<close>

fun cst_ok :: "llvm_env \<Rightarrow> cst \<Rightarrow> bool"
and elements_ok :: "llvm_env \<Rightarrow> mty \<Rightarrow> cst list \<Rightarrow> bool"
and fields_ok :: "llvm_env \<Rightarrow> mty \<Rightarrow> nat \<Rightarrow> cst list \<Rightarrow> bool" where
  "cst_ok env (CUndef t) \<longleftrightarrow> True"
| "cst_ok env (CVector t cs) \<longleftrightarrow>
     elements_ok env (element_ty t) cs \<and>
     length cs * allocSize env (element_ty t) \<le> allocSize env t \<and> allocSize env t < 2 ^ 32 \<and>
     allocSize env (element_ty t) < 2 ^ 32 \<and> length cs < 2 ^ 32"
| "cst_ok env (CAggregateZero t) \<longleftrightarrow> allocSize env t < 2 ^ 32"
| "cst_ok env (CArray t cs) \<longleftrightarrow>
     elements_ok env (element_ty t) cs \<and>
     length cs * allocSize env (element_ty t) \<le> allocSize env t \<and> allocSize env t < 2 ^ 32 \<and>
     allocSize env (element_ty t) < 2 ^ 32 \<and> length cs < 2 ^ 32"
| "cst_ok env (CStruct t cs) \<longleftrightarrow> fields_ok env t 0 cs \<and> allocSize env t < 2 ^ 32"
| "cst_ok env (CData t bs) \<longleftrightarrow> length bs \<le> allocSize env t \<and> allocSize env t < 2 ^ 32"
| "cst_ok env (CScalar i t) \<longleftrightarrow> storeSize env t \<le> allocSize env t"
| "elements_ok env t [] \<longleftrightarrow> True"
| "elements_ok env t (c # cs) \<longleftrightarrow> cst_ok env c \<and> cst_ty c = t \<and> elements_ok env t cs"
| "fields_ok env t i [] \<longleftrightarrow> True"
| "fields_ok env t i (c # cs) \<longleftrightarrow>
     cst_ok env c \<and> unat (elementOffset env t i) + allocSize env (cst_ty c) \<le> allocSize env t \<and>
     fields_ok env t (Suc i) cs"

definition store_ok :: "llvm_env \<Rightarrow> bool" where
  "store_ok env \<longleftrightarrow>
     (\<forall>v p t m m'. ee_store env v p t m = Inr m' \<longrightarrow>
        (\<forall>x. \<not> in_range p (storeSize env t) x \<longrightarrow> m' x = m x))"

definition changes_only :: "u64 \<Rightarrow> nat \<Rightarrow> mem \<Rightarrow> mem \<Rightarrow> bool" where
  "changes_only a n m m' \<longleftrightarrow> (\<forall>x. \<not> in_range a n x \<longrightarrow> m' x = m x)"

lemma changes_only_trans: "changes_only a n m m1 \<Longrightarrow> changes_only a n m1 m2 \<Longrightarrow> changes_only a n m m2"
  by (simp add: changes_only_def)

lemma in_range_sub:
  assumes "in_range (a + off) k x" and "unat off + k \<le> n"
  shows "in_range a n x"
proof -
  have "x - a = (x - (a + off)) + off" by simp
  then have "unat (x - a) \<le> unat (x - (a + off)) + unat off"
    by (metis unat_word_ariths(1) mod_less_eq_dividend)
  then show ?thesis using assms by (simp add: in_range_def)
qed

lemma changes_only_sub:
  "changes_only (a + off) k m m' \<Longrightarrow> unat off + k \<le> n \<Longrightarrow> changes_only a n m m'"
  unfolding changes_only_def using in_range_sub by blast

lemma mem_write_changes:
  assumes "mem_write m a bs = Inr m'" and "length bs \<le> n" and "n < 2 ^ 64"
  shows "changes_only a n m m'"
proof -
  have len: "length bs \<le> 2 ^ 64" using assms(2,3) by linarith
  have "m' = (\<lambda>x. if in_range a (length bs) x then Some (bs ! unat (x - a)) else m x)"
    using mem_write_eq [OF len mem_write_mapped [OF len assms(1)]] assms(1) by simp
  then show ?thesis using assms(2) by (auto simp: changes_only_def in_range_def)
qed

lemma store_changes:
  assumes "StoreValueToMemory env v p t m = Inr m'" and "store_ok env"
  shows "changes_only p (storeSize env t) m m'"
proof (cases "custom_copy env t")
  case True
  then have "store_bytes env t \<le> 8" "mem_write m p (bytes_of (store_bytes env t) (PointerVal v)) = Inr m'"
    using assms(1) by (auto simp: StoreValueToMemory_def split: if_splits)
  then have "changes_only p (store_bytes env t) m m'" by (intro mem_write_changes) auto
  moreover have "store_bytes env t \<le> storeSize env t" by (simp add: store_bytes_def)
  ultimately show ?thesis by (auto simp: changes_only_def in_range_def)
next
  case False
  with assms show ?thesis
    unfolding StoreValueToMemory_def store_ok_def changes_only_def by simp
qed

lemma changes_only_mono: "changes_only a k m m' \<Longrightarrow> k \<le> n \<Longrightarrow> changes_only a n m m'"
  by (auto simp: changes_only_def in_range_def)

lemma element_offset:
  fixes i :: "32 word"
  assumes "unat i + Suc j \<le> k" and "k * sz \<le> n" and "n < 2 ^ 32"
  shows "unat (ucast (i * word_of_nat sz) :: u64) + sz \<le> n"
proof -
  have "(unat i + 1) * sz \<le> k * sz" using assms(1) by (intro mult_right_mono) auto
  then have le: "unat i * sz + sz \<le> n" using assms(2) by (simp add: algebra_simps)
  have "unat (i * word_of_nat sz) \<le> unat i * sz"
  proof -
    have "unat (i * word_of_nat sz) = unat i * (sz mod 2 ^ 32) mod 2 ^ 32"
      by (simp add: unat_word_ariths unsigned_of_nat take_bit_nat_def)
    also have "\<dots> \<le> unat i * (sz mod 2 ^ 32)" by simp
    also have "\<dots> \<le> unat i * sz" by simp
    finally show ?thesis .
  qed
  moreover have "unat (ucast (i * word_of_nat sz) :: u64) = unat (i * word_of_nat sz)"
    by (simp add: unsigned_ucast_eq take_bit_nat_eq_self_iff) (rule order_less_trans [OF unsigned_less], simp)
  ultimately show ?thesis using le by linarith
qed

lemma init_bounds:
  "InitializeMemory env c A m = Inr m' \<Longrightarrow> cst_ok env c \<Longrightarrow> store_ok env \<Longrightarrow>
     changes_only A (allocSize env (cst_ty c)) m m'"
  "init_elements env cs A es i m = Inr m' \<Longrightarrow> elements_ok env t cs \<Longrightarrow> store_ok env \<Longrightarrow>
     es = word_of_nat (allocSize env t) \<Longrightarrow> unat i + length cs \<le> k \<Longrightarrow>
     k * allocSize env t \<le> n \<Longrightarrow> n < 2 ^ 32 \<Longrightarrow> k < 2 ^ 32 \<Longrightarrow> changes_only A n m m'"
  "init_fields env ty cs A j m = Inr m' \<Longrightarrow> fields_ok env ty j cs \<Longrightarrow> store_ok env \<Longrightarrow>
     changes_only A (allocSize env ty) m m'"
proof (induction env c A m and env cs A es i m and env ty cs A j m
    arbitrary: m' and m' t k n and m' rule: InitializeMemory_init_elements_init_fields.induct)
  case (1 env t A m)
  then show ?case by (simp add: changes_only_def)
next
  case (2 env t cs A m)
  then show ?case by (auto intro: 2(1) [of _ "element_ty t" "length cs"])
next
  case (3 env t A m)
  then show ?case by (auto intro: mem_write_changes)
next
  case (4 env t cs A m)
  then show ?case by (auto intro: 4(1) [of _ "element_ty t" "length cs"])
next
  case (5 env t cs A m)
  then show ?case by simp
next
  case (6 env t bs A m)
  then show ?case by (auto intro: mem_write_changes)
next
  case (7 env i t A m)
  then show ?case by (auto split: if_splits intro: changes_only_mono [OF store_changes])
next
  case (8 env A es i m)
  then show ?case by (simp add: changes_only_def)
next
  case (9 env c cs A es i m)
  obtain m1 where m1: "InitializeMemory env c (A + ucast (i * es)) m = Inr m1"
    and rest: "init_elements env cs A es (i + 1) m1 = Inr m'"
    using 9 by auto
  have "changes_only (A + ucast (i * es)) (allocSize env t) m m1"
    using "9.IH"(1) [OF m1] "9.prems" by auto
  then have one: "changes_only A n m m1"
    by (rule changes_only_sub) (use element_offset [of i "length cs" k "allocSize env t" n] 9 in auto)
  have "unat (i + 1) + length cs \<le> k"
    using "9.prems"(5,8) by (simp add: unat_word_ariths)
  then have "changes_only A n m1 m'"
    using "9.IH"(2) [OF m1 rest] "9.prems" by auto
  with one show ?case by (rule changes_only_trans)
next
  case (10 env t A i m)
  then show ?case by (simp add: changes_only_def)
next
  case (11 env t c cs A i m)
  obtain m1 where m1: "InitializeMemory env c (A + elementOffset env t i) m = Inr m1"
    and rest: "init_fields env t cs A (Suc i) m1 = Inr m'"
    using 11 by auto
  have "changes_only (A + elementOffset env t i) (allocSize env (cst_ty c)) m m1"
    using "11.IH"(1) [OF m1] "11.prems" by auto
  then have "changes_only A (allocSize env t) m m1"
    by (rule changes_only_sub) (use 11 in auto)
  moreover have "changes_only A (allocSize env t) m1 m'"
    using "11.IH"(2) [OF m1 rest] "11.prems" by auto
  ultimately show ?case by (rule changes_only_trans)
qed

section \<open>Properties\<close>

text \<open>
  C31. \<open>InitializeMemory\<close> of a constant that fits its type, laid out by the data layout, writes
  inside the memory of that type only, however deeply arrays and structures nest.
\<close>

theorem initialize_memory_bounds:
  assumes "InitializeMemory env c A m = Inr m'" and "cst_ok env c" and "store_ok env"
  shows "\<forall>x. \<not> in_range A (allocSize env (cst_ty c)) x \<longrightarrow> m' x = m x"
  using init_bounds(1) [OF assms] by (simp add: changes_only_def)

text \<open>A data layout with 32-bit pointers, packed structures and little-endian integers.\<close>

fun packed_size :: "mty \<Rightarrow> nat" where
  "packed_size MVoid = 0"
| "packed_size MFun = 0"
| "packed_size (MInt n) = (n + 7) div 8"
| "packed_size MFloat = 8"
| "packed_size (MPtr t) = 4"
| "packed_size (MArr t n) = n * packed_size t"
| "packed_size (MVec t n) = n * packed_size t"
| "packed_size (MStruct s ts) = sum_list (map packed_size ts)"

definition packed_env :: llvm_env where
  "packed_env =
     \<lparr>storeSize = packed_size, allocSize = packed_size,
      elementOffset = (\<lambda>t i. case t of MStruct s ts \<Rightarrow> word_of_nat (sum_list (map packed_size (take i ts)))
                           | _ \<Rightarrow> 0),
      constantValue = (\<lambda>i. \<lparr>PointerVal = word_of_nat i, IntVal = int i\<rparr>),
      ee_load = (\<lambda>r p t m. rbind (mem_read m p (packed_size t)) (\<lambda>bs.
        Inr \<lparr>PointerVal = of_bytes bs, IntVal = uint (of_bytes bs)\<rparr>)),
      ee_store = (\<lambda>v p t m. if packed_size t \<le> 8 then mem_write m p (bytes_of (packed_size t) (PointerVal v))
        else Inl AssertFail)\<rparr>"

lemma packed_store_ok: "store_ok packed_env"
proof -
  have "m' x = m x" if "mem_write m p (bytes_of (packed_size t) v) = Inr m'"
    "\<not> in_range p (packed_size t) x" "packed_size t \<le> 8" for m m' p t v x
    using mem_write_changes [OF that(1), of "packed_size t"] that(2,3) by (auto simp: changes_only_def)
  then show ?thesis by (auto simp: store_ok_def packed_env_def split: if_splits)
qed

definition pair_cst :: cst where
  "pair_cst = CStruct (MStruct ''struct.pair'' [MPtr (MInt 8), MArr (MInt 16) 2])
     [CScalar 0x50000004 (MPtr (MInt 8)), CData (MArr (MInt 16) 2) [1, 0, 2, 0]]"

theorem initialize_memory_bounds_witness:
  "\<exists>m'. InitializeMemory packed_env pair_cst 0x1000 (\<lambda>a. Some 0xFF) = Inr m' \<and>
     m' 0x1008 = Some 0xFF"
proof -
  have ok: "cst_ok packed_env pair_cst"
    by (simp add: pair_cst_def packed_env_def)
  have sv: "StoreValueToMemory packed_env v p (MPtr t) m = mem_write m p (bytes_of 4 (PointerVal v))"
    for v p t m by (simp add: StoreValueToMemory_def custom_copy_def store_bytes_def packed_env_def)
  obtain m1 where m1: "mem_write (\<lambda>a. Some 0xFF) 0x1000
      (bytes_of 4 (PointerVal (constantValue packed_env 0x50000004))) = Inr m1" "\<forall>x. m1 x \<noteq> None"
    using mem_write_total [of "\<lambda>a. Some 0xFF" "bytes_of 4 _" "0x1000"] by fastforce
  obtain m' where m2: "mem_write m1 0x1004 [1, 0, 2, 0] = Inr m'"
    using mem_write_total [OF m1(2), of "[1, 0, 2, 0]" "0x1004"] by fastforce
  have "elementOffset packed_env (MStruct ''struct.pair'' [MPtr (MInt 8), MArr (MInt 16) 2]) i =
      (if i = 0 then 0 else if i = 1 then 4 else 8)" for i
    by (cases i) (auto simp: packed_env_def take_Cons split: nat.splits)
  with m1(1) m2 have m': "InitializeMemory packed_env pair_cst 0x1000 (\<lambda>a. Some 0xFF) = Inr m'"
    by (simp add: pair_cst_def isFirstClassType_def sv)
  have sz: "allocSize packed_env (cst_ty pair_cst) = 8"
    by (simp add: pair_cst_def packed_env_def)
  from initialize_memory_bounds [OF m' ok packed_store_ok] show ?thesis
    using m' by (auto simp: sz in_range_def)
qed

lemma stored_pointer_loads:
  assumes "storeSize env (MPtr t) = n" and "n < 8" and "t \<noteq> MFun"
    and "visitStoreInst env er val src (MPtr t) s = Inr s'"
  shows "visitLoadInst env er i src (MPtr t) vals s' =
      Inr (vals(i \<mapsto> default_gval\<lparr>PointerVal := take_bit (8 * n) (PointerVal val)\<rparr>)) \<and>
    allocator s' = allocator s \<and>
    (\<exists>p. vvptr2vptr er (allocator s) (PointerVal src) = Inr p \<and>
       (\<forall>x. \<not> in_range p n x \<longrightarrow> imem s' x = imem s x))"
proof -
  have sb: "store_bytes env (MPtr t) = n" "custom_copy env (MPtr t)"
    using assms(1,2) by (simp_all add: store_bytes_def custom_copy_def)
  obtain p m where p: "vvptr2vptr er (allocator s) (PointerVal src) = Inr p"
    and m: "mem_write (imem s) p (bytes_of n (PointerVal val)) = Inr m" and s': "s' = s\<lparr>imem := m\<rparr>"
    using assms(2-4) sb by (auto simp: visitStoreInst_def StoreValueToMemory_def)
  have "rbind (mem_read m p n) (\<lambda>bs. Inr (of_bytes bs)) = Inr (take_bit (8 * n) (PointerVal val))"
    using host.object_roundtrip [OF _ m] assms(2) by simp
  then have "rbind (mem_read m p n) (\<lambda>bs. Inr (default_gval\<lparr>PointerVal := of_bytes bs\<rparr>)) =
      Inr (default_gval\<lparr>PointerVal := take_bit (8 * n) (PointerVal val)\<rparr>)"
    by (cases "mem_read m p n") auto
  moreover have "changes_only p n (imem s) m" using mem_write_changes [OF m, of n] assms(2) by simp
  ultimately show ?thesis using p sb s' assms(2)
    by (simp add: visitLoadInst_def LoadValueFromMemory_def changes_only_def)
qed

text \<open>
  A stored pointer comes back. On a target whose pointers are shorter than eight bytes, a
  successful store of a data pointer followed by a load through the same interpreter address
  gives the pointer cut to the target's size, everything else of the loaded value reset; the
  store changes no byte outside the \<open>n\<close> bytes at the translated address and leaves the
  allocator alone.
\<close>

theorem store_then_load_pointer:
  assumes "storeSize env (MPtr t) = n" and "n < 8" and "t \<noteq> MFun"
    and "visitStoreInst env er val src (MPtr t) s = Inr s'"
  shows "visitLoadInst env er i src (MPtr t) vals s' =
      Inr (vals(i \<mapsto> default_gval\<lparr>PointerVal := take_bit (8 * n) (PointerVal val)\<rparr>)) \<and>
    allocator s' = allocator s \<and>
    (\<exists>p. vvptr2vptr er (allocator s) (PointerVal src) = Inr p \<and>
       (\<forall>x. \<not> in_range p n x \<longrightarrow> imem s' x = imem s x))"
  using assms by (rule stored_pointer_loads)

theorem store_then_load_pointer_witness:
  "\<exists>s'. visitStoreInst packed_env junk_reads (default_gval\<lparr>PointerVal := 0x50000004\<rparr>)
       (default_gval\<lparr>PointerVal := 0x50000000\<rparr>) (MPtr MVoid)
       \<lparr>allocator = one_block, tracked = [], imem = (\<lambda>a. Some 0), gaddr = (\<lambda>n. 0)\<rparr> = Inr s' \<and>
     visitLoadInst packed_env junk_reads 7 (default_gval\<lparr>PointerVal := 0x50000000\<rparr>) (MPtr MVoid)
       Map.empty s' = Inr [7 \<mapsto> default_gval\<lparr>PointerVal := 0x50000004\<rparr>]"
proof -
  let ?s = "\<lparr>allocator = one_block, tracked = [], imem = (\<lambda>a. Some 0), gaddr = (\<lambda>n. 0)\<rparr> :: interp"
  let ?v = "default_gval\<lparr>PointerVal := 0x50000004\<rparr>" and ?src = "default_gval\<lparr>PointerVal := 0x50000000\<rparr>"
  have rel: "blk_rel one_block [blk0]" using one_block_inv by (simp add: ma_inv_def ma_core_def)
  have tr: "vvptr2vptr junk_reads one_block 0x50000000 = Inr 0x7000"
    by (simp add: vvptr2vptr_def irx_has_iff [OF rel] irx_vvptr2vptr_eq [OF rel junk_reads_ok]
        lookup_blk_def covers_def host_addr_def)
  obtain m where "mem_write (\<lambda>a. Some 0) 0x7000 (bytes_of 4 0x50000004) = Inr m"
    using mem_write_total [of "\<lambda>a. Some 0" "bytes_of 4 0x50000004" "0x7000"] by auto
  then have st: "visitStoreInst packed_env junk_reads ?v ?src (MPtr MVoid) ?s = Inr (?s\<lparr>imem := m\<rparr>)"
    by (simp add: visitStoreInst_def tr StoreValueToMemory_def custom_copy_def store_bytes_def
        packed_env_def)
  have sz: "storeSize packed_env (MPtr MVoid) = 4" by (simp add: packed_env_def)
  have tb: "take_bit 32 (0x50000004 :: u64) = 0x50000004" by simp
  from store_then_load_pointer [OF sz _ _ st, of 7 Map.empty] st tb show ?thesis by auto
qed

section \<open>Mapping the globals\<close>

lemma ma_add_InrE:
  assumes inv: "ma_inv a bs" and er: "end_reads_ok er" and fits: "vma_fits sz (ma_vma a)"
    and v: "p \<in> set (host_live a)" "p \<notin> b_vptr ` set bs"
    and run: "ma_add er p sz a = Inr (r, a')"
  obtains "\<not> exhausted sz a" and "ia_vvptr r = lastAllocAddr (ma_vma a)"
    and "ma_inv a' (bs @ [new_blk p sz a])" and "host_live a' = host_live a"
    and "\<forall>z. vma_fits z (ma_vma a') = vma_fits z (ma_vma a)"
proof -
  have c: "ma_core a bs" using inv by (simp add: ma_inv_def)
  have ex: "\<not> exhausted sz a"
    using run vma_next_cases [OF ma_coreD(2) [OF c] fits]
    by (auto simp: ma_add_def exhausted_def)
  from ma_add_core [OF c er fits ex v] run have
    "ia_vvptr r = lastAllocAddr (ma_vma a)" "host_live a' = host_live a"
    "vma_next sz (ma_vma a) = Inr (lastAllocAddr (ma_vma a), ma_vma a')"
    by auto
  moreover from ma_add_inv [OF inv er fits ex v] run have "ma_inv a' (bs @ [new_blk p sz a])" by auto
  ultimately show ?thesis using that ex vma_next_fits by metis
qed

text \<open>The globals and functions that get a mapping, as address and size.\<close>

definition mappable_global :: "'a interp_scheme \<Rightarrow> iglobal \<Rightarrow> bool" where
  "mappable_global s g \<longleftrightarrow> \<not> ig_decl g \<and> gaddr s (ig_name g) \<noteq> 0"

definition global_size :: "llvm_env \<Rightarrow> iglobal \<Rightarrow> u64" where
  "global_size env g = word_of_nat (allocSize env (ig_ty g))"

definition maps_to :: "llvm_env \<Rightarrow> 'a interp_scheme \<Rightarrow> 'a interp_scheme \<Rightarrow> blk list \<Rightarrow> iglobal \<Rightarrow> bool" where
  "maps_to env s s' nbs g \<longleftrightarrow>
     (if mappable_global s g
      then \<exists>b \<in> set nbs. gaddr s' (ig_name g) = b_lo b \<and> b_vptr b = gaddr s (ig_name g) \<and>
        b_hi b = b_lo b + global_size env g
      else gaddr s' (ig_name g) = gaddr s (ig_name g))"

lemma maps_to_weaken:
  "maps_to env s1 s' nbs h \<Longrightarrow> gaddr s1 (ig_name h) = gaddr s (ig_name h) \<Longrightarrow>
   maps_to env s s' (b # nbs) h"
  by (auto simp: maps_to_def mappable_global_def)

lemma map_global_step:
  assumes "ma_inv (allocator s) bs" and "end_reads_ok er" and "mappable_global s g"
    and "gaddr s (ig_name g) \<in> set (host_live (allocator s))" and "gaddr s (ig_name g) \<notin> b_vptr ` set bs"
    and "vma_fits (global_size env g) (ma_vma (allocator s))" and "map_global env er g s = Inr s1"
  obtains b where "ma_inv (allocator s1) (bs @ [b])" and "gaddr s1 = (gaddr s)(ig_name g := b_lo b)"
    and "b_vptr b = gaddr s (ig_name g)" and "b_hi b = b_lo b + global_size env g"
    and "host_live (allocator s1) = host_live (allocator s)"
    and "\<forall>z. vma_fits z (ma_vma (allocator s1)) = vma_fits z (ma_vma (allocator s))"
proof -
  let ?p = "gaddr s (ig_name g)" and ?sz = "global_size env g"
  obtain r a where add: "ma_add er ?p ?sz (allocator s) = Inr (r, a)"
    and s1: "s1 = s\<lparr>allocator := a, gaddr := (gaddr s)(ig_name g := ia_vvptr r)\<rparr>"
    using assms(3,7) by (auto simp: map_global_def mappable_global_def global_size_def)
  let ?b = "new_blk ?p ?sz (allocator s)"
  obtain "ia_vvptr r = b_lo ?b" "ma_inv a (bs @ [?b])" "host_live a = host_live (allocator s)"
    "\<forall>z. vma_fits z (ma_vma a) = vma_fits z (ma_vma (allocator s))"
    using ma_add_InrE [OF assms(1,2,6,4,5) add] by (metis blk.sel(1) new_blk_def)
  then show ?thesis using that [of ?b] by (simp add: s1 new_blk_def)
qed

text \<open>
  What the loop over the globals starts from: the mappable globals lie in live host memory no
  block has yet, each in its own, and there is address space for them. One global mapped, the
  others find the same.
\<close>

definition globals_mappable :: "llvm_env \<Rightarrow> 'a interp_scheme \<Rightarrow> blk list \<Rightarrow> iglobal list \<Rightarrow> bool" where
  "globals_mappable env s bs gs \<longleftrightarrow>
     (\<forall>g \<in> set gs. mappable_global s g \<longrightarrow>
        gaddr s (ig_name g) \<in> set (host_live (allocator s)) \<and>
        gaddr s (ig_name g) \<notin> b_vptr ` set bs \<and> vma_fits (global_size env g) (ma_vma (allocator s))) \<and>
     distinct (map ig_name gs) \<and>
     inj_on (\<lambda>g. gaddr s (ig_name g)) {g \<in> set gs. mappable_global s g}"

lemma globals_mappable_tl: "globals_mappable env s bs (g # gs) \<Longrightarrow> globals_mappable env s bs gs"
  by (auto simp: globals_mappable_def inj_on_def)

lemma globals_mappable_step:
  assumes "globals_mappable env s bs (g # gs)" and "mappable_global s g"
    and "gaddr s1 = (gaddr s)(ig_name g := p)" and "b_vptr b = gaddr s (ig_name g)"
    and "host_live (allocator s1) = host_live (allocator s)"
    and "\<forall>z. vma_fits z (ma_vma (allocator s1)) = vma_fits z (ma_vma (allocator s))"
  shows "\<forall>h \<in> set gs. gaddr s1 (ig_name h) = gaddr s (ig_name h) \<and>
      mappable_global s1 h = mappable_global s h"
    and "globals_mappable env s1 (bs @ [b]) gs"
proof -
  have nd: "ig_name g \<notin> ig_name ` set gs" using assms(1) by (simp add: globals_mappable_def)
  have same: "gaddr s1 (ig_name h) = gaddr s (ig_name h) \<and> mappable_global s1 h = mappable_global s h"
    if "h \<in> set gs" for h
  proof -
    have "ig_name h \<noteq> ig_name g" using nd that by (metis imageI)
    then show ?thesis by (simp add: assms(3) mappable_global_def)
  qed
  then show "\<forall>h \<in> set gs. gaddr s1 (ig_name h) = gaddr s (ig_name h) \<and>
      mappable_global s1 h = mappable_global s h" by blast
  have "gaddr s (ig_name h) \<noteq> gaddr s (ig_name g)" if "h \<in> set gs" "mappable_global s h" for h
    using assms(1,2) that nd by (auto simp: globals_mappable_def dest!: inj_onD)
  moreover have "inj_on (\<lambda>h. gaddr s1 (ig_name h)) {h \<in> set gs. mappable_global s1 h}"
    using assms(1) same by (auto simp: globals_mappable_def inj_on_def)
  ultimately show "globals_mappable env s1 (bs @ [b]) gs"
    using assms same by (auto simp: globals_mappable_def)
qed

lemma map_globals_inv:
  assumes "ma_inv (allocator s) bs" and "end_reads_ok er" and "globals_mappable env s bs gs"
    and "map_each (map_global env er) gs s = Inr s'"
  shows "\<exists>nbs. ma_inv (allocator s') (bs @ nbs) \<and>
    b_vptr ` set nbs = (\<lambda>g. gaddr s (ig_name g)) ` {g \<in> set gs. mappable_global s g} \<and>
    (\<forall>n. n \<notin> ig_name ` set gs \<longrightarrow> gaddr s' n = gaddr s n) \<and>
    (\<forall>g \<in> set gs. maps_to env s s' nbs g) \<and>
    host_live (allocator s') = host_live (allocator s) \<and>
    (\<forall>z. vma_fits z (ma_vma (allocator s')) = vma_fits z (ma_vma (allocator s)))"
  using assms(1,3,4)
proof (induction gs arbitrary: s bs)
  case Nil
  then show ?case by (intro exI [of _ "[]"]) simp
next
  case (Cons g gs)
  obtain s1 where s1: "map_global env er g s = Inr s1" and rest: "map_each (map_global env er) gs s1 = Inr s'"
    using Cons.prems by auto
  have nd: "ig_name g \<notin> ig_name ` set gs" using Cons.prems(2) by (simp add: globals_mappable_def)
  show ?case
  proof (cases "mappable_global s g")
    case False
    then have "s1 = s" using s1 by (auto simp: map_global_def mappable_global_def)
    moreover have "{h \<in> set (g # gs). mappable_global s h} = {h \<in> set gs. mappable_global s h}"
      using False by auto
    ultimately show ?thesis
      using Cons.IH [of s bs, OF Cons.prems(1) globals_mappable_tl [OF Cons.prems(2)]] rest False nd
      by (auto simp: maps_to_def)
  next
    case True
    then have pre: "gaddr s (ig_name g) \<in> set (host_live (allocator s))"
      "gaddr s (ig_name g) \<notin> b_vptr ` set bs" "vma_fits (global_size env g) (ma_vma (allocator s))"
      using Cons.prems(2) by (simp_all add: globals_mappable_def)
    obtain b where inv1: "ma_inv (allocator s1) (bs @ [b])" and ga: "gaddr s1 = (gaddr s)(ig_name g := b_lo b)"
      and gb: "b_vptr b = gaddr s (ig_name g)" "b_hi b = b_lo b + global_size env g"
      and hl: "host_live (allocator s1) = host_live (allocator s)"
      and fz: "\<forall>z. vma_fits z (ma_vma (allocator s1)) = vma_fits z (ma_vma (allocator s))"
      using map_global_step [OF Cons.prems(1) assms(2) True pre s1] by metis
    note next1 = globals_mappable_step [OF Cons.prems(2) True ga gb(1) hl fz]
    obtain nbs where n: "ma_inv (allocator s') ((bs @ [b]) @ nbs)"
      "b_vptr ` set nbs = (\<lambda>h. gaddr s1 (ig_name h)) ` {h \<in> set gs. mappable_global s1 h}"
      "\<forall>n. n \<notin> ig_name ` set gs \<longrightarrow> gaddr s' n = gaddr s1 n"
      "\<forall>h \<in> set gs. maps_to env s1 s' nbs h"
      "host_live (allocator s') = host_live (allocator s1)"
      "\<forall>z. vma_fits z (ma_vma (allocator s')) = vma_fits z (ma_vma (allocator s1))"
      using Cons.IH [OF inv1 next1(2) rest] by blast
    have vp: "b_vptr ` set (b # nbs) =
        (\<lambda>h. gaddr s (ig_name h)) ` {h \<in> set (g # gs). mappable_global s h}"
      using n(2) next1(1) True gb by (auto simp: image_iff)
    have "maps_to env s s' (b # nbs) g" using True gb n(3) nd by (simp add: maps_to_def ga)
    moreover have "maps_to env s s' (b # nbs) h" if "h \<in> set gs" for h
      using n(4) next1(1) that by (auto intro: maps_to_weaken)
    moreover have "\<forall>n. n \<notin> ig_name ` set (g # gs) \<longrightarrow> gaddr s' n = gaddr s n"
      using n(3) by (auto simp: ga)
    ultimately show ?thesis using n(1,5,6) vp hl fz
      by (intro exI [of _ "b # nbs"]) simp
  qed
qed

definition mappable_function :: "ifunction \<Rightarrow> bool" where
  "mappable_function f \<longleftrightarrow> \<not> if_decl f \<and> if_ptr f \<noteq> 0"

lemma map_functions_inv:
  assumes "ma_inv (allocator s) bs" and "end_reads_ok er"
    and "\<forall>f \<in> set fs. mappable_function f \<longrightarrow>
      if_ptr f \<in> set (host_live (allocator s)) \<and> if_ptr f \<notin> b_vptr ` set bs"
    and "vma_fits 1 (ma_vma (allocator s))" and "distinct (map if_ptr (filter mappable_function fs))"
    and "map_each (map_function er) fs s = Inr s'"
  shows "\<exists>nbs. ma_inv (allocator s') (bs @ nbs) \<and> gaddr s' = gaddr s \<and>
    b_vptr ` set nbs = if_ptr ` {f \<in> set fs. mappable_function f}"
  using assms(1,3-6)
proof (induction fs arbitrary: s bs)
  case Nil
  then show ?case by (intro exI [of _ "[]"]) simp
next
  case (Cons f fs)
  obtain s1 where s1: "map_function er f s = Inr s1" and rest: "map_each (map_function er) fs s1 = Inr s'"
    using Cons.prems by auto
  show ?case
  proof (cases "mappable_function f")
    case False
    then have "s1 = s" using s1 by (auto simp: map_function_def mappable_function_def)
    moreover have "{h \<in> set (f # fs). mappable_function h} = {h \<in> set fs. mappable_function h}"
      using False by auto
    ultimately show ?thesis using Cons.IH [of s bs] Cons.prems rest False by simp
  next
    case True
    obtain r a where add: "ma_add er (if_ptr f) 1 (allocator s) = Inr (r, a)"
      and s1': "s1 = s\<lparr>allocator := a\<rparr>"
      using s1 True by (auto simp: map_function_def mappable_function_def)
    let ?b = "new_blk (if_ptr f) 1 (allocator s)"
    have pre: "if_ptr f \<in> set (host_live (allocator s))" "if_ptr f \<notin> b_vptr ` set bs"
      using Cons.prems(2) True by auto
    obtain inv1: "ma_inv a (bs @ [?b])" and hl: "host_live a = host_live (allocator s)"
      and fz: "\<forall>z. vma_fits z (ma_vma a) = vma_fits z (ma_vma (allocator s))"
      using ma_add_InrE [OF Cons.prems(1) assms(2) Cons.prems(3) pre add] by metis
    have "if_ptr h \<noteq> if_ptr f" if "h \<in> set fs" "mappable_function h" for h
      using Cons.prems(4) True that by (simp add: image_iff) metis
    then have "\<forall>h \<in> set fs. mappable_function h \<longrightarrow>
        if_ptr h \<in> set (host_live (allocator s1)) \<and> if_ptr h \<notin> b_vptr ` set (bs @ [?b])"
      using Cons.prems(2) hl by (simp add: s1' new_blk_def)
    moreover have "ma_inv (allocator s1) (bs @ [?b])" "vma_fits 1 (ma_vma (allocator s1))"
      using inv1 fz Cons.prems(3) by (simp_all add: s1')
    moreover have "distinct (map if_ptr (filter mappable_function fs))" using Cons.prems(4) by (simp split: if_splits)
    ultimately obtain nbs where n: "ma_inv (allocator s') ((bs @ [?b]) @ nbs)" "gaddr s' = gaddr s1"
      "b_vptr ` set nbs = if_ptr ` {f \<in> set fs. mappable_function f}"
      using Cons.IH [OF _ _ _ _ rest, of "bs @ [?b]"] by blast
    have "b_vptr ` set (?b # nbs) = if_ptr ` {h \<in> set (f # fs). mappable_function h}"
      using n(3) True by (auto simp: new_blk_def image_iff)
    moreover have "ma_inv (allocator s') (bs @ ?b # nbs)" "gaddr s' = gaddr s"
      using n(1,2) by (simp_all add: s1')
    ultimately show ?thesis by blast
  qed
qed

lemma block_translates:
  assumes inv: "ma_inv a bs" and er: "end_reads_ok er" and b: "b \<in> set bs" and off: "off \<le> b_hi b - b_lo b"
  shows "vvptr2vptr er a (b_lo b + off) = Inr (b_vptr b + off)"
    and "vptr2vvptr a (b_vptr b) = Inr (b_lo b)"
    and "irx_has a (b_lo b + off)" and "irx_vvptr2vptr er a (b_lo b + off) = Inr (b_vptr b + off)"
proof -
  have c: "ma_core a bs" using inv by (simp add: ma_inv_def)
  note rel = ma_coreD(1) [OF c] and ok = ma_coreD(4) [OF c]
  have le: "b_lo b \<le> b_hi b" using blks_ok_le [OF ok b] .
  have u: "unat (b_hi b - b_lo b) = unat (b_hi b) - unat (b_lo b)" using le by (simp add: unat_sub)
  have "unat (b_lo b) + unat off < 2 ^ 64"
    using off u le u64_unat_lt [of "b_hi b"] by (simp add: u64_cmp_nat)
  then have s: "unat (b_lo b + off) = unat (b_lo b) + unat off" by (rule unat_add_nowrap)
  then have cov: "covers (b_lo b + off) b"
    using off u le by (simp add: covers_def u64_cmp_nat)
  then have "lookup_blk bs (b_lo b + off) = Some b" using b by (simp add: lookup_blk_Some_iff [OF ok])
  with b cov show has: "irx_has a (b_lo b + off)"
    and irx: "irx_vvptr2vptr er a (b_lo b + off) = Inr (b_vptr b + off)"
    by (auto simp: irx_has_iff [OF rel] irx_vvptr2vptr_eq [OF rel er] host_addr_def covers_def)
  then show "vvptr2vptr er a (b_lo b + off) = Inr (b_vptr b + off)" by (simp add: vvptr2vptr_def)
  have "find (\<lambda>c. b_vptr c = b_vptr b) bs = Some b"
    using b ma_coreD(3) [OF c] by (intro find_Some_unique)
      (auto simp: vptrs_distinct_def distinct_map dest: inj_onD)
  then show "vptr2vvptr a (b_vptr b) = Inr (b_lo b)" by (simp add: vptr2vvptr_eq [OF rel])
qed

text \<open>The same for a whole module: its functions have host pointers of their own, too.\<close>

definition module_mappable ::
    "llvm_env \<Rightarrow> 'a interp_scheme \<Rightarrow> blk list \<Rightarrow> iglobal list \<Rightarrow> ifunction list \<Rightarrow> bool" where
  "module_mappable env s bs gs fs \<longleftrightarrow> globals_mappable env s bs gs \<and>
     (\<forall>f \<in> set fs. mappable_function f \<longrightarrow>
        if_ptr f \<in> set (host_live (allocator s)) \<and> if_ptr f \<notin> b_vptr ` set bs \<and>
        (\<forall>g \<in> set gs. mappable_global s g \<longrightarrow> gaddr s (ig_name g) \<noteq> if_ptr f)) \<and>
     distinct (map if_ptr (filter mappable_function fs)) \<and> vma_fits 1 (ma_vma (allocator s))"

lemma mappings_blocks:
  assumes "ma_inv (allocator s) bs" and "end_reads_ok er" and "module_mappable env s bs gs fs"
    and "updateGlobalMappings env er gs fs s = Inr s'"
  shows "\<exists>nbs fbs. ma_inv (allocator s') (bs @ nbs @ fbs) \<and>
    b_vptr ` set fbs = if_ptr ` {f \<in> set fs. mappable_function f} \<and>
    (\<forall>n. n \<notin> ig_name ` set gs \<longrightarrow> gaddr s' n = gaddr s n) \<and>
    (\<forall>g \<in> set gs. maps_to env s s' nbs g)"
proof -
  obtain s1 where s1: "map_each (map_global env er) gs s = Inr s1"
    and s': "map_each (map_function er) fs s1 = Inr s'"
    using assms(4) by (auto simp: updateGlobalMappings_def)
  obtain nbs where n: "ma_inv (allocator s1) (bs @ nbs)"
    "b_vptr ` set nbs = (\<lambda>g. gaddr s (ig_name g)) ` {g \<in> set gs. mappable_global s g}"
    "\<forall>g \<in> set gs. maps_to env s s1 nbs g" "\<forall>n. n \<notin> ig_name ` set gs \<longrightarrow> gaddr s1 n = gaddr s n"
    "host_live (allocator s1) = host_live (allocator s)"
    "\<forall>z. vma_fits z (ma_vma (allocator s1)) = vma_fits z (ma_vma (allocator s))"
    using map_globals_inv [OF assms(1,2) _ s1] assms(3) unfolding module_mappable_def by blast
  have "\<forall>f \<in> set fs. mappable_function f \<longrightarrow>
      if_ptr f \<in> set (host_live (allocator s1)) \<and> if_ptr f \<notin> b_vptr ` set (bs @ nbs)"
    unfolding set_append image_Un n(2,5) using assms(3) by (auto simp: module_mappable_def) metis
  then obtain fbs where fb: "ma_inv (allocator s') ((bs @ nbs) @ fbs)" "gaddr s' = gaddr s1"
    "b_vptr ` set fbs = if_ptr ` {f \<in> set fs. mappable_function f}"
    using map_functions_inv [OF n(1) assms(2) _ _ _ s'] n(6) assms(3) unfolding module_mappable_def by blast
  have "\<forall>g \<in> set gs. maps_to env s s' nbs g" using n(3) fb(2) by (simp add: maps_to_def)
  with n(4) fb show ?thesis by auto
qed

lemma mappings_translate:
  assumes "ma_inv (allocator s) bs" and "end_reads_ok er" and "module_mappable env s bs gs fs"
    and "updateGlobalMappings env er gs fs s = Inr s'"
  shows "(\<forall>g \<in> set gs. mappable_global s g \<longrightarrow> (\<forall>off \<le> global_size env g.
      vvptr2vptr er (allocator s') (gaddr s' (ig_name g) + off) = Inr (gaddr s (ig_name g) + off))) \<and>
    (\<forall>f \<in> set fs. mappable_function f \<longrightarrow> (\<exists>v. vptr2vvptr (allocator s') (if_ptr f) = Inr v \<and>
      vvptr2vptr er (allocator s') v = Inr (if_ptr f)))"
proof -
  obtain nbs fbs where fb: "ma_inv (allocator s') (bs @ nbs @ fbs)"
    "b_vptr ` set fbs = if_ptr ` {f \<in> set fs. mappable_function f}"
    "\<forall>g \<in> set gs. maps_to env s s' nbs g"
    using mappings_blocks [OF assms] by blast
  have "vvptr2vptr er (allocator s') (gaddr s' (ig_name g) + off) = Inr (gaddr s (ig_name g) + off)"
    if "g \<in> set gs" "mappable_global s g" "off \<le> global_size env g" for g off
  proof -
    from fb(3) that(1) have "maps_to env s s' nbs g" by blast
    with that(2) obtain b where "b \<in> set nbs" "gaddr s' (ig_name g) = b_lo b"
      "b_vptr b = gaddr s (ig_name g)" "b_hi b = b_lo b + global_size env g"
      by (auto simp: maps_to_def)
    with block_translates(1) [OF fb(1) assms(2), of b off] that(3) show ?thesis by simp
  qed
  moreover have "\<exists>v. vptr2vvptr (allocator s') (if_ptr f) = Inr v \<and>
      vvptr2vptr er (allocator s') v = Inr (if_ptr f)" if "f \<in> set fs" "mappable_function f" for f
  proof -
    have "if_ptr f \<in> b_vptr ` set fbs" using fb(2) that by blast
    then obtain b where "b \<in> set fbs" "b_vptr b = if_ptr f" by auto
    with block_translates [OF fb(1) assms(2), of b 0] show ?thesis by auto
  qed
  ultimately show ?thesis by blast
qed

text \<open>
  After \<open>updateGlobalMappings\<close>, when it returns: every address of a defined global, counted
  from the interpreter address now registered for it, translates to the same offset of the
  memory LLVM gave it, and every defined function has an interpreter address that translates to
  it and back. Asked for are globals with different names, and host pointers that are alive,
  different, and not yet mapped.
\<close>

theorem update_global_mappings:
  assumes "ma_inv (allocator s) bs" and "end_reads_ok er" and "module_mappable env s bs gs fs"
    and "updateGlobalMappings env er gs fs s = Inr s'"
  shows "(\<forall>g \<in> set gs. mappable_global s g \<longrightarrow> (\<forall>off \<le> global_size env g.
      vvptr2vptr er (allocator s') (gaddr s' (ig_name g) + off) = Inr (gaddr s (ig_name g) + off))) \<and>
    (\<forall>f \<in> set fs. mappable_function f \<longrightarrow> (\<exists>v. vptr2vvptr (allocator s') (if_ptr f) = Inr v \<and>
      vvptr2vptr er (allocator s') v = Inr (if_ptr f)))"
  using assms by (rule mappings_translate)

theorem update_global_mappings_witness:
  "\<exists>s'. updateGlobalMappings packed_env junk_reads
       [\<lparr>ig_name = ''x'', ig_decl = False, ig_ty = MInt 32, ig_init = None, ig_tls = False\<rparr>]
       [\<lparr>if_name = ''main'', if_decl = False, if_ptr = 0x8000\<rparr>]
       \<lparr>allocator = new_map_allocator [0x7000, 0x8000], tracked = [], imem = Map.empty,
        gaddr = (\<lambda>n. 0)(''x'' := 0x7000)\<rparr> = Inr s' \<and>
     gaddr s' ''x'' = 0x50000000 \<and> vvptr2vptr junk_reads (allocator s') 0x50000002 = Inr 0x7002"
proof -
  let ?g = "\<lparr>ig_name = ''x'', ig_decl = False, ig_ty = MInt 32, ig_init = None, ig_tls = False\<rparr>"
  let ?f = "\<lparr>if_name = ''main'', if_decl = False, if_ptr = 0x8000\<rparr>"
  let ?s = "\<lparr>allocator = new_map_allocator [0x7000, 0x8000], tracked = [], imem = Map.empty,
        gaddr = (\<lambda>n. 0)(''x'' := 0x7000)\<rparr> :: interp"
  have inv: "ma_inv (allocator ?s) []" by (simp add: new_map_allocator_inv)
  have "case updateGlobalMappings packed_env junk_reads [?g] [?f] ?s of
      Inl e \<Rightarrow> False | Inr s' \<Rightarrow> gaddr s' ''x'' = 0x50000000" by code_simp
  then obtain s' where s': "updateGlobalMappings packed_env junk_reads [?g] [?f] ?s = Inr s'"
    and x: "gaddr s' ''x'' = 0x50000000"
    by (cases "updateGlobalMappings packed_env junk_reads [?g] [?f] ?s") auto
  have sz: "global_size packed_env ?g = 4" by (simp add: global_size_def packed_env_def)
  have fit: "vma_fits z (ma_vma (allocator ?s))" if "z < 100" for z
    using that by (simp add: vma_fits_def new_map_allocator_def new_vma_def word_less_nat_alt)
  have hl: "host_live (allocator ?s) = [0x7000, 0x8000]" by (simp add: new_map_allocator_def)
  have "module_mappable packed_env ?s [] [?g] [?f]"
    using fit hl by (auto simp: module_mappable_def globals_mappable_def sz mappable_global_def inj_on_def)
  from update_global_mappings [OF inv junk_reads_ok this s']
  have "\<forall>off \<le> global_size packed_env ?g.
      vvptr2vptr junk_reads (allocator s') (gaddr s' (ig_name ?g) + off) = Inr (gaddr ?s (ig_name ?g) + off)"
    by (simp add: mappable_global_def)
  from spec [OF this, of 2] s' x show ?thesis by (simp add: sz)
qed

end
