(* ===== verification/FieldInfo.thy ===== *)
theory FieldInfo
  imports DebugInfo InterpMemory
begin

text \<open>
  What the debug information says about a field (\<open>libirx/irinterpreter2-debug.cc\<close>): the name of
  its basic type, its size, and its \<open>getelementptr\<close> indices. \<open>getStructFieldInfo2\<close> follows a path
  name by name with \<open>GEP\<close>; the older \<open>getStructFieldInfo\<close> walks all fields of a structure and
  compares the path it is at with the one it wants.
\<close>

section \<open>Field information\<close>

type_synonym typed_index = "mty option \<times> nat"

record basic_info =
  basicType :: string
  size_in_bits :: u64
  size_in_bytes :: u64
  gep :: "nat list"
  STys :: "mty option list"

text \<open>The commented-out code would give the indices a type; as it is, they have none.\<close>

definition DITypedIndex2TypedIndex :: "di_typed_index \<Rightarrow> typed_index" where
  "DITypedIndex2TypedIndex DITI = (None, fst DITI)"

definition getStructFieldInfo2 ::
    "nat \<Rightarrow> di_graph \<Rightarrow> nat list \<Rightarrow> string \<Rightarrow> string list \<Rightarrow> di_cache \<Rightarrow>
     (basic_info \<times> di_cache option) res" where
  "getStructFieldInfo2 n g types name needle DICache =
     rbind (DIType2StringType n g None) (\<lambda>unknown.
     let info = \<lparr>basicType = unknown, size_in_bits = 0, size_in_bytes = 0, gep = [], STys = []\<rparr> in
     rbind (findStructDebugInfo g types name (Some DICache)) (\<lambda>(CTy, c).
     rbind (GEP n g CTy needle) (\<lambda>DIGEP.
       if DIGEP \<noteq> []
       then let GEP = map DITypedIndex2TypedIndex DIGEP;
                DITy = snd (last DIGEP)
            in rbind (getDIFieldSize g DITy) (\<lambda>size.
               rbind (resolveDerivedTypeBaseType n g DITy) (\<lambda>rDITy.
               rbind (DIType2StringType n g rDITy) (\<lambda>bt.
                 Inr (info\<lparr>basicType := bt, size_in_bits := word_of_nat size,
                        size_in_bytes := word_of_nat (size div 8),
                        gep := map snd GEP, STys := map fst GEP\<rparr>, c))))
       else Inr (info, c))))"

section \<open>The search by comparing paths\<close>

fun nat_digits :: "nat \<Rightarrow> nat \<Rightarrow> string" where
  "nat_digits 0 i = []"
| "nat_digits (Suc f) i =
     (if i < 10 then [char_of (48 + i)] else nat_digits f (i div 10) @ [char_of (48 + i mod 10)])"

text \<open>\<open>std::to_string\<close> of a \<open>size_t\<close>, which has at most twenty digits.\<close>

definition to_string :: "nat \<Rightarrow> string" where
  "to_string i = nat_digits 20 i"

definition byte_size :: "nat \<Rightarrow> nat res" where
  "byte_size bits = rbind (rassert (bits mod 8 = 0) AssertFail) (\<lambda>u. Inr (bits div 8))"

text \<open>The element type and the number of elements of an array node.\<close>

definition array_info :: "di_graph \<Rightarrow> nat \<Rightarrow> (nat \<times> nat) res" where
  "array_info g c =
     rbind (rassert (length (getElements (g c)) = 1) AssertFail) (\<lambda>u.
       case getBaseType (g c) of
         None \<Rightarrow> Inl NullDeref
       | Some b \<Rightarrow>
           if getSizeInBits (g b) = 0 then Inl DivideByZero
           else Inr (b, getSizeInBits (g c) div getSizeInBits (g b)))"

text \<open>
  The result of a search step is whether it found the field, with the information so far.
  \<open>process_element\<close> and \<open>process_composite_struct\<close> call each other; the second, its loop over the
  elements of a structure with the running \<open>index\<close>, and its loop over the elements of an array
  from \<open>i\<close> on, of which \<open>k\<close> are left, take the first as the argument \<open>pe\<close>. A call of
  \<open>process_element\<close> takes one unit of fuel.
\<close>

type_synonym search = "basic_info \<Rightarrow> nat option \<Rightarrow> string list \<Rightarrow> string list \<Rightarrow> (bool \<times> basic_info) res"

fun field_loop ::
    "search \<Rightarrow> di_graph \<Rightarrow> basic_info \<Rightarrow> bool \<Rightarrow> nat list \<Rightarrow> nat \<Rightarrow> string list \<Rightarrow> string list \<Rightarrow>
     (bool \<times> basic_info) res" where
  "field_loop pe g info is_union [] index path needle = Inr (False, info)"
| "field_loop pe g info is_union (e # es) index path needle =
     (if isDerived (g e)
      then let path' = (if getName (g e) = [] then path else path @ [getName (g e)])
           in rbind (pe info (getBaseType (g e)) path' needle) (\<lambda>(found, info').
                if found then Inr (True, info'\<lparr>gep := gep info' @ [index]\<rparr>)
                else field_loop pe g info' is_union es (if is_union then index else index + 1) path needle)
      else field_loop pe g info is_union es index path needle)"

fun array_loop ::
    "search \<Rightarrow> basic_info \<Rightarrow> nat \<Rightarrow> nat \<Rightarrow> nat \<Rightarrow> string list \<Rightarrow> string list \<Rightarrow> (bool \<times> basic_info) res" where
  "array_loop pe info arrayDITy i 0 path needle = Inr (False, info)"
| "array_loop pe info arrayDITy i (Suc k) path needle =
     rbind (pe info (Some arrayDITy) (path @ [to_string i]) needle) (\<lambda>(found, info').
       if found then Inr (True, info'\<lparr>gep := gep info' @ [i]\<rparr>)
       else array_loop pe info' arrayDITy (Suc i) k path needle)"

definition process_composite_struct :: "search \<Rightarrow> di_graph \<Rightarrow> search" where
  "process_composite_struct pe g info CTy path needle =
     (case CTy of
        None \<Rightarrow> Inl NullDeref
      | Some c \<Rightarrow>
          rbind (field_loop pe g info (getTag (g c) = TagUnion) (getElements (g c)) 0 path needle)
            (\<lambda>(found, info').
              if found then Inr (True, info')
              else if getTag (g c) = TagArray
              then rbind (array_info g c) (\<lambda>(arrayDITy, arraySize).
                   rbind (pe info' (Some arrayDITy) path needle) (\<lambda>(found, info2).
                     if found then Inr (True, info2)
                     else array_loop pe info2 arrayDITy 0 arraySize path needle))
              else Inr (False, info')))"

fun process_element :: "nat \<Rightarrow> di_graph \<Rightarrow> search" where
  "process_element 0 g info DITy path needle = Inl OutOfFuel"
| "process_element (Suc n) g info DITy path needle =
     (case DITy of
        None \<Rightarrow> Inl NullDeref
      | Some d \<Rightarrow>
          let found = (needle = path) in
          if isBasic (g d)
          then if found
               then rbind (byte_size (getSizeInBits (g d))) (\<lambda>b.
                      Inr (True, info\<lparr>basicType := getName (g d),
                        size_in_bits := word_of_nat (getSizeInBits (g d)),
                        size_in_bytes := word_of_nat b\<rparr>))
               else Inr (False, info)
          else if isComposite (g d)
          then if getTag (g d) = TagStructure \<or> getTag (g d) = TagUnion
               then process_composite_struct (process_element n g) g info (Some d) path needle
               else if getTag (g d) = TagArray
               then rbind (array_info g d) (\<lambda>(arrayDITy, arraySize).
                    rbind (process_composite_struct (process_element n g) g info (Some d) path needle)
                      (\<lambda>(found_new, info').
                        Inr (found_new,
                          if found
                          then info'\<lparr>size_in_bits := size_in_bits info' * word_of_nat arraySize,
                                     size_in_bytes := size_in_bytes info' * word_of_nat arraySize\<rparr>
                          else info')))
               else Inl AssertFail
          else if getTag (g d) = TagPointer
          then if found
               then rbind (byte_size (getSizeInBits (g d))) (\<lambda>b.
                      Inr (True, info\<lparr>basicType := ''PTR'',
                        size_in_bits := word_of_nat (getSizeInBits (g d)),
                        size_in_bytes := word_of_nat b\<rparr>))
               else Inr (False, info)
          else if getTag (g d) = TagTypedef
          then process_element n g info (getBaseType (g d)) path needle
          else Inr (found, info))"

text \<open>\<open>~0U\<close> is a 32-bit value.\<close>

definition getStructFieldInfo ::
    "nat \<Rightarrow> di_graph \<Rightarrow> nat list \<Rightarrow> string \<Rightarrow> string list \<Rightarrow> di_cache \<Rightarrow>
     (basic_info \<times> di_cache option) res" where
  "getStructFieldInfo n g types name needle DICache =
     (let info = \<lparr>basicType = ''unknown'', size_in_bits = 0xFFFFFFFF, size_in_bytes = 0xFFFFFFFF,
                  gep = [], STys = []\<rparr> in
      rbind (findStructDebugInfo g types name (Some DICache)) (\<lambda>(CTy, c).
      rbind (process_composite_struct (process_element n g) g info CTy [] needle) (\<lambda>(found, info').
        Inr (if found then info'\<lparr>gep := rev (gep info' @ [0])\<rparr> else info', c))))"


section \<open>The two searches on the test program\<close>

text \<open>
  The expectations of \<open>libirx/tests/gep.cc\<close>: both find the array \<open>name\<close> with its element type;
  the older one with the size of the whole array.
\<close>

definition list_types :: "nat list" where
  "list_types = [8, 10, 13, 0]"

lemma thread_field_info:
  "res_all (getStructFieldInfo2 5 thread_di list_types ''k_thread'' [''name''] Map.empty)
     (\<lambda>(info, c). info = \<lparr>basicType = ''char'', size_in_bits = 512, size_in_bytes = 64,
        gep = [0, 0, 0], STys = [None, None, None]\<rparr>)"
  "res_all (getStructFieldInfo 5 thread_di list_types ''k_thread'' [''name''] Map.empty)
     (\<lambda>(info, c). info = \<lparr>basicType = ''char'', size_in_bits = 512, size_in_bytes = 64,
        gep = [0, 0, 0], STys = []\<rparr>)"
  by code_simp+

text \<open>
  The older search divides by the size of an array's element type, which is not recorded for a
  typedef: it divides by zero on \<open>list\<close> nodes behind the array, where the newer one is fine.
\<close>

lemma old_search_divides_by_zero:
  "case getStructFieldInfo 9 thread_di list_types ''k_thread'' [''ptrs''] Map.empty of
     Inl e \<Rightarrow> e = DivideByZero | Inr x \<Rightarrow> False"
  "res_all (getStructFieldInfo2 9 thread_di list_types ''k_thread'' [''ptrs''] Map.empty)
     (\<lambda>(info, c). gep info = [0, 3])"
  by code_simp+

section \<open>Elements of an array\<close>

text \<open>
  C38. An array of pointers. For a path to an element of an array of pointers to a basic type,
  \<open>getStructFieldInfo2\<close> reports the basic type the pointer points at, and not \<open>PTR\<close> as for a
  pointer member, since it takes the pointer for the member whose base type it has to resolve;
  the size it reports is that of the pointer.
\<close>

theorem array_of_pointers_type:
  assumes "find_type g types name = Some c" and "DICache name = None"
    and "GEP2MemberInfo (Suc n) g (Some c) member = Inr [(k, Some e)]" and "g e = DIDerived TagMember member (Some a) s"
    and "g a = DIComposite TagArray an (Some p) es as" and "g p = DIDerived TagPointer pn (Some b) ps"
    and "g b = DIBasic bn bs" and "ps mod 8 = 0" and "stoi i = Inr (int j)"
  shows "\<exists>info c'. getStructFieldInfo2 (Suc n) g types name [member, i] DICache = Inr (info, c') \<and>
    basicType info = bn \<and> size_in_bits info = word_of_nat ps \<and> gep info = [0, k, j] \<and>
    DIType2StringType (Suc n) g (Some p) = Inr ''PTR''"
proof -
  have f: "findStructDebugInfo g types name (Some DICache) =
      Inr (Some c, Some (DICache(name \<mapsto> Some c)))"
    by (simp add: findStructDebugInfo_def assms(1,2))
  have r: "resolveDerivedTypeBaseType (Suc n) g (Some e) = Inr (Some a)"
    "resolveDerivedTypeBaseType (Suc n) g (Some p) = Inr (Some b)"
    using assms(4-7) by (simp_all add: resolveDerivedTypeBaseType_def)
  have a: "GEP2MemberInfo (Suc n) g (Some a) i = Inr [(j, Some p)]"
    using assms(5,9) by simp
  have "GEP (Suc n) g (Some c) [member, i] = Inr [(0, Some c), (k, Some e), (j, Some p)]"
    unfolding GEP_def using assms(3,5,7) r a
    by (simp add: as_composite_def del: GEP2MemberInfo.simps)
  then show ?thesis using assms(6-8) r f
    by (simp add: getStructFieldInfo2_def getDIFieldSize_def DIType2StringType_def
        DITypedIndex2TypedIndex_def del: GEP2MemberInfo.simps)
qed

theorem array_of_pointers_type_witness:
  "res_all (getStructFieldInfo2 5 thread_di list_types ''k_thread'' [''ptrs'', ''1''] Map.empty)
     (\<lambda>(info, c). basicType info = ''int'' \<and> size_in_bits info = 32 \<and> gep info = [0, 3, 1])"
proof -
  have h: "find_type thread_di list_types ''k_thread'' = Some 0"
    "GEP2MemberInfo (Suc 4) thread_di (Some 0) ''ptrs'' = Inr [(3, Some 19)]"
    "thread_di 19 = DIDerived TagMember ''ptrs'' (Some 20) 128"
    "thread_di 20 = DIComposite TagArray '''' (Some 21) [12] 128"
    "thread_di 21 = DIDerived TagPointer '''' (Some 8) 32" "thread_di 8 = DIBasic ''int'' 32"
    "(32::nat) mod 8 = 0" "stoi ''1'' = Inr (int 1)"
    by code_simp+
  from array_of_pointers_type [OF h(1) _ h(2-8), of Map.empty] show ?thesis
    by (auto simp: res_all_iff)
qed

end
