(* ===== verification/StructAccess.thy ===== *)
theory StructAccess
  imports FieldInfo "HOL-Library.Sublist"
begin

text \<open>
  Access to the fields of a structure in memory by a path of member names
  (\<open>libirx/irinterpreter2-struct.cc\<close>): the offset of a field, reading and writing its bytes,
  and the search for structure types by name. The data layout is the record \<open>llvm_env\<close> of
  \<open>InterpMemory\<close>; the module's identified structure types and its debug information are given.
\<close>

section \<open>The offset of a list of indices\<close>

fun gep_offset :: "llvm_env \<Rightarrow> mty \<Rightarrow> typed_index list \<Rightarrow> u64 \<Rightarrow> u64 res" where
  "gep_offset env Ty [] acc = Inr acc"
| "gep_offset env Ty ((STy, index) # indices) acc =
     (case (case STy of None \<Rightarrow> Ty | Some t \<Rightarrow> t) of
        MStruct s ts \<Rightarrow>
          if index mod 2 ^ 32 < length ts
          then gep_offset env (ts ! (index mod 2 ^ 32)) indices
                 (acc + elementOffset env (MStruct s ts) (index mod 2 ^ 32))
          else Inl AssertFail
      | MArr t n \<Rightarrow>
          gep_offset env t indices (acc + word_of_nat (allocSize env t) * word_of_nat index)
      | _ \<Rightarrow> Inl AssertFail)"

text \<open>The first index counts structures of the given type, so it starts at an array of them.\<close>

definition GEP2Offset :: "llvm_env \<Rightarrow> mty \<Rightarrow> typed_index list \<Rightarrow> u64 res" where
  "GEP2Offset env Ty indices =
     (case indices of
        [] \<Rightarrow> Inl EmptyStack
      | (STy, index) # rest \<Rightarrow>
          rbind (gep_offset env (MArr Ty (index + 1)) indices 0) (\<lambda>acc. Inr (acc * 8)))"

section \<open>Structure types by name\<close>

fun struct_name :: "mty \<Rightarrow> string" where
  "struct_name (MStruct s ts) = s"
| "struct_name t = []"

text \<open>The name up to its last dot, where LLVM adds a number to make names unique.\<close>

definition striped_name :: "string \<Rightarrow> string" where
  "striped_name sname =
     (if CHR ''.'' \<in> set sname then rev (tl (dropWhile (\<lambda>c. c \<noteq> CHR ''.'') (rev sname))) else sname)"

text \<open>
  What stays fixed while structures are accessed: the data layout, the debug information with the
  types \<open>DIF\<close> has collected, the module's identified structure types, LLVM's
  \<open>isLayoutIdentical\<close>, and the fuel for searches.
\<close>

record irm_env =
  im_llvm :: llvm_env
  im_di :: di_graph
  im_types :: "nat list"
  im_structs :: "mty list"
  im_identical :: "mty \<Rightarrow> mty \<Rightarrow> bool"
  im_fuel :: nat

text \<open>Every match is compared with itself, as in the code.\<close>

definition find_struct_type :: "irm_env \<Rightarrow> string \<Rightarrow> mty option" where
  "find_struct_type e name =
     (case filter (\<lambda>S. struct_name S = name \<or> striped_name (struct_name S) = name) (im_structs e) of
        [] \<Rightarrow> None
      | Ty # matches \<Rightarrow> if list_all (\<lambda>S. im_identical e S S) matches then Some Ty else None)"

text \<open>The part of \<open>IRModuleInterpreter\<close> the accesses change, beside the interpreter: its caches.\<close>

record irm_caches =
  DICache :: di_cache
  STCache :: "string \<Rightarrow> mty option option"

definition getTypeByName :: "irm_env \<Rightarrow> string \<Rightarrow> irm_caches \<Rightarrow> mty option \<times> irm_caches" where
  "getTypeByName e name s =
     (case STCache s name of
        Some t \<Rightarrow> (t, s)
      | None \<Rightarrow>
          let STy = find_struct_type e name
          in (STy, s\<lparr>STCache := (STCache s)(name \<mapsto> STy)\<rparr>))"

definition getStructTypeByName :: "irm_env \<Rightarrow> string \<Rightarrow> irm_caches \<Rightarrow> (mty \<times> irm_caches) res" where
  "getStructTypeByName e name s =
     (case getTypeByName e (''struct.'' @ name) s of
        (None, s') \<Rightarrow> Inl AssertFail
      | (Some Ty, s') \<Rightarrow> Inr (Ty, s'))"

definition irx_struct_get_size :: "irm_env \<Rightarrow> string \<Rightarrow> irm_caches \<Rightarrow> u64 \<times> irm_caches" where
  "irx_struct_get_size e name s =
     (case getTypeByName e name s of
        (None, s') \<Rightarrow> (0, s')
      | (Some Ty, s') \<Rightarrow> (word_of_nat (storeSize (im_llvm e) Ty), s'))"

text \<open>
  \<open>malloc\<close> by the name of a structure: that of \<open>IRXAllocator\<close>, which \<open>MapAllocator\<close> inherits, that of
  \<open>MyInterpreter\<close>, which tracks the block, and \<open>structAlloc\<close>, which calls it.
\<close>

definition irx_malloc_struct ::
    "irm_env \<Rightarrow> (map_allocator \<Rightarrow> end_reads) \<Rightarrow> safe_malloc \<Rightarrow> string \<Rightarrow>
     irm_caches \<times> map_allocator \<Rightarrow> (irx_alloc \<times> irm_caches \<times> map_allocator) res" where
  "irx_malloc_struct e er sm name = (\<lambda>(s, a).
     let (size, s') = irx_struct_get_size e name s
     in rbind (ma_malloc er sm size a) (\<lambda>(r, a'). Inr (r, s', a')))"

definition my_malloc_struct ::
    "irm_env \<Rightarrow> (map_allocator \<Rightarrow> end_reads) \<Rightarrow> safe_malloc \<Rightarrow> string \<Rightarrow>
     irm_caches \<times> 'a my_allocs_scheme \<Rightarrow> (irx_alloc \<times> irm_caches \<times> 'a my_allocs_scheme) res" where
  "my_malloc_struct e er sm name = (\<lambda>(s, I).
     rbind (irx_malloc_struct e er sm name (s, allocator I)) (\<lambda>(r, s', a).
       Inr (r, s', I\<lparr>allocator := a, tracked := tracked I @ [ia_vvptr r]\<rparr>)))"

definition structAlloc ::
    "irm_env \<Rightarrow> (map_allocator \<Rightarrow> end_reads) \<Rightarrow> safe_malloc \<Rightarrow> string \<Rightarrow>
     irm_caches \<times> 'a my_allocs_scheme \<Rightarrow> (irx_alloc \<times> irm_caches \<times> 'a my_allocs_scheme) res" where
  "structAlloc e er sm name = my_malloc_struct e er sm name"

lemma structAlloc_eq:
  "structAlloc e er sm name (s, I) =
     rbind (my_malloc er sm (fst (irx_struct_get_size e name s)) I) (\<lambda>(r, I').
       Inr (r, snd (irx_struct_get_size e name s), I'))"
  by (cases "ma_malloc er sm (fst (irx_struct_get_size e name s)) (allocator I)")
    (auto simp: structAlloc_def my_malloc_struct_def irx_malloc_struct_def my_malloc_def split_beta)

definition structInfo :: "irm_env \<Rightarrow> string \<Rightarrow> nat list res" where
  "structInfo e name = getStructDebugInfoFields (im_di e) (im_types e) name"

section \<open>From a path to an offset\<close>

fun typed_indices :: "nat list \<Rightarrow> mty option list \<Rightarrow> nat \<Rightarrow> typed_index list" where
  "typed_indices [] tys i = []"
| "typed_indices (k # ks) tys i = ((if length tys > i then tys ! i else None), k) # typed_indices ks tys (i + 1)"

definition GEPIndices ::
    "irm_env \<Rightarrow> string \<Rightarrow> string list \<Rightarrow> irm_caches \<Rightarrow> (typed_index list \<times> irm_caches) res" where
  "GEPIndices e name path s =
     rbind (getStructFieldInfo2 (im_fuel e) (im_di e) (im_types e) name path (DICache s)) (\<lambda>(info, c).
     let typedIndices = typed_indices (gep info) (STys info) 0 in
     rbind (rassert (length typedIndices > 0) AssertFail) (\<lambda>u.
       Inr (typedIndices, s\<lparr>DICache := the c\<rparr>)))"

definition offsetInBitsFromPath ::
    "irm_env \<Rightarrow> string \<Rightarrow> string list \<Rightarrow> irm_caches \<Rightarrow> (u64 \<times> irm_caches) res" where
  "offsetInBitsFromPath e name path s =
     rbind (getStructTypeByName e name s) (\<lambda>(Ty, s1).
     rbind (GEPIndices e name path s1) (\<lambda>(indices, s2).
     rbind (GEP2Offset (im_llvm e) Ty indices) (\<lambda>offset_bit.
     rbind (rassert (offset_bit AND 7 = 0) AssertFail) (\<lambda>u.
       Inr (offset_bit, s2)))))"

section \<open>Reading and writing a field\<close>

text \<open>\<open>a\<close> is the allocator and \<open>mem\<close> the memory; \<open>m\<close> is the interpreter address of the structure.\<close>

definition irx_struct_set ::
    "irm_env \<Rightarrow> (map_allocator \<Rightarrow> end_reads) \<Rightarrow> map_allocator \<Rightarrow> string \<Rightarrow> u64 \<Rightarrow> string list \<Rightarrow>
     u8 list \<Rightarrow> irm_caches \<times> mem \<Rightarrow> (irm_caches \<times> mem) res" where
  "irx_struct_set e er a name m path value = (\<lambda>(s, mem).
     rbind (vvptr2vptr er a m) (\<lambda>p.
     rbind (offsetInBitsFromPath e name path s) (\<lambda>(offset_bit, s').
     rbind (mem_write mem (p + offset_bit div 8) value) (\<lambda>mem'.
       Inr (s', mem')))))"

definition irx_struct_get ::
    "irm_env \<Rightarrow> (map_allocator \<Rightarrow> end_reads) \<Rightarrow> map_allocator \<Rightarrow> string \<Rightarrow> u64 \<Rightarrow> string list \<Rightarrow>
     nat \<Rightarrow> irm_caches \<times> mem \<Rightarrow> (u8 list \<times> irm_caches) res" where
  "irx_struct_get e er a name m path len = (\<lambda>(s, mem).
     rbind (vvptr2vptr er a m) (\<lambda>p.
     rbind (offsetInBitsFromPath e name path s) (\<lambda>(offset_bit, s').
     rbind (mem_read mem (p + offset_bit div 8) len) (\<lambda>bs.
       Inr (bs, s')))))"

text \<open>Every field is set at a path of its name alone.\<close>

fun irx_struct_init ::
    "irm_env \<Rightarrow> (map_allocator \<Rightarrow> end_reads) \<Rightarrow> map_allocator \<Rightarrow> string \<Rightarrow> u64 \<Rightarrow>
     (string \<times> u8 list) list \<Rightarrow> irm_caches \<times> mem \<Rightarrow> (irm_caches \<times> mem) res" where
  "irx_struct_init e er a name m [] st = Inr st"
| "irx_struct_init e er a name m ((f, value) # fs) st =
     rbind (irx_struct_set e er a name m [f] value st) (irx_struct_init e er a name m fs)"


section \<open>Offsets stay inside the structure\<close>

text \<open>
  What LLVM promises of a data layout: the fields of a structure that fits in memory follow each other without
  overlap and end inside it, and an array is its elements one after the other.
\<close>

definition layout_ok :: "llvm_env \<Rightarrow> bool" where
  "layout_ok env \<longleftrightarrow>
     (\<forall>s ts j. allocSize env (MStruct s ts) < 2 ^ 61 \<longrightarrow> j < length ts \<longrightarrow>
        unat (elementOffset env (MStruct s ts) j) + allocSize env (ts ! j) \<le> allocSize env (MStruct s ts) \<and>
        (\<forall>i < j. unat (elementOffset env (MStruct s ts) i) + allocSize env (ts ! i)
           \<le> unat (elementOffset env (MStruct s ts) j))) \<and>
     (\<forall>t n. allocSize env (MArr t n) = n * allocSize env t)"

lemma layout_okD:
  assumes "layout_ok env"
  shows layout_field: "allocSize env (MStruct s ts) < 2 ^ 61 \<Longrightarrow> j < length ts \<Longrightarrow>
      unat (elementOffset env (MStruct s ts) j) + allocSize env (ts ! j) \<le> allocSize env (MStruct s ts)"
    and layout_fields: "allocSize env (MStruct s ts) < 2 ^ 61 \<Longrightarrow> j < length ts \<Longrightarrow> i < j \<Longrightarrow>
      unat (elementOffset env (MStruct s ts) i) + allocSize env (ts ! i)
        \<le> unat (elementOffset env (MStruct s ts) j)"
    and layout_array: "allocSize env (MArr t n) = n * allocSize env t"
  using assms unfolding layout_ok_def by blast+

text \<open>The type that a list of indices leads to, and its offset in bytes.\<close>

fun ty_at :: "mty \<Rightarrow> nat list \<Rightarrow> mty option" where
  "ty_at t [] = Some t"
| "ty_at (MStruct s ts) (k # ks) = (if k < length ts \<and> k < 2 ^ 32 then ty_at (ts ! k) ks else None)"
| "ty_at (MArr t n) (k # ks) = (if k < n then ty_at t ks else None)"
| "ty_at _ (k # ks) = None"

fun field_offset :: "llvm_env \<Rightarrow> mty \<Rightarrow> nat list \<Rightarrow> nat" where
  "field_offset env t [] = 0"
| "field_offset env (MStruct s ts) (k # ks) =
     unat (elementOffset env (MStruct s ts) k) + field_offset env (ts ! k) ks"
| "field_offset env (MArr t n) (k # ks) = k * allocSize env t + field_offset env t ks"
| "field_offset env t (k # ks) = 0"

lemma part_small:
  assumes "layout_ok env" and "allocSize env Ty < 2 ^ 61"
  shows "Ty = MStruct s ts \<Longrightarrow> k < length ts \<Longrightarrow> allocSize env (ts ! k) < 2 ^ 61"
    and "Ty = MArr t n \<Longrightarrow> k < n \<Longrightarrow> allocSize env t < 2 ^ 61"
proof -
  show "allocSize env (ts ! k) < 2 ^ 61" if "Ty = MStruct s ts" "k < length ts"
    using layout_field [OF assms(1), of s ts k] assms(2) that by simp
  show "allocSize env t < 2 ^ 61" if "Ty = MArr t n" "k < n"
  proof -
    have "allocSize env t \<le> n * allocSize env t" using that by (cases n) simp_all
    moreover have "n * allocSize env t < 2 ^ 61"
      using assms(2) that by (simp add: layout_array [OF assms(1)])
    ultimately show ?thesis by linarith
  qed
qed

lemma field_offset_bound:
  assumes "layout_ok env"
  shows "allocSize env Ty < 2 ^ 61 \<Longrightarrow> ty_at Ty ks = Some t \<Longrightarrow>
    field_offset env Ty ks + allocSize env t \<le> allocSize env Ty"
proof (induction Ty ks rule: ty_at.induct)
  case (2 s ts k ks)
  then have k: "k < length ts \<and> k < 2 ^ 32" and "ty_at (ts ! k) ks = Some t"
    by (auto split: if_splits)
  with "2.IH" part_small(1) [OF assms "2.prems"(1)]
  have "field_offset env (ts ! k) ks + allocSize env t \<le> allocSize env (ts ! k)" by simp
  with layout_field [OF assms "2.prems"(1)] k show ?case by fastforce
next
  case (3 u n k ks)
  then have k: "k < n" and "ty_at u ks = Some t" by (auto split: if_splits)
  with "3.IH" part_small(2) [OF assms "3.prems"(1)]
  have "field_offset env u ks + allocSize env t \<le> allocSize env u" by simp
  moreover have "Suc k * allocSize env u \<le> n * allocSize env u" using k by (intro mult_le_mono1) simp
  ultimately show ?case by (simp add: layout_array [OF assms])
qed auto

lemma field_offset_disjoint:
  assumes "layout_ok env"
  shows "allocSize env Ty < 2 ^ 61 \<Longrightarrow> ty_at Ty ks = Some t \<Longrightarrow> ty_at Ty ls = Some u \<Longrightarrow>
    \<not> prefix ks ls \<Longrightarrow> \<not> prefix ls ks \<Longrightarrow>
    field_offset env Ty ks + allocSize env t \<le> field_offset env Ty ls \<or>
    field_offset env Ty ls + allocSize env u \<le> field_offset env Ty ks"
proof (induction Ty ks arbitrary: ls rule: ty_at.induct)
  case (2 s ts k ks)
  from "2.prems"(5) obtain l ls' where ls: "ls = l # ls'" by (cases ls) auto
  from "2.prems"(2,3) ls have k: "k < length ts" "ty_at (ts ! k) ks = Some t" "k < 2 ^ 32"
    and l: "l < length ts" "ty_at (ts ! l) ls' = Some u" by (auto split: if_splits)
  note small = part_small(1) [OF assms "2.prems"(1) refl]
  note bounds = field_offset_bound [OF assms small [OF k(1)] k(2)]
    field_offset_bound [OF assms small [OF l(1)] l(2)]
  consider "k = l" | "k < l" | "l < k" by linarith
  then show ?case
  proof cases
    case 1
    with "2.IH" [of ls'] "2.prems" k l ls small show ?thesis by simp
  next
    case 2
    with layout_fields [OF assms "2.prems"(1) l(1) 2] bounds ls show ?thesis by simp
  next
    case 3
    with layout_fields [OF assms "2.prems"(1) k(1) 3] bounds ls show ?thesis by simp
  qed
next
  case (3 v n k ks)
  from "3.prems"(5) obtain l ls' where ls: "ls = l # ls'" by (cases ls) auto
  from "3.prems"(2,3) ls have k: "k < n" "ty_at v ks = Some t" and l: "l < n" "ty_at v ls' = Some u"
    by (auto split: if_splits)
  note small = part_small(2) [OF assms "3.prems"(1) refl k(1)]
  note bounds = field_offset_bound [OF assms small k(2)] field_offset_bound [OF assms small l(2)]
  have step: "i < j \<Longrightarrow> i * allocSize env v + allocSize env v \<le> j * allocSize env v" for i j
    using mult_le_mono1 [of "Suc i" j "allocSize env v"] by simp
  consider "k = l" | "k < l" | "l < k" by linarith
  then show ?case
  proof cases
    case 1
    with "3.IH" [of ls'] "3.prems" k l ls small show ?thesis by simp
  next
    case 2
    with step [OF 2] bounds ls show ?thesis by simp
  next
    case 3
    with step [OF 3] bounds ls show ?thesis by simp
  qed
qed auto

abbreviation untyped :: "nat list \<Rightarrow> typed_index list" where
  "untyped ks \<equiv> map (Pair None) ks"

lemma gep_offset_eq:
  "ty_at Ty ks = Some t \<Longrightarrow>
   gep_offset env Ty (untyped ks) acc = Inr (acc + word_of_nat (field_offset env Ty ks))"
proof (induction Ty ks arbitrary: acc rule: ty_at.induct)
  case (2 s ts k ks)
  then show ?case by (simp add: add.assoc split: if_splits)
next
  case (3 u n k ks)
  then show ?case by (simp add: algebra_simps split: if_splits)
qed auto

lemma bits_of_offset:
  assumes "o8 < 2 ^ 61"
  shows "unat (8 * word_of_nat o8 :: u64) = 8 * o8"
    and "(8 * word_of_nat o8 :: u64) div 8 = word_of_nat o8" and "(8 * word_of_nat o8 :: u64) AND 7 = 0"
proof -
  have tb: "take_bit 64 o8 = o8" using assms by (simp add: take_bit_nat_eq_self_iff)
  with assms show u: "unat (8 * word_of_nat o8 :: u64) = 8 * o8"
    by (simp add: unat_word_ariths unsigned_of_nat)
  show "(8 * word_of_nat o8 :: u64) div 8 = word_of_nat o8"
    using u tb by (simp add: word_unat_eq_iff unat_div unsigned_of_nat)
  have "(8 * word_of_nat o8 :: u64) AND 7 = take_bit 3 (push_bit 3 (word_of_nat o8))"
    by (simp add: take_bit_eq_mask mask_eq_exp_minus_1 push_bit_eq_mult mult.commute)
  also have "\<dots> = 0" by (rule bit_word_eqI) (auto simp: bit_simps)
  finally show "(8 * word_of_nat o8 :: u64) AND 7 = 0" .
qed

text \<open>
  C30. The offset of a field. For indices that lead to a part of a structure, \<open>GEP2Offset\<close>
  returns eight times the offset the data layout gives that part, a whole number of bytes; the
  part ends inside the structure; and parts that do not contain one another do not overlap.
\<close>

theorem gep_offset_correct:
  assumes "layout_ok env" and "allocSize env Ty < 2 ^ 61" and "ty_at Ty ks = Some t"
  shows "GEP2Offset env Ty (untyped (0 # ks)) = Inr (8 * word_of_nat (field_offset env Ty ks)) \<and>
    unat (8 * word_of_nat (field_offset env Ty ks) :: u64) = 8 * field_offset env Ty ks \<and>
    field_offset env Ty ks + allocSize env t \<le> allocSize env Ty \<and>
    (\<forall>ls u. ty_at Ty ls = Some u \<longrightarrow> \<not> prefix ks ls \<longrightarrow> \<not> prefix ls ks \<longrightarrow>
      field_offset env Ty ks + allocSize env t \<le> field_offset env Ty ls \<or>
      field_offset env Ty ls + allocSize env u \<le> field_offset env Ty ks)"
proof -
  have b: "field_offset env Ty ks + allocSize env t \<le> allocSize env Ty"
    by (rule field_offset_bound [OF assms])
  then have "field_offset env Ty ks < 2 ^ 61" using assms(2) by simp
  note bits_of_offset(1) [OF this]
  moreover have "GEP2Offset env Ty (untyped (0 # ks)) = Inr (8 * word_of_nat (field_offset env Ty ks))"
    using gep_offset_eq [OF assms(3), of env 0] by (simp add: GEP2Offset_def mult.commute)
  ultimately show ?thesis using b field_offset_disjoint [OF assms] by blast
qed


section \<open>The caches do not change an answer\<close>

definition caches_ok :: "irm_env \<Rightarrow> irm_caches \<Rightarrow> bool" where
  "caches_ok e s \<longleftrightarrow> cache_ok (im_di e) (im_types e) (DICache s) \<and>
     (\<forall>name r. STCache s name = Some r \<longrightarrow> r = find_struct_type e name)"

lemma getTypeByName_cached:
  assumes "caches_ok e s"
  shows "\<exists>s'. getTypeByName e name s = (find_struct_type e name, s') \<and> caches_ok e s'"
  using assms by (auto simp: getTypeByName_def caches_ok_def Let_def split: option.split)

lemma getStructTypeByName_cached:
  assumes "caches_ok e s" and "getStructTypeByName e name s = Inr (Ty, s')"
  shows "find_struct_type e (''struct.'' @ name) = Some Ty" and "caches_ok e s'"
  using getTypeByName_cached [OF assms(1), of "''struct.'' @ name"] assms(2)
  by (auto simp: getStructTypeByName_def split: option.splits)

lemma getStructTypeByName_found:
  assumes "caches_ok e s" and "find_struct_type e (''struct.'' @ name) = Some Ty"
  shows "\<exists>s'. getStructTypeByName e name s = Inr (Ty, s') \<and> caches_ok e s'"
  using getTypeByName_cached [OF assms(1), of "''struct.'' @ name"] assms(2)
  by (auto simp: getStructTypeByName_def)

lemma field_info_cached:
  assumes "cache_ok g types c" and "getStructFieldInfo2 n g types name path c = Inr (info, c1)"
  shows "\<exists>c'. c1 = Some c' \<and> cache_ok g types c'"
    and "cache_ok g types c2 \<Longrightarrow>
      \<exists>c'. getStructFieldInfo2 n g types name path c2 = Inr (info, Some c') \<and> cache_ok g types c'"
proof -
  from find_cached [OF assms(1), of name] obtain c' where
    c': "findStructDebugInfo g types name (Some c) = Inr (find_type g types name, Some c')"
    "cache_ok g types c'" by blast
  show "\<exists>c'. c1 = Some c' \<and> cache_ok g types c'"
    using assms(2) c' by (auto simp: getStructFieldInfo2_def Let_def split: if_splits)
  assume "cache_ok g types c2"
  from find_cached [OF this, of name] obtain c3 where
    c3: "findStructDebugInfo g types name (Some c2) = Inr (find_type g types name, Some c3)"
    "cache_ok g types c3" by blast
  show "\<exists>c'. getStructFieldInfo2 n g types name path c2 = Inr (info, Some c') \<and> cache_ok g types c'"
    using assms(2) c' c3
    by (auto simp: getStructFieldInfo2_def Let_def split: if_splits)
qed

lemma GEPIndices_cached:
  assumes "caches_ok e s" and "GEPIndices e name path s = Inr (is, s1)"
  shows "caches_ok e s1" and "caches_ok e s2 \<Longrightarrow>
    \<exists>s3. GEPIndices e name path s2 = Inr (is, s3) \<and> caches_ok e s3"
proof -
  from assms(2) obtain info c1 where
    i: "getStructFieldInfo2 (im_fuel e) (im_di e) (im_types e) name path (DICache s) = Inr (info, c1)"
    and "is": "is = typed_indices (gep info) (STys info) 0" "is \<noteq> []" "s1 = s\<lparr>DICache := the c1\<rparr>"
    by (auto simp: GEPIndices_def Let_def)
  have ok: "cache_ok (im_di e) (im_types e) (DICache s)" using assms(1) by (simp add: caches_ok_def)
  note cached = field_info_cached [OF ok i]
  show "caches_ok e s1" using cached(1) "is" assms(1) by (auto simp: caches_ok_def)
  assume "caches_ok e s2"
  with cached(2) [of "DICache s2"] "is" show "\<exists>s3. GEPIndices e name path s2 = Inr (is, s3) \<and> caches_ok e s3"
    by (auto simp: GEPIndices_def caches_ok_def Let_def)
qed

lemma offset_cached:
  assumes "caches_ok e s" and "offsetInBitsFromPath e name path s = Inr (b, s1)"
  shows "caches_ok e s1" and "caches_ok e s2 \<Longrightarrow>
    \<exists>s3. offsetInBitsFromPath e name path s2 = Inr (b, s3) \<and> caches_ok e s3"
proof -
  from assms(2) obtain Ty t1 "is" where t: "getStructTypeByName e name s = Inr (Ty, t1)"
    and g: "GEPIndices e name path t1 = Inr (is, s1)" and o: "GEP2Offset (im_llvm e) Ty is = Inr b"
    "b AND 7 = 0"
    by (auto simp: offsetInBitsFromPath_def)
  note ty = getStructTypeByName_cached [OF assms(1) t]
  note gi = GEPIndices_cached [OF ty(2) g]
  show "caches_ok e s1" by (rule gi(1))
  assume "caches_ok e s2"
  from getStructTypeByName_found [OF this ty(1)] obtain t2 where
    t2: "getStructTypeByName e name s2 = Inr (Ty, t2)" "caches_ok e t2" by blast
  from gi(2) [OF t2(2)] obtain s3 where "GEPIndices e name path t2 = Inr (is, s3)" "caches_ok e s3"
    by blast
  with t2 o show "\<exists>s3. offsetInBitsFromPath e name path s2 = Inr (b, s3) \<and> caches_ok e s3"
    by (auto simp: offsetInBitsFromPath_def)
qed


section \<open>Setting and getting a field\<close>

lemma offset_of_indices:
  assumes "caches_ok e s" and "layout_ok (im_llvm e)"
    and "find_struct_type e (''struct.'' @ name) = Some Ty" and "allocSize (im_llvm e) Ty < 2 ^ 61"
    and "GEPIndices e name path s = Inr (untyped (0 # ks), s1)" and "ty_at Ty ks = Some t"
  shows "\<exists>s'. offsetInBitsFromPath e name path s =
      Inr (8 * word_of_nat (field_offset (im_llvm e) Ty ks), s')"
proof -
  let ?o = "field_offset (im_llvm e) Ty ks"
  from getStructTypeByName_found [OF assms(1,3)] obtain s2 where
    s2: "getStructTypeByName e name s = Inr (Ty, s2)" "caches_ok e s2" by blast
  from GEPIndices_cached(2) [OF assms(1,5) s2(2)] obtain s3 where
    s3: "GEPIndices e name path s2 = Inr (untyped (0 # ks), s3)" by blast
  have "?o < 2 ^ 61" using field_offset_bound [OF assms(2,4,6)] assms(4) by simp
  moreover have "GEP2Offset (im_llvm e) Ty (untyped (0 # ks)) = Inr (8 * word_of_nat ?o)"
    using gep_offset_eq [OF assms(6), of "im_llvm e" 0] by (simp add: GEP2Offset_def mult.commute)
  ultimately show ?thesis using s2(1) s3 bits_of_offset(3)
    by (simp add: offsetInBitsFromPath_def)
qed

lemma in_range_offset:
  assumes "unat p + A \<le> 2 ^ 64" and "off + n \<le> A" and "in_range (p + word_of_nat off) n x"
  shows "unat p + off \<le> unat x \<and> unat x < unat p + off + n"
proof -
  have n: "0 < n" using assms(3) by (cases n) (simp_all add: in_range_def)
  then have "unat p + off < 2 ^ 64" and o: "off < 2 ^ 64" using assms(1,2) by linarith+
  moreover from o have "take_bit 64 off = off" by (simp add: take_bit_nat_eq_self_iff)
  ultimately have u: "unat (p + word_of_nat off) = unat p + off"
    by (simp add: unat_word_ariths unsigned_of_nat)
  have "unat (x - (p + word_of_nat off)) < n" using assms(3) by (simp add: in_range_def)
  then show ?thesis using u assms(1,2) n u64_unat_lt [of x]
    by (simp add: unat_sub_if_size word_size split: if_splits)
qed

lemma in_range_base:
  assumes "unat p + A \<le> 2 ^ 64"
  shows "in_range p A x \<longleftrightarrow> unat p \<le> unat x \<and> unat x < unat p + A"
  unfolding in_range_def using assms u64_unat_lt [of x]
  by (simp add: unat_sub_if_size word_size split: if_splits) linarith

text \<open>What a set and a get of a path do, in terms of the offset of the path in the data layout.\<close>

lemma part_of_struct:
  assumes "layout_ok env" and "allocSize env Ty < 2 ^ 61" and "ty_at Ty ks = Some t"
  shows "field_offset env Ty ks < 2 ^ 61"
    and "field_offset env Ty ks + allocSize env t \<le> allocSize env Ty"
  using field_offset_bound [OF assms] assms(2) by simp_all

lemma struct_get_reads:
  assumes "caches_ok e s" and "layout_ok (im_llvm e)"
    and "find_struct_type e (''struct.'' @ name) = Some Ty" and "allocSize (im_llvm e) Ty < 2 ^ 61"
    and "GEPIndices e name path s = Inr (untyped (0 # ks), s1)" and "ty_at Ty ks = Some t"
    and "vvptr2vptr er a m = Inr p" and "caches_ok e s'"
  shows "map_sum id fst (irx_struct_get e er a name m path len (s', mem)) =
    mem_read mem (p + word_of_nat (field_offset (im_llvm e) Ty ks)) len"
proof -
  let ?off = "field_offset (im_llvm e) Ty ks"
  obtain s2 where "offsetInBitsFromPath e name path s = Inr (8 * word_of_nat ?off, s2)"
    using offset_of_indices [OF assms(1-6)] by blast
  then obtain s3 where "offsetInBitsFromPath e name path s' = Inr (8 * word_of_nat ?off, s3)"
    using offset_cached(2) [OF assms(1) _ assms(8)] by blast
  then show ?thesis using assms(7) bits_of_offset(2) [OF part_of_struct(1) [OF assms(2,4,6)]]
    by (cases "mem_read mem (p + word_of_nat ?off) len") (auto simp: irx_struct_get_def)
qed

lemma struct_set_writes:
  assumes "caches_ok e s" and "layout_ok (im_llvm e)"
    and "find_struct_type e (''struct.'' @ name) = Some Ty" and "allocSize (im_llvm e) Ty < 2 ^ 61"
    and "GEPIndices e name path s = Inr (untyped (0 # ks), s1)" and "ty_at Ty ks = Some t"
    and "vvptr2vptr er a m = Inr p" and "irx_struct_set e er a name m path value (s, mem) = Inr (s', mem')"
  shows "mem_write mem (p + word_of_nat (field_offset (im_llvm e) Ty ks)) value = Inr mem'"
    and "caches_ok e s'"
proof -
  let ?off = "field_offset (im_llvm e) Ty ks"
  obtain s2 where o: "offsetInBitsFromPath e name path s = Inr (8 * word_of_nat ?off, s2)"
    using offset_of_indices [OF assms(1-6)] by blast
  with assms(7,8) have "mem_write mem (p + word_of_nat ?off) value = Inr mem' \<and> s' = s2"
    by (auto simp: irx_struct_set_def bits_of_offset(2) [OF part_of_struct(1) [OF assms(2,4,6)]])
  with offset_cached(1) [OF assms(1) o]
  show "mem_write mem (p + word_of_nat ?off) value = Inr mem'" and "caches_ok e s'" by simp_all
qed

text \<open>
  C5. Setting a field. When a path leads to a part of a structure that lies in mapped memory,
  and \<open>irx_struct_set\<close> has written a value no longer than that part, then \<open>irx_struct_get\<close> of
  the same path and length returns exactly that value; no byte outside the structure has changed;
  and for a path to any other part, which neither contains nor lies in this one,
  \<open>irx_struct_get\<close> returns what it returned before.
\<close>

theorem struct_set_get:
  assumes "caches_ok e s" and "layout_ok (im_llvm e)"
    and "find_struct_type e (''struct.'' @ name) = Some Ty" and "allocSize (im_llvm e) Ty < 2 ^ 61"
    and "vvptr2vptr er a m = Inr p" and "unat p + allocSize (im_llvm e) Ty \<le> 2 ^ 64"
    and "GEPIndices e name path s = Inr (untyped (0 # ks), s1)" and "ty_at Ty ks = Some t"
    and "length value \<le> allocSize (im_llvm e) t"
    and "irx_struct_set e er a name m path value (s, mem) = Inr (s', mem')"
  shows "(\<exists>s2. irx_struct_get e er a name m path (length value) (s', mem') = Inr (value, s2)) \<and>
    (\<forall>x. \<not> in_range p (allocSize (im_llvm e) Ty) x \<longrightarrow> mem' x = mem x) \<and>
    (\<forall>path2 ls u len s2. GEPIndices e name path2 s = Inr (untyped (0 # ls), s2) \<longrightarrow>
      ty_at Ty ls = Some u \<longrightarrow> \<not> prefix ks ls \<longrightarrow> \<not> prefix ls ks \<longrightarrow> len \<le> allocSize (im_llvm e) u \<longrightarrow>
      map_sum id fst (irx_struct_get e er a name m path2 len (s', mem')) =
      map_sum id fst (irx_struct_get e er a name m path2 len (s, mem)))"
proof (intro conjI allI impI)
  let ?off = "field_offset (im_llvm e) Ty" and ?A = "allocSize (im_llvm e) Ty"
  note part = part_of_struct [OF assms(2,4)]
  note w = struct_set_writes(1) [OF assms(1-4,7,8,5,10)] and ok' = struct_set_writes(2) [OF assms(1-4,7,8,5,10)]
  have len: "length value \<le> 2 ^ 64" using part(2) [OF assms(8)] assms(4,9) by simp
  have rng: "unat p + ?off ks \<le> unat x \<and> unat x < unat p + ?off ks + length value"
    if "in_range (p + word_of_nat (?off ks)) (length value) x" for x
    using in_range_offset [OF assms(6) _ that] part(2) [OF assms(8)] assms(9) by simp
  have "map_sum id fst (irx_struct_get e er a name m path (length value) (s', mem')) = Inr value"
    using struct_get_reads [OF assms(1-4,7,8,5) ok', of "length value" mem'] host.rd_wr [OF len w] by simp
  then show "\<exists>s2. irx_struct_get e er a name m path (length value) (s', mem') = Inr (value, s2)"
    by (cases "irx_struct_get e er a name m path (length value) (s', mem')") auto
  show "mem' x = mem x" if "\<not> in_range p ?A x" for x
  proof -
    have "\<not> in_range (p + word_of_nat (?off ks)) (length value) x"
      using rng [of x] that part(2) [OF assms(8)] assms(9) by (auto simp: in_range_base [OF assms(6)])
    then show ?thesis using mem_write_eq [OF len mem_write_mapped [OF len w]] w by simp
  qed
  show "map_sum id fst (irx_struct_get e er a name m path2 len (s', mem')) =
      map_sum id fst (irx_struct_get e er a name m path2 len (s, mem))"
    if g2: "GEPIndices e name path2 s = Inr (untyped (0 # ls), s2)" "ty_at Ty ls = Some u"
      and pre: "\<not> prefix ks ls" "\<not> prefix ls ks" and len2: "len \<le> allocSize (im_llvm e) u"
    for path2 ls u len s2
  proof -
    have "?off ks + allocSize (im_llvm e) t \<le> ?off ls \<or> ?off ls + allocSize (im_llvm e) u \<le> ?off ks"
      by (rule field_offset_disjoint [OF assms(2,4,8) g2(2) pre])
    then have "\<not> (in_range (p + word_of_nat (?off ks)) (length value) x \<and>
        in_range (p + word_of_nat (?off ls)) len x)" for x
      using rng [of x] in_range_offset [OF assms(6), of "?off ls" len x] part(2) [OF g2(2)]
        assms(9) len2 by auto
    then have "mem_read mem' (p + word_of_nat (?off ls)) len = mem_read mem (p + word_of_nat (?off ls)) len"
      by (intro host.rd_frame [OF len w]) simp
    with struct_get_reads [OF assms(1-4) g2 assms(5)] ok' assms(1) show ?thesis by simp
  qed
qed


section \<open>The structure of the test program in memory\<close>

lemma sum_take_le: "i \<le> j \<Longrightarrow> sum_list (map f (take i ts)) \<le> sum_list (map f (take j ts))"
  for f :: "'x \<Rightarrow> nat"
proof -
  assume "i \<le> j"
  then have "take j ts = take i ts @ take (j - i) (drop i ts)"
    by (metis le_add_diff_inverse take_add)
  then show ?thesis by simp
qed

lemma packed_layout_ok: "layout_ok packed_env"
proof -
  have nth: "sum_list (map packed_size (take (Suc j) ts)) =
      sum_list (map packed_size (take j ts)) + packed_size (ts ! j)" if "j < length ts" for j ts
    using that by (simp add: take_Suc_conv_app_nth)
  have all: "sum_list (map packed_size (take j ts)) \<le> sum_list (map packed_size ts)" for j ts
    using sum_take_le [of j "j + length ts" packed_size ts] by simp
  have u: "unat (word_of_nat (sum_list (map packed_size (take j ts))) :: u64) =
      sum_list (map packed_size (take j ts))" if "sum_list (map packed_size ts) < 2 ^ 61" for j ts
    using all [of j ts] that by (simp add: unsigned_of_nat take_bit_nat_eq_self_iff)
  show ?thesis unfolding layout_ok_def
  proof (intro conjI allI impI)
    fix s ts j assume small: "allocSize packed_env (MStruct s ts) < 2 ^ 61" and j: "j < length ts"
    then have "sum_list (map packed_size ts) < 2 ^ 61" by (simp add: packed_env_def)
    note u = u [OF this]
    show "unat (elementOffset packed_env (MStruct s ts) j) + allocSize packed_env (ts ! j)
        \<le> allocSize packed_env (MStruct s ts)"
      using u [of j] nth [OF j] all [of "Suc j" ts] by (simp add: packed_env_def)
    show "unat (elementOffset packed_env (MStruct s ts) i) + allocSize packed_env (ts ! i)
        \<le> unat (elementOffset packed_env (MStruct s ts) j)" if "i < j" for i
      using u [of j] u [of i] nth [of i ts] sum_take_le [of "Suc i" j packed_size ts] that j
      by (simp add: packed_env_def)
  qed (simp add: packed_env_def)
qed

definition dnode_ty :: mty where
  "dnode_ty = MStruct ''struct._dnode'' [MStruct ''union.anon.0'' [MPtr MVoid], MPtr MVoid]"

definition thread_ty :: mty where
  "thread_ty = MStruct ''struct.k_thread''
     [MStruct ''union.anon'' [MArr (MInt 8) 64], dnode_ty, MArr dnode_ty 2, MArr (MPtr (MInt 32)) 4]"

definition thread_env :: irm_env where
  "thread_env =
     \<lparr>im_llvm = packed_env, im_di = thread_di, im_types = list_types,
      im_structs = [dnode_ty, thread_ty], im_identical = (\<lambda>S T. S = T), im_fuel = 5\<rparr>"

definition no_caches :: irm_caches where
  "no_caches = \<lparr>DICache = Map.empty, STCache = Map.empty\<rparr>"

lemma no_caches_ok: "caches_ok e no_caches"
  by (simp add: caches_ok_def no_caches_def cache_ok_def)

lemma thread_indices:
  "res_all (GEPIndices thread_env ''k_thread'' [''array'', ''0'', ''next''] no_caches)
     (\<lambda>(is, s). is = untyped [0, 2, 0, 0, 0])"
  by code_simp

lemma thread_type_found: "find_struct_type thread_env ''struct.k_thread'' = Some thread_ty"
  by code_simp

lemma thread_parts:
  "ty_at thread_ty [2, 0, 0, 0] = Some (MPtr MVoid)"
  "allocSize packed_env thread_ty = 104" "field_offset packed_env thread_ty [2, 0, 0, 0] = 72"
  by (simp_all add: thread_ty_def dnode_ty_def packed_env_def)

theorem gep_offset_correct_witness:
  "GEP2Offset packed_env thread_ty (untyped [0, 2, 0, 0, 0]) = Inr (72 * 8) \<and>
   field_offset packed_env thread_ty [2, 0, 0, 0] + 4 \<le> 104"
proof -
  have a: "allocSize packed_env (MPtr MVoid) = 4" "allocSize packed_env thread_ty < 2 ^ 61"
    using thread_parts(2) by (simp_all add: packed_env_def)
  from gep_offset_correct [OF packed_layout_ok a(2) thread_parts(1)] thread_parts(2,3) a(1)
  show ?thesis by simp
qed

theorem struct_set_get_witness:
  "\<exists>s' mem' s2. irx_struct_set thread_env junk_reads (new_map_allocator []) ''k_thread'' 0x7000
       [''array'', ''0'', ''next''] [1, 2, 3, 4] (no_caches, \<lambda>a. Some 0) = Inr (s', mem') \<and>
     irx_struct_get thread_env junk_reads (new_map_allocator []) ''k_thread'' 0x7000
       [''array'', ''0'', ''next''] 4 (s', mem') = Inr ([1, 2, 3, 4], s2) \<and> mem' 0x8000 = Some 0"
proof -
  let ?a = "new_map_allocator []" and ?path = "[''array'', ''0'', ''next'']" and ?mem = "\<lambda>a. Some 0 :: u8 option"
  let ?v = "[1, 2, 3, 4] :: u8 list"
  have p: "vvptr2vptr junk_reads ?a 0x7000 = Inr 0x7000" by code_simp
  obtain is1 where g: "GEPIndices thread_env ''k_thread'' ?path no_caches =
      Inr (untyped (0 # [2, 0, 0, 0]), is1)"
    using thread_indices by (auto simp: res_all_iff)
  have f: "find_struct_type thread_env (''struct.'' @ ''k_thread'') = Some thread_ty"
    using thread_type_found by simp
  have e: "im_llvm thread_env = packed_env" by (simp add: thread_env_def)
  have small: "allocSize (im_llvm thread_env) thread_ty < 2 ^ 61"
    "layout_ok (im_llvm thread_env)" using thread_parts(2) packed_layout_ok by (simp_all add: e)
  from offset_of_indices [OF no_caches_ok small(2) f small(1) g thread_parts(1)]
  obtain s' where o: "offsetInBitsFromPath thread_env ''k_thread'' ?path no_caches = Inr (576, s')"
    using thread_parts(3) by (auto simp: e)
  obtain mem' where "mem_write ?mem (0x7000 + 576 div 8) ?v = Inr mem'"
    using mem_write_total [of ?mem ?v "0x7000 + 576 div 8"] by auto
  with p o have set: "irx_struct_set thread_env junk_reads ?a ''k_thread'' 0x7000 ?path ?v
      (no_caches, ?mem) = Inr (s', mem')"
    by (simp add: irx_struct_set_def)
  have h: "unat (0x7000 :: u64) + allocSize (im_llvm thread_env) thread_ty \<le> 2 ^ 64"
    "length ?v \<le> allocSize (im_llvm thread_env) (MPtr MVoid)"
    "\<not> in_range 0x7000 (allocSize (im_llvm thread_env) thread_ty) 0x8000"
    using thread_parts(2) by (simp_all add: e in_range_def) (simp add: packed_env_def)
  have len: "length ?v = 4" by simp
  note r = struct_set_get [OF no_caches_ok small(2) f small(1) p h(1) g thread_parts(1) h(2) set]
  from conjunct1 [OF r] obtain s2 where "irx_struct_get thread_env junk_reads ?a ''k_thread'' 0x7000
      ?path 4 (s', mem') = Inr (?v, s2)" unfolding len by blast
  moreover have "mem' 0x8000 = Some 0" using r h(3) by blast
  ultimately show ?thesis using set by blast
qed

end
