(* ===== verification/AliasFix.thy ===== *)
theory AliasFix
  imports Prelude
begin

text \<open>
  The work-around for LLVM's interpreter not following aliases inside constant expressions
  (\<open>libirx/irinterpreter2-interpreter.cc\<close>): before an instruction runs, the operands of its
  constant expressions are replaced by what their aliases stand for, and put back afterwards.

  Constants are shared and mutated in place, so they live in a store: a number per constant, \<open>0\<close>
  for the null pointer. The recursions take fuel; \<open>fix_total\<close> gives how much is enough for
  constants without cycles, the only ones LLVM has.
\<close>

section \<open>Constants and the operations\<close>

datatype cnode = NExpr "nat list" | NAlias nat | NOther

type_synonym cstore = "nat \<Rightarrow> cnode"

fun operands :: "cnode \<Rightarrow> nat list" where
  "operands (NExpr ops) = ops"
| "operands (NAlias t) = []"
| "operands NOther = []"

fun is_alias :: "cnode \<Rightarrow> bool" where
  "is_alias (NAlias t) = True"
| "is_alias (NExpr ops) = False"
| "is_alias NOther = False"

definition setOperand :: "nat \<Rightarrow> nat \<Rightarrow> nat \<Rightarrow> cstore \<Rightarrow> cstore" where
  "setOperand V i c st = st(V := NExpr ((operands (st V))[i := c]))"

fun resolveAliasesOperand :: "nat \<Rightarrow> cstore \<Rightarrow> nat \<Rightarrow> nat res" where
  "resolveAliasesOperand fuel st V =
     (case st V of
        NAlias t \<Rightarrow> (case fuel of 0 \<Rightarrow> Inl OutOfFuel | Suc n \<Rightarrow> resolveAliasesOperand n st t)
      | _ \<Rightarrow> Inr V)"

declare resolveAliasesOperand.simps [simp del]

text \<open>
  The state of both recursions is the store and the map \<open>Values\<close>, whose \<open>operator[]\<close> gives null
  for an absent key. The loops run over the operand indices.
\<close>

type_synonym alias_state = "cstore \<times> (nat \<Rightarrow> nat)"

fun fixAliasesOperands :: "nat \<Rightarrow> nat \<Rightarrow> alias_state \<Rightarrow> alias_state res"
and fix_operands :: "nat \<Rightarrow> nat \<Rightarrow> nat list \<Rightarrow> alias_state \<Rightarrow> alias_state res" where
  "fixAliasesOperands 0 V s = (case fst s V of NExpr ops \<Rightarrow> Inl OutOfFuel | _ \<Rightarrow> Inr s)"
| "fixAliasesOperands (Suc fuel) V s =
     (case fst s V of NExpr ops \<Rightarrow> fix_operands fuel V [0..<length ops] s | _ \<Rightarrow> Inr s)"
| "fix_operands fuel V [] s = Inr s"
| "fix_operands fuel V (i # is) s =
     (let C = operands (fst s V) ! i in
      rbind (resolveAliasesOperand fuel (fst s) C) (\<lambda>Op.
      rbind (fixAliasesOperands fuel Op (setOperand V i Op (fst s), (snd s)(Op := C)))
        (fix_operands fuel V is)))"

fun restoreAliasesOperands :: "nat \<Rightarrow> nat \<Rightarrow> alias_state \<Rightarrow> alias_state res"
and restore_operands :: "nat \<Rightarrow> nat \<Rightarrow> nat list \<Rightarrow> alias_state \<Rightarrow> alias_state res" where
  "restoreAliasesOperands 0 V s = (case fst s V of NExpr ops \<Rightarrow> Inl OutOfFuel | _ \<Rightarrow> Inr s)"
| "restoreAliasesOperands (Suc fuel) V s =
     (if V = 0 then Inl NullDeref
      else case fst s V of NExpr ops \<Rightarrow> restore_operands fuel V [0..<length ops] s | _ \<Rightarrow> Inr s)"
| "restore_operands fuel V [] s = Inr s"
| "restore_operands fuel V (i # is) s =
     (let C = operands (fst s V) ! i in
      rbind (restoreAliasesOperands fuel C (setOperand V i (snd s C) (fst s), snd s))
        (restore_operands fuel V is))"

text \<open>The loops of \<open>runInstruction\<close> over the constant operands of an instruction.\<close>

fun fix_all :: "nat \<Rightarrow> nat list \<Rightarrow> alias_state \<Rightarrow> alias_state res" where
  "fix_all fuel [] s = Inr s"
| "fix_all fuel (c # cs) s = rbind (fixAliasesOperands fuel c s) (fix_all fuel cs)"

fun restore_all :: "nat \<Rightarrow> nat list \<Rightarrow> alias_state \<Rightarrow> alias_state res" where
  "restore_all fuel [] s = Inr s"
| "restore_all fuel (c # cs) s = rbind (restoreAliasesOperands fuel c s) (restore_all fuel cs)"

text \<open>
  \<open>getOperandValue\<close> for a constant expression: the operands are resolved, the expression is
  evaluated by LLVM's \<open>getConstantExprValue\<close>, here \<open>eval\<close>, and the operands are put back. The
  other cases, a plain constant and an instruction's value, are the arguments \<open>const_value\<close>
  and \<open>local_value\<close>.
\<close>

fun resolve_all :: "nat \<Rightarrow> cstore \<Rightarrow> nat list \<Rightarrow> nat list res" where
  "resolve_all fuel st [] = Inr []"
| "resolve_all fuel st (c # cs) =
     rbind (resolveAliasesOperand fuel st c) (\<lambda>r.
     rbind (resolve_all fuel st cs) (\<lambda>rs. Inr (r # rs)))"

fun set_operands :: "nat \<Rightarrow> nat \<Rightarrow> nat list \<Rightarrow> cstore \<Rightarrow> cstore" where
  "set_operands V i [] st = st"
| "set_operands V i (c # cs) st = set_operands V (Suc i) cs (setOperand V i c st)"

definition getOperandValue_expr ::
    "nat \<Rightarrow> (cstore \<Rightarrow> nat \<Rightarrow> 'v) \<Rightarrow> cstore \<Rightarrow> nat \<Rightarrow> ('v \<times> cstore) res" where
  "getOperandValue_expr fuel eval st V =
     (let Operands = operands (st V) in
      rbind (resolve_all fuel st Operands) (\<lambda>Cs.
        let st1 = set_operands V 0 Cs st;
            GV = eval st1 V
        in Inr (GV, set_operands V 0 Operands st1)))"

datatype oper = OConst nat | OLocal nat

definition getOperandValue ::
    "nat \<Rightarrow> (cstore \<Rightarrow> nat \<Rightarrow> 'v) \<Rightarrow> (cstore \<Rightarrow> nat \<Rightarrow> 'v res) \<Rightarrow> (nat \<Rightarrow> 'v) \<Rightarrow> cstore \<Rightarrow> oper \<Rightarrow>
     ('v \<times> cstore) res" where
  "getOperandValue fuel eval const_value local_value st V =
     (case V of
        OLocal i \<Rightarrow> Inr (local_value i, st)
      | OConst c \<Rightarrow>
          (case st c of
             NExpr ops \<Rightarrow> getOperandValue_expr fuel eval st c
           | _ \<Rightarrow> rbind (const_value st c) (\<lambda>v. Inr (v, st))))"

section \<open>Resolving\<close>

lemma resolve_not_alias: "resolveAliasesOperand fuel st V = Inr c \<Longrightarrow> \<not> is_alias (st c)"
  by (induction fuel st V rule: resolveAliasesOperand.induct)
    (auto simp: resolveAliasesOperand.simps split: cnode.splits nat.splits)

lemma resolve_id: "\<not> is_alias (st V) \<Longrightarrow> resolveAliasesOperand fuel st V = Inr V"
  by (cases "st V") (simp_all add: resolveAliasesOperand.simps)

section \<open>What the fix establishes\<close>

text \<open>Reachable through operands, and clean: no reachable expression has an alias as operand.\<close>

inductive reach :: "cstore \<Rightarrow> nat \<Rightarrow> nat \<Rightarrow> bool" for st where
  reach_refl: "reach st V V"
| reach_step: "W \<in> set (operands (st V)) \<Longrightarrow> reach st W U \<Longrightarrow> reach st V U"

definition alias_free :: "cstore \<Rightarrow> nat \<Rightarrow> bool" where
  "alias_free st V \<longleftrightarrow> (\<forall>c \<in> set (operands (st V)). \<not> is_alias (st c))"

definition clean :: "cstore \<Rightarrow> nat \<Rightarrow> bool" where
  "clean st V \<longleftrightarrow> (\<forall>U. reach st V U \<longrightarrow> alias_free st U)"

inductive_cases reachE: "reach st V U"

lemma cleanI:
  assumes "alias_free st V" and "\<And>W. W \<in> set (operands (st V)) \<Longrightarrow> clean st W"
  shows "clean st V"
  using assms unfolding clean_def by (auto elim: reachE)

lemma clean_leaf: "operands (st V) = [] \<Longrightarrow> clean st V"
  by (rule cleanI) (simp_all add: alias_free_def)

text \<open>
  One step of the loop, seen from a clean constant: the constant stays clean and so does
  what it reaches, because an operand that is no alias resolves to itself.
\<close>

definition same_kinds :: "cstore \<Rightarrow> cstore \<Rightarrow> bool" where
  "same_kinds st st' \<longleftrightarrow>
     (\<forall>c. is_alias (st' c) = is_alias (st c) \<and> length (operands (st' c)) = length (operands (st c)) \<and>
        (st c \<noteq> NExpr (operands (st c)) \<longrightarrow> st' c = st c))"

definition keeps :: "cstore \<Rightarrow> cstore \<Rightarrow> bool" where
  "keeps st st' \<longleftrightarrow> same_kinds st st' \<and>
     (\<forall>c i. i < length (operands (st c)) \<longrightarrow> \<not> is_alias (st (operands (st c) ! i)) \<longrightarrow>
        operands (st' c) ! i = operands (st c) ! i)"

lemma keeps_refl [simp]: "keeps st st"
  by (simp add: keeps_def same_kinds_def)

lemma keepsD:
  assumes "keeps st st'"
  shows "is_alias (st' c) = is_alias (st c)"
    and "length (operands (st' c)) = length (operands (st c))"
    and "i < length (operands (st c)) \<Longrightarrow> \<not> is_alias (st (operands (st c) ! i)) \<Longrightarrow>
      operands (st' c) ! i = operands (st c) ! i"
  using assms unfolding keeps_def same_kinds_def by auto

lemma keeps_trans: "keeps st st1 \<Longrightarrow> keeps st1 st2 \<Longrightarrow> keeps st st2"
  unfolding keeps_def same_kinds_def by metis

lemma keeps_set:
  assumes "st V = NExpr ops" and "i < length ops"
    and "resolveAliasesOperand fuel st (ops ! i) = Inr c"
  shows "keeps st (setOperand V i c st)"
  unfolding keeps_def same_kinds_def
proof (intro conjI allI impI)
  fix d j assume j: "j < length (operands (st d))" "\<not> is_alias (st (operands (st d) ! j))"
  show "operands (setOperand V i c st d) ! j = operands (st d) ! j"
  proof (cases "d = V \<and> j = i")
    case True
    then have "c = ops ! i" using j(2) assms(1,3) resolve_id by fastforce
    with True show ?thesis by (simp add: setOperand_def assms(1))
  next
    case False
    then show ?thesis by (auto simp: setOperand_def)
  qed
qed (use assms in \<open>auto simp: setOperand_def\<close>)

lemma keeps_operands:
  assumes "keeps st st'" and "alias_free st V"
  shows "operands (st' V) = operands (st V)"
  using assms unfolding keeps_def same_kinds_def alias_free_def
  by (intro nth_equalityI) auto

lemma keeps_alias_free: "keeps st st' \<Longrightarrow> alias_free st V \<Longrightarrow> alias_free st' V"
  using keeps_operands [of st st' V] by (simp add: alias_free_def keeps_def same_kinds_def)

lemma keeps_clean:
  assumes k: "keeps st st'" and c: "clean st V"
  shows "clean st' V"
proof -
  have "reach st' V U \<Longrightarrow> clean st V \<Longrightarrow> reach st V U" for U
  proof (induction rule: reach.induct)
    case (reach_refl V)
    show ?case by (rule reach.reach_refl)
  next
    case (reach_step W V U)
    have "alias_free st V" using reach_step.prems reach.reach_refl by (auto simp: clean_def)
    then have w: "W \<in> set (operands (st V))" using keeps_operands [OF k] reach_step.hyps(1) by simp
    then have "clean st W" using reach_step.prems by (auto simp: clean_def intro: reach.reach_step)
    with reach_step.IH w show ?case by (blast intro: reach.reach_step)
  qed
  with c keeps_alias_free [OF k] show ?thesis by (auto simp: clean_def)
qed

lemma expr_clean:
  assumes "keeps st st'" and "st V = NExpr ops"
    and "\<forall>i < length ops. \<not> is_alias (st' (operands (st' V) ! i)) \<and>
      clean st' (operands (st' V) ! i)"
  shows "clean st' V"
proof -
  have len: "length (operands (st' V)) = length ops"
    using assms(1,2) by (simp add: keeps_def same_kinds_def)
  show ?thesis
    by (rule cleanI) (use assms(3) in \<open>auto simp: alias_free_def in_set_conv_nth len\<close>)
qed

text \<open>One operand resolved, set and processed: it stays where it was set.\<close>

lemma operand_replaced:
  assumes "resolveAliasesOperand fuel st (operands (st V) ! i) = Inr Op"
    and "st V = NExpr ops" and "i < length ops" and k2: "keeps (setOperand V i Op st) st2"
  shows "keeps st st2" and "operands (st2 V) ! i = Op" and "\<not> is_alias (st2 Op)"
    and "length (operands (st2 V)) = length ops"
proof -
  let ?st1 = "setOperand V i Op st"
  have k1: "keeps st ?st1"
    using keeps_set [where fuel = fuel and c = Op and st = st, OF assms(2,3)] assms(1,2) by simp
  show "keeps st st2" using keeps_trans [OF k1 k2] .
  have opi: "operands (?st1 V) ! i = Op" and len1: "i < length (operands (?st1 V))"
    using assms(2,3) by (simp_all add: setOperand_def)
  have na: "\<not> is_alias (?st1 Op)"
    using resolve_not_alias [OF assms(1)] keepsD(1) [OF k1] by simp
  show "operands (st2 V) ! i = Op" using keepsD(3) [OF k2 len1, unfolded opi, OF na] .
  show "\<not> is_alias (st2 Op)" using keepsD(1) [OF k2] na by simp
  show "length (operands (st2 V)) = length ops"
    using keepsD(2) [OF k2, of V] assms(2) by (simp add: setOperand_def)
qed

lemma fix_keeps:
  "fixAliasesOperands fuel V s = Inr s' \<Longrightarrow> keeps (fst s) (fst s') \<and> clean (fst s') V"
  "fix_operands fuel V is s = Inr s' \<Longrightarrow> fst s V = NExpr ops \<Longrightarrow> set is \<subseteq> {..<length ops} \<Longrightarrow>
   keeps (fst s) (fst s') \<and>
   (\<forall>i \<in> set is. \<not> is_alias (fst s' (operands (fst s' V) ! i)) \<and>
      clean (fst s') (operands (fst s' V) ! i))"
proof (induction fuel V s and fuel V "is" s arbitrary: s' and s' ops
    rule: fixAliasesOperands_fix_operands.induct)
  case (1 V s)
  then have "operands (fst s V) = []" "s' = s" by (auto split: cnode.splits)
  then show ?case by (simp add: clean_leaf)
next
  case (2 fuel V s)
  show ?case
  proof (cases "fst s V")
    case (NExpr ops)
    with "2.prems" have run: "fix_operands fuel V [0..<length ops] s = Inr s'" by simp
    have sub: "set [0..<length ops] \<subseteq> {..<length ops}" by auto
    from "2.IH" [OF NExpr run NExpr sub] have
      k: "keeps (fst s) (fst s')" and
      "\<forall>i \<in> set [0..<length ops]. \<not> is_alias (fst s' (operands (fst s' V) ! i)) \<and>
        clean (fst s') (operands (fst s' V) ! i)" by blast+
    then have "clean (fst s') V" by (intro expr_clean [OF k NExpr]) simp
    with k show ?thesis by simp
  next
    case (NAlias t)
    with "2.prems" show ?thesis by (auto intro: clean_leaf)
  next
    case NOther
    with "2.prems" show ?thesis by (auto intro: clean_leaf)
  qed
next
  case (3 fuel V s)
  then show ?case by simp
next
  case (4 fuel V i "is" s)
  let ?C = "operands (fst s V) ! i"
  obtain Op where Op: "resolveAliasesOperand fuel (fst s) ?C = Inr Op"
    using "4.prems"(1) by (auto simp: Let_def)
  let ?s1 = "(setOperand V i Op (fst s), (snd s)(Op := ?C))"
  obtain s2 where s2: "fixAliasesOperands fuel Op ?s1 = Inr s2"
    and rest: "fix_operands fuel V is s2 = Inr s'"
    using "4.prems"(1) Op by (auto simp: Let_def)
  have i: "i < length ops" using "4.prems"(3) by simp
  from "4.IH"(1) [OF refl Op s2] have "keeps (setOperand V i Op (fst s)) (fst s2)"
    and c2: "clean (fst s2) Op" by simp_all
  note op = operand_replaced [OF Op "4.prems"(2) i this(1)]
  obtain ops2 where V2: "fst s2 V = NExpr ops2" and len2: "length ops2 = length ops"
    using i op(4) by (cases "fst s2 V") auto
  have "set is \<subseteq> {..<length ops2}" using "4.prems"(3) len2 by auto
  from "4.IH"(2) [OF refl Op s2 rest V2 this] have k3: "keeps (fst s2) (fst s')"
    and all: "\<forall>j \<in> set is. \<not> is_alias (fst s' (operands (fst s' V) ! j)) \<and>
      clean (fst s') (operands (fst s' V) ! j)" by simp_all
  have "operands (fst s' V) ! i = Op"
    using keepsD(3) [OF k3, of i V, unfolded op(2), OF _ op(3)] op(4) i by simp
  moreover have "\<not> is_alias (fst s' Op)" using keepsD(1) [OF k3] op(3) by simp
  moreover have "clean (fst s') Op" using keeps_clean [OF k3 c2] .
  moreover have "keeps (fst s) (fst s')" using keeps_trans [OF op(1) k3] .
  ultimately show ?case using all by simp
qed

section \<open>Enough fuel\<close>

text \<open>
  Constants without cycles: every alias stands for something of a smaller rank and every
  expression has operands of smaller rank.
\<close>

definition ranked :: "(nat \<Rightarrow> nat) \<Rightarrow> cstore \<Rightarrow> bool" where
  "ranked rk st \<longleftrightarrow>
     (\<forall>c t. st c = NAlias t \<longrightarrow> rk t < rk c) \<and>
     (\<forall>c. \<forall>o' \<in> set (operands (st c)). rk o' < rk c)"

lemma resolve_total:
  "ranked rk st \<Longrightarrow> rk V \<le> fuel \<Longrightarrow>
   \<exists>c. resolveAliasesOperand fuel st V = Inr c \<and> rk c \<le> rk V"
proof (induction fuel st V rule: resolveAliasesOperand.induct)
  case (1 fuel st V)
  show ?case
  proof (cases "st V")
    case (NAlias t)
    then have lt: "rk t < rk V" using "1.prems"(1) by (simp add: ranked_def)
    then obtain n where n: "fuel = Suc n" using "1.prems"(2) by (cases fuel) auto
    from "1.IH" [OF NAlias n "1.prems"(1)] lt "1.prems"(2) n obtain c where
      "resolveAliasesOperand n st t = Inr c" "rk c \<le> rk t" by auto
    with NAlias n lt show ?thesis
      by (intro exI [of _ c]) (simp add: resolveAliasesOperand.simps [of "Suc n"])
  qed (simp_all add: resolveAliasesOperand.simps [of fuel])
qed

lemma ranked_set:
  "ranked rk st \<Longrightarrow> st V = NExpr ops \<Longrightarrow> rk c < rk V \<Longrightarrow> ranked rk (setOperand V i c st)"
  unfolding ranked_def setOperand_def by (auto dest!: set_update_subset_insert [THEN subsetD])

lemma fix_total:
  "ranked rk (fst s) \<Longrightarrow> rk V < fuel \<Longrightarrow>
     \<exists>s'. fixAliasesOperands fuel V s = Inr s' \<and> ranked rk (fst s')"
  "ranked rk (fst s) \<Longrightarrow> rk V \<le> fuel \<Longrightarrow> fst s V = NExpr ops \<Longrightarrow> set is \<subseteq> {..<length ops} \<Longrightarrow>
     \<exists>s'. fix_operands fuel V is s = Inr s' \<and> ranked rk (fst s')"
proof (induction fuel V s and fuel V "is" s arbitrary: and ops
    rule: fixAliasesOperands_fix_operands.induct)
  case (1 V s)
  then show ?case by simp
next
  case (2 fuel V s)
  show ?case
  proof (cases "fst s V")
    case (NExpr ops)
    have sub: "set [0..<length ops] \<subseteq> {..<length ops}" by auto
    have "rk V \<le> fuel" using "2.prems"(2) by simp
    from "2.IH" [OF NExpr "2.prems"(1) this NExpr sub] NExpr show ?thesis by simp
  qed (use 2 in simp_all)
next
  case (3 fuel V s)
  then show ?case by simp
next
  case (4 fuel V i "is" s)
  let ?C = "operands (fst s V) ! i"
  have i: "i < length ops" using "4.prems"(4) by simp
  have C: "rk ?C < rk V" using "4.prems"(1,3) i by (simp add: ranked_def)
  then obtain Op where Op: "resolveAliasesOperand fuel (fst s) ?C = Inr Op" and rO: "rk Op \<le> rk ?C"
    using resolve_total [OF "4.prems"(1), of ?C fuel] "4.prems"(2) by auto
  let ?s1 = "(setOperand V i Op (fst s), (snd s)(Op := ?C))"
  have r1: "ranked rk (fst ?s1)" using ranked_set [OF "4.prems"(1,3)] rO C by simp
  have "rk Op < fuel" using rO C "4.prems"(2) by simp
  from "4.IH"(1) [OF refl Op r1 this] obtain s2 where
    s2: "fixAliasesOperands fuel Op ?s1 = Inr s2" and r2: "ranked rk (fst s2)" by blast
  have k: "keeps (fst ?s1) (fst s2)" using fix_keeps(1) [OF s2] by simp

  have l: "length (operands (fst s2 V)) = length ops"
    using keepsD(2) [OF k, of V] "4.prems"(3) by (simp add: setOperand_def)
  then obtain ops2 where V2: "fst s2 V = NExpr ops2" "length ops2 = length ops"
    using i by (cases "fst s2 V") auto
  have "set is \<subseteq> {..<length ops2}" using "4.prems"(4) V2(2) by auto
  from "4.IH"(2) [OF refl Op s2 r2 "4.prems"(2) V2(1) this] show ?case
    using Op s2 by (auto simp: Let_def)
qed

section \<open>Properties\<close>

text \<open>
  C32. \<open>fixAliasesOperands\<close> on constants without cycles ends, and does its job: afterwards no
  constant expression that can be reached from the one it was called on has an alias among its
  operands, and operands that were no aliases are unchanged everywhere.
\<close>

theorem fix_removes_aliases:
  assumes "ranked rk st" and "rk V < fuel"
  shows "\<exists>s'. fixAliasesOperands fuel V (st, vals) = Inr s' \<and>
    (\<forall>U. reach (fst s') V U \<longrightarrow> (\<forall>c \<in> set (operands (fst s' U)). \<not> is_alias (fst s' c))) \<and>
    (\<forall>c i. i < length (operands (st c)) \<and> \<not> is_alias (st (operands (st c) ! i)) \<longrightarrow>
       operands (fst s' c) ! i = operands (st c) ! i)"
proof -
  obtain s' where s': "fixAliasesOperands fuel V (st, vals) = Inr s'"
    using fix_total(1) [of rk "(st, vals)" V fuel] assms by auto
  from fix_keeps(1) [OF this] have "keeps st (fst s')" "clean (fst s') V" by simp_all
  with s' show ?thesis by (auto simp: keeps_def clean_def alias_free_def)
qed

text \<open>
  Constants 1 and 2 are plain, 3 is an alias of 1; 4 and 5 are expressions with the operand 3,
  6 is an expression over 4.
\<close>

definition alias_example :: cstore where
  "alias_example = (\<lambda>_. NOther)(3 := NAlias 1, 4 := NExpr [3, 2], 5 := NExpr [3], 6 := NExpr [4, 3])"

theorem fix_removes_aliases_witness:
  "\<exists>s'. fixAliasesOperands 7 6 (alias_example, \<lambda>_. 0) = Inr s' \<and>
     (\<forall>c \<in> set (operands (fst s' 6)). \<not> is_alias (fst s' c))"
proof -
  have "ranked (\<lambda>c. c) alias_example" by (auto simp: ranked_def alias_example_def split: if_splits)
  from fix_removes_aliases [OF this, of 6 7 "\<lambda>_. 0"] show ?thesis
    by (auto intro: reach_refl)
qed

lemma operands_set_operands:
  "st V = NExpr (pre @ cs') \<Longrightarrow> length cs = length cs' \<Longrightarrow> i = length pre \<Longrightarrow>
   set_operands V i cs st = st(V := NExpr (pre @ cs))"
proof (induction cs arbitrary: st pre cs' i)
  case Nil
  then show ?case by (auto simp: fun_upd_idem_iff)
next
  case (Cons c cs)
  then obtain d ds where "cs' = d # ds" by (cases cs') auto
  let ?st = "st(V := NExpr (pre @ [c] @ ds))"
  have "set_operands V (Suc i) cs ?st = ?st(V := NExpr ((pre @ [c]) @ cs))"
    by (rule Cons.IH [of ?st _ ds]) (use Cons.prems \<open>cs' = d # ds\<close> in simp_all)
  moreover have "setOperand V i c st = ?st"
    using Cons.prems \<open>cs' = d # ds\<close> by (simp add: setOperand_def)
  ultimately show ?case by simp
qed

lemma resolve_all_length: "resolve_all fuel st cs = Inr rs \<Longrightarrow>
    length rs = length cs \<and> (\<forall>c \<in> set rs. \<not> is_alias (st c))"
  by (induction cs arbitrary: rs) (auto dest: resolve_not_alias)

text \<open>
  C28. \<open>getOperandValue\<close> of a constant expression evaluates the expression with the aliases
  among its operands resolved, and leaves every constant as it was.
\<close>

theorem getOperandValue_restores:
  assumes "getOperandValue fuel eval cv lv st V = Inr (v, st')"
  shows "st' = st \<and>
    (\<forall>c ops. V = OConst c \<longrightarrow> st c = NExpr ops \<longrightarrow>
       (\<exists>rs. length rs = length ops \<and> v = eval (st(c := NExpr rs)) c \<and>
          (\<forall>i < length ops. resolveAliasesOperand fuel st (ops ! i) = Inr (rs ! i)) \<and>
          (\<forall>r \<in> set rs. \<not> is_alias (st r))))"
proof -
  have nth: "resolve_all fuel st cs = Inr rs \<Longrightarrow> i < length cs \<Longrightarrow>
      resolveAliasesOperand fuel st (cs ! i) = Inr (rs ! i)" for cs rs i
    by (induction cs arbitrary: rs i) (auto simp: nth_Cons split: nat.splits)
  show ?thesis
  proof (cases "\<exists>c ops. V = OConst c \<and> st c = NExpr ops")
    case True
    then obtain c ops where c: "V = OConst c" "st c = NExpr ops" by blast
    then obtain rs where rs: "resolve_all fuel st ops = Inr rs"
      and r: "v = eval (set_operands c 0 rs st) c"
        "st' = set_operands c 0 ops (set_operands c 0 rs st)"
      using assms by (auto simp: getOperandValue_def getOperandValue_expr_def Let_def)
    note len = resolve_all_length [OF rs]
    have s1: "set_operands c 0 rs st = st(c := NExpr rs)"
      using operands_set_operands [of st c "[]" ops rs 0] c len by simp
    have "set_operands c 0 ops (st(c := NExpr rs)) = st"
      using operands_set_operands [of "st(c := NExpr rs)" c "[]" rs ops 0] c len
      by (simp add: fun_upd_idem_iff)
    with r s1 c len nth [OF rs] show ?thesis by auto
  next
    case False
    with assms show ?thesis by (auto simp: getOperandValue_def split: oper.splits cnode.splits)
  qed
qed

theorem getOperandValue_restores_witness:
  "\<exists>v. getOperandValue 3 (\<lambda>st c. operands (st c)) (\<lambda>st c. Inr []) (\<lambda>i. []) alias_example (OConst 4) =
     Inr (v, alias_example) \<and> v = [1, 2]"
proof -
  have "case getOperandValue 3 (\<lambda>st c. operands (st c)) (\<lambda>st c. Inr []) (\<lambda>i. []) alias_example (OConst 4) of
      Inl e \<Rightarrow> False | Inr (v, st') \<Rightarrow> v = [1, 2]" by code_simp
  then obtain st' where r: "getOperandValue 3 (\<lambda>st c. operands (st c)) (\<lambda>st c. Inr []) (\<lambda>i. [])
      alias_example (OConst 4) = Inr ([1, 2], st')"
    by (cases "getOperandValue 3 (\<lambda>st c. operands (st c)) (\<lambda>st c. Inr []) (\<lambda>i. [])
      alias_example (OConst 4)") auto
  with getOperandValue_restores [OF r] show ?thesis by simp
qed

text \<open>
  \<open>restoreAliasesOperands\<close> does not always put the operands back, because the map is keyed
  by the resolved operand. For an instruction with the two operands 4 and 4 over an alias, the
  alias is replaced for good; for the operands 4, 4 and 5 the second pass over 4 sets its operand
  to null.
\<close>

definition after_instruction :: "nat list \<Rightarrow> nat \<Rightarrow> nat list res" where
  "after_instruction cs c =
     rbind (fix_all 6 cs (alias_example, \<lambda>_. 0)) (\<lambda>s.
     rbind (restore_all 6 cs s) (\<lambda>s'. Inr (operands (fst s' c))))"

theorem restore_loses_aliases:
  "after_instruction [4] 4 = Inr [3, 2] \<and> after_instruction [4, 4] 4 = Inr [1, 2] \<and>
   after_instruction [4, 4, 5] 4 = Inr [0, 2]"
  by code_simp

end
