(* ===== verification/ConstValue.thy ===== *)
theory ConstValue
  imports AliasFix InterpMemory
begin

text \<open>
  \<open>MyInterpreter::getConstantValue\<close> (\<open>libirx/irinterpreter2-interpreter.cc\<close>): constant address
  computations are evaluated by the interpreter itself, aliases are followed, and the address of a
  function is its address in the interpreter.
\<close>

section \<open>Values of constants\<close>

text \<open>
  The store of constants of \<open>AliasFix\<close>, with what \<open>getConstantValue\<close> asks of a constant: the
  offset of a constant \<open>getelementptr\<close> as LLVM accumulates it, whether its type is a pointer, and
  the address of a function. \<open>base\<close> is the method of LLVM's interpreter it falls back to.
\<close>

record const_info =
  ci_gep :: "int option"
  ci_pointer :: bool
  ci_function :: "u64 option"

fun getConstantValue ::
    "nat \<Rightarrow> (nat \<Rightarrow> const_info) \<Rightarrow> (cstore \<Rightarrow> nat \<Rightarrow> gval res) \<Rightarrow> 'a irx_scheme \<Rightarrow> cstore \<Rightarrow> nat \<Rightarrow>
     gval res" where
  "getConstantValue fuel info base a st C =
     (case st C of
        NExpr ops \<Rightarrow>
          (case ci_gep (info C) of
             Some Offset \<Rightarrow>
               (case fuel of
                  0 \<Rightarrow> Inl OutOfFuel
                | Suc n \<Rightarrow>
                    rbind (getConstantValue n info base a st (ops ! 0)) (\<lambda>Result.
                      Inr (default_gval\<lparr>PointerVal := PointerVal Result + word_of_int Offset\<rparr>)))
           | None \<Rightarrow> base st C)
      | _ \<Rightarrow>
          if ci_pointer (info C)
          then rbind (resolveAliasesOperand fuel st C) (\<lambda>C'.
                 case ci_function (info C') of
                   Some F \<Rightarrow> rbind (vptr2vvptr a F) (\<lambda>v. Inr (default_gval\<lparr>PointerVal := v\<rparr>))
                 | None \<Rightarrow> base st C')
          else base st C)"

declare getConstantValue.simps [simp del]

section \<open>Addresses of functions in constants\<close>

text \<open>Constant \<open>getelementptr\<close> expressions over each other, with their offsets, down to \<open>B\<close>.\<close>

inductive gep_chain :: "cstore \<Rightarrow> (nat \<Rightarrow> const_info) \<Rightarrow> nat \<Rightarrow> int list \<Rightarrow> nat \<Rightarrow> bool" for st info where
  gep_base: "gep_chain st info B [] B"
| gep_over: "st C = NExpr ops \<Longrightarrow> ci_gep (info C) = Some off \<Longrightarrow> gep_chain st info (ops ! 0) offs B \<Longrightarrow>
    gep_chain st info C (off # offs) B"

lemma getConstantValue_chain:
  "gep_chain st info C offs B \<Longrightarrow>
   getConstantValue fuel info base a st B = Inr (default_gval\<lparr>PointerVal := v\<rparr>) \<Longrightarrow>
   getConstantValue (length offs + fuel) info base a st C =
     Inr (default_gval\<lparr>PointerVal := v + word_of_int (sum_list offs)\<rparr>)"
proof (induction rule: gep_chain.induct)
  case (gep_over C ops off offs B)
  then show ?case by (simp add: getConstantValue.simps [of "Suc _" info base a st C] default_gval_def)
qed simp

lemma getConstantValue_function:
  assumes "\<forall>ops. st B \<noteq> NExpr ops" and "ci_pointer (info B)"
    and "resolveAliasesOperand fuel st B = Inr D" and "ci_function (info D) = Some F"
    and "vptr2vvptr a F = Inr v"
  shows "getConstantValue fuel info base a st B = Inr (default_gval\<lparr>PointerVal := v\<rparr>)"
  using assms by (cases "st B") (simp_all add: getConstantValue.simps [of fuel info base a st B])

text \<open>
  The value of a constant address. A constant that is, through any chain of aliases, the
  address of a mapped function has as its value the interpreter address of that function, which
  translates to the function again; and constant \<open>getelementptr\<close> expressions over it add up
  their offsets. The fuel that resolves the aliases, with one more for each expression, is enough.
\<close>

theorem function_constant_value:
  assumes "ma_inv a bs" and "end_reads_ok er" and "F \<in> b_vptr ` set bs"
    and "gep_chain st info C offs B" and "\<forall>ops. st B \<noteq> NExpr ops" and "ci_pointer (info B)"
    and "resolveAliasesOperand fuel st B = Inr D" and "ci_function (info D) = Some F"
  shows "\<exists>v. vvptr2vptr er a v = Inr F \<and>
    getConstantValue (length offs + fuel) info base a st C =
      Inr (default_gval\<lparr>PointerVal := v + word_of_int (sum_list offs)\<rparr>)"
proof -
  obtain b where b: "b \<in> set bs" "b_vptr b = F" using assms(3) by blast
  have t: "vvptr2vptr er a (b_lo b) = Inr F" "vptr2vvptr a F = Inr (b_lo b)"
    using block_translates(1,2) [OF assms(1,2) b(1), of 0] b(2) by simp_all
  have "getConstantValue fuel info base a st B = Inr (default_gval\<lparr>PointerVal := b_lo b\<rparr>)"
    using getConstantValue_function [OF assms(5-8) t(2)] .
  from getConstantValue_chain [OF assms(4) this] t(1) show ?thesis by blast
qed

text \<open>Constant 3 is eight bytes into alias 2 of the function 1, which lies at \<open>0x7000\<close>.\<close>

theorem function_constant_value_witness:
  "\<exists>v. vvptr2vptr junk_reads one_block v = Inr 0x7000 \<and>
     getConstantValue 3 (\<lambda>c. \<lparr>ci_gep = if c = 3 then Some 8 else None, ci_pointer = True,
         ci_function = if c = 1 then Some 0x7000 else None\<rparr>) (\<lambda>st c. Inl WildPointer) one_block
       (\<lambda>c. if c = 3 then NExpr [2] else if c = 2 then NAlias 1 else NOther) 3 =
     Inr (default_gval\<lparr>PointerVal := v + 8\<rparr>)"
proof -
  let ?st = "\<lambda>c::nat. if c = 3 then NExpr [2] else if c = 2 then NAlias 1 else NOther"
  let ?info = "\<lambda>c::nat. \<lparr>ci_gep = if c = 3 then Some (8::int) else None, ci_pointer = True,
         ci_function = if c = 1 then Some (0x7000::u64) else None\<rparr>"
  have g: "gep_chain ?st ?info 3 [8] 2" by (rule gep_over [where ops = "[2]"]) (simp_all add: gep_base)
  have r: "resolveAliasesOperand 2 ?st 2 = Inr 1"
    by (simp add: resolveAliasesOperand.simps numeral_2_eq_2)
  have "\<exists>v. vvptr2vptr junk_reads one_block v = Inr 0x7000 \<and>
    getConstantValue (length [8::int] + 2) ?info (\<lambda>st c. Inl WildPointer) one_block ?st 3 =
      Inr (default_gval\<lparr>PointerVal := v + word_of_int (sum_list [8])\<rparr>)"
    by (rule function_constant_value [OF one_block_inv junk_reads_ok _ g _ _ r]) simp_all
  then show ?thesis by (simp add: numeral_3_eq_3)
qed

end
