(* ===== verification/InterpSetup.thy ===== *)
theory InterpSetup
  imports InterpMemory
begin

text \<open>
  How an interpreter is made for a module and destroyed again (\<open>createInterpreter\<close>,
  \<open>fakeSetIsThreadLocalGlobals\<close> and the destructor of \<open>MyInterpreter\<close> in
  \<open>libirx/irinterpreter2-interpreter.cc\<close>). So that LLVM's constructor does not initialise the
  globals with pointers of the host's size, all of them are marked as thread local first; then they
  get addresses of the interpreter, are initialised, and get their flags back.
\<close>

section \<open>The interpreter\<close>

definition getDeclaredFunction :: "ifunction list \<Rightarrow> string list" where
  "getDeclaredFunction fs = map if_name (filter if_decl fs)"

definition isFunctionDeclared :: "ifunction list \<Rightarrow> string \<Rightarrow> bool" where
  "isFunctionDeclared fs name \<longleftrightarrow> name \<in> set (getDeclaredFunction fs)"

definition replaceModule :: "'m list \<Rightarrow> 'm \<Rightarrow> 'm list res" where
  "replaceModule Modules M = (if Modules = [] then Inl NullDeref else Inr (butlast Modules @ [M]))"

fun fake_tls ::
    "(string \<Rightarrow> bool option) \<Rightarrow> iglobal list \<Rightarrow> (string \<Rightarrow> bool option) \<times> iglobal list" where
  "fake_tls isThreadLocal [] = (isThreadLocal, [])"
| "fake_tls isThreadLocal (GV # gs) =
     (if ig_init GV \<noteq> None
      then let (m, gs') = fake_tls (isThreadLocal(ig_name GV \<mapsto> ig_tls GV)) gs
           in (m, GV\<lparr>ig_tls := True\<rparr> # gs')
      else let (m, gs') = fake_tls isThreadLocal gs in (m, GV # gs'))"

definition fakeSetIsThreadLocalGlobals :: "iglobal list \<Rightarrow> (string \<Rightarrow> bool option) \<times> iglobal list" where
  "fakeSetIsThreadLocalGlobals gs = fake_tls Map.empty gs"

text \<open>
  \<open>isThreadLocal[name]\<close> gives \<open>false\<close> for a name that is not in the map. \<open>construct\<close> is LLVM's
  constructor of the interpreter: the addresses it gives the globals of the copied module, its
  functions, and its memory. \<open>live\<close> is the host memory the new allocator has been given.
\<close>

definition restore_tls :: "(string \<Rightarrow> bool option) \<Rightarrow> iglobal list \<Rightarrow> iglobal list" where
  "restore_tls isThreadLocal gs =
     map (\<lambda>GV. GV\<lparr>ig_tls := (case isThreadLocal (ig_name GV) of None \<Rightarrow> False | Some b \<Rightarrow> b)\<rparr>) gs"

definition createInterpreter ::
    "llvm_env \<Rightarrow> (map_allocator \<Rightarrow> end_reads) \<Rightarrow> 
     (iglobal list \<Rightarrow> ifunction list \<times> 'a interp_scheme) \<Rightarrow> u64 list \<Rightarrow> iglobal list \<Rightarrow>
     (iglobal list \<times> iglobal list \<times> 'a interp_scheme) res" where
  "createInterpreter env er construct live gs =
     (let (isThreadLocal, gs1) = fakeSetIsThreadLocalGlobals gs;
          (fs, s) = construct gs1;
          s0 = s\<lparr>allocator := new_map_allocator live, tracked := []\<rparr>
      in rbind (updateGlobalMappings env er gs1 fs s0) (\<lambda>s1.
         rbind (InitializeGlobals env er isThreadLocal gs1 s1) (\<lambda>(gs2, s2).
           Inr (restore_tls isThreadLocal gs1, gs2, s2\<lparr>allocator := ma_freeze (allocator s2)\<rparr>))))"

text \<open>The destructor gives LLVM the host addresses of the globals again.\<close>

definition undo_mapping ::
    "(map_allocator \<Rightarrow> end_reads) \<Rightarrow> iglobal \<Rightarrow> 'a interp_scheme \<Rightarrow> 'a interp_scheme res" where
  "undo_mapping er g s =
     (if ig_decl g \<or> gaddr s (ig_name g) = 0 then Inr s
      else rbind (irx_vvptr2vptr er (allocator s) (gaddr s (ig_name g))) (\<lambda>vptr.
        Inr (if vptr \<noteq> 0 then s\<lparr>gaddr := (gaddr s)(ig_name g := vptr)\<rparr> else s)))"

definition undo_mappings ::
    "(map_allocator \<Rightarrow> end_reads) \<Rightarrow> iglobal list \<Rightarrow> 'a interp_scheme \<Rightarrow> 'a interp_scheme res" where
  "undo_mappings er gs = map_each (undo_mapping er) gs"

section \<open>Creating and destroying the interpreter\<close>

definition faked :: "iglobal \<Rightarrow> iglobal" where
  "faked g = (if ig_init g \<noteq> None then g\<lparr>ig_tls := True\<rparr> else g)"

lemma faked_simps [simp]:
  "ig_name (faked g) = ig_name g" "ig_decl (faked g) = ig_decl g" "ig_ty (faked g) = ig_ty g"
  "ig_init (faked g) = ig_init g" "(faked g)\<lparr>ig_tls := b\<rparr> = g\<lparr>ig_tls := b\<rparr>"
  "ig_init g = None \<Longrightarrow> faked g = g"
  by (simp_all add: faked_def)

lemma tls_update_same [simp]: "g\<lparr>ig_tls := ig_tls g\<rparr> = g"
  by simp

lemma fake_tls_globals: "snd (fake_tls m gs) = map faked gs"
  by (induction m gs rule: fake_tls.induct) (simp_all add: split_beta faked_def del: fun_upd_apply)

lemma fake_tls_map: "fst (fake_tls m (h # gs)) =
    fst (fake_tls (if ig_init h \<noteq> None then m(ig_name h \<mapsto> ig_tls h) else m) gs)"
  by (simp add: split_beta)

lemma fake_tls_other: "n \<notin> ig_name ` set gs \<Longrightarrow> fst (fake_tls m gs) n = m n"
proof (induction gs arbitrary: m)
  case (Cons h gs)
  then show ?case unfolding fake_tls_map by simp
qed simp

lemma fake_tls_flags:
  "distinct (map ig_name gs) \<Longrightarrow> g \<in> set gs \<Longrightarrow> m (ig_name g) = None \<Longrightarrow>
   fst (fake_tls m gs) (ig_name g) = (if ig_init g \<noteq> None then Some (ig_tls g) else None)"
proof (induction gs arbitrary: m)
  case (Cons h gs)
  let ?m = "if ig_init h \<noteq> None then m(ig_name h \<mapsto> ig_tls h) else m"
  show ?case
  proof (cases "g = h")
    case True
    then have "fst (fake_tls ?m gs) (ig_name g) = ?m (ig_name g)"
      using Cons.prems(1) by (intro fake_tls_other) simp
    with True Cons.prems(3) show ?thesis unfolding fake_tls_map by simp
  next
    case False
    then have g: "g \<in> set gs" "distinct (map ig_name gs)" "ig_name h \<notin> ig_name ` set gs"
      using Cons.prems by auto
    then have "ig_name g \<noteq> ig_name h" by (metis imageI)
    then have "?m (ig_name g) = None" using Cons.prems(3) by simp
    show ?thesis unfolding fake_tls_map using Cons.IH [of ?m] g \<open>?m (ig_name g) = None\<close> by blast
  qed
qed simp

text \<open>The flags \<open>InitializeGlobals\<close> leaves: a variable that is found gets the one of the map.\<close>

definition init_found :: "(map_allocator \<Rightarrow> end_reads) \<Rightarrow> 'a interp_scheme \<Rightarrow> iglobal \<Rightarrow> bool" where
  "init_found er s g \<longleftrightarrow> ig_init g \<noteq> None \<and> irx_has (allocator s) (gaddr s (ig_name g)) \<and>
     (\<exists>p. p \<noteq> 0 \<and> irx_vvptr2vptr er (allocator s) (gaddr s (ig_name g)) = Inr p)"

lemma init_global_flag:
  "init_global env er tlmap g s = Inr (g', s') \<Longrightarrow>
   g' = (if init_found er s g then (case tlmap (ig_name g) of None \<Rightarrow> g | Some b \<Rightarrow> g\<lparr>ig_tls := b\<rparr>) else g)"
  by (auto simp: init_global_def init_found_def Let_def split: option.splits if_splits)

lemma init_found_same: "allocator s' = allocator s \<Longrightarrow> gaddr s' = gaddr s \<Longrightarrow> init_found er s' = init_found er s"
  by (simp add: init_found_def fun_eq_iff)

lemma InitializeGlobals_flags:
  "InitializeGlobals env er tlmap gs s = Inr (gs', s') \<Longrightarrow>
   gs' = map (\<lambda>g. if init_found er s g
                  then (case tlmap (ig_name g) of None \<Rightarrow> g | Some b \<Rightarrow> g\<lparr>ig_tls := b\<rparr>) else g) gs"
proof (induction gs arbitrary: s gs')
  case (Cons g gs)
  then obtain g1 s1 gs1 where one: "init_global env er tlmap g s = Inr (g1, s1)"
    and rest: "InitializeGlobals env er tlmap gs s1 = Inr (gs1, s')" and gs': "gs' = g1 # gs1"
    by auto
  have "init_found er s1 = init_found er s" using init_global_frame [OF one] by (intro init_found_same) simp_all
  with Cons.IH [OF rest] init_global_flag [OF one] gs' show ?case by simp
qed simp

lemma undo_mappings_Inr:
  assumes "undo_mappings er gs s = Inr s'" and "distinct (map ig_name gs)"
  shows "(\<forall>n. n \<notin> ig_name ` set gs \<longrightarrow> gaddr s' n = gaddr s n) \<and>
    (\<forall>g \<in> set gs. (ig_decl g \<or> gaddr s (ig_name g) = 0 \<longrightarrow> gaddr s' (ig_name g) = gaddr s (ig_name g)) \<and>
       (\<forall>q. \<not> ig_decl g \<longrightarrow> gaddr s (ig_name g) \<noteq> 0 \<longrightarrow>
          irx_vvptr2vptr er (allocator s) (gaddr s (ig_name g)) = Inr q \<longrightarrow> q \<noteq> 0 \<longrightarrow>
          gaddr s' (ig_name g) = q))"
  using assms unfolding undo_mappings_def
proof (induction gs arbitrary: s)
  case (Cons g gs)
  then obtain s1 where s1: "undo_mapping er g s = Inr s1"
    and rest: "map_each (undo_mapping er) gs s1 = Inr s'" by auto
  have one: "ig_decl g \<or> gaddr s (ig_name g) = 0 \<longrightarrow> gaddr s1 (ig_name g) = gaddr s (ig_name g)"
    "\<forall>q. \<not> ig_decl g \<longrightarrow> gaddr s (ig_name g) \<noteq> 0 \<longrightarrow>
       irx_vvptr2vptr er (allocator s) (gaddr s (ig_name g)) = Inr q \<longrightarrow> q \<noteq> 0 \<longrightarrow>
       gaddr s1 (ig_name g) = q"
    "allocator s1 = allocator s" "\<And>n. n \<noteq> ig_name g \<Longrightarrow> gaddr s1 n = gaddr s n"
    using s1 by (auto simp: undo_mapping_def split: if_splits)
  have d: "distinct (map ig_name gs)" "ig_name g \<notin> ig_name ` set gs" using Cons.prems(2) by simp_all
  have ne: "ig_name h \<noteq> ig_name g" if "h \<in> set gs" for h using d(2) that by (metis imageI)
  note ih = Cons.IH [OF rest d(1)]
  have "gaddr s' (ig_name g) = gaddr s1 (ig_name g)" using ih d(2) by blast
  moreover have "(ig_decl h \<or> gaddr s (ig_name h) = 0 \<longrightarrow> gaddr s' (ig_name h) = gaddr s (ig_name h)) \<and>
       (\<forall>q. \<not> ig_decl h \<longrightarrow> gaddr s (ig_name h) \<noteq> 0 \<longrightarrow>
          irx_vvptr2vptr er (allocator s) (gaddr s (ig_name h)) = Inr q \<longrightarrow> q \<noteq> 0 \<longrightarrow>
          gaddr s' (ig_name h) = q)" if "h \<in> set gs" for h
    using bspec [OF conjunct2 [OF ih] that] one(3) one(4) [OF ne [OF that]] by simp
  ultimately show ?case using one(1,2,4) conjunct1 [OF ih] by auto
qed simp

lemma undo_mappings_total:
  assumes "blk_rel (allocator s) bs" and "end_reads_ok er"
  shows "\<exists>s'. undo_mappings er gs s = Inr s'"
  using assms(1) unfolding undo_mappings_def
proof (induction gs arbitrary: s)
  case (Cons g gs)
  have "\<exists>s1. undo_mapping er g s = Inr s1 \<and> allocator s1 = allocator s"
    by (simp add: undo_mapping_def irx_vvptr2vptr_eq [OF Cons.prems assms(2)])
  then obtain s1 where "undo_mapping er g s = Inr s1" "blk_rel (allocator s1) bs"
    using Cons.prems by auto
  with Cons.IH [of s1] show ?case by simp
qed simp

lemma map_each_frame:
  "(\<And>x s s'. step x s = Inr s' \<Longrightarrow> P s' = P s) \<Longrightarrow> map_each step xs s = Inr s' \<Longrightarrow> P s' = P s"
  by (induction xs arbitrary: s) auto

text \<open>The new addresses are in the range of the generator, so none of them is null.\<close>

lemma map_globals_other:
  "map_each (map_global env er) gs s = Inr s' \<Longrightarrow> n \<notin> ig_name ` set gs \<Longrightarrow> gaddr s' n = gaddr s n"
proof (induction gs arbitrary: s)
  case (Cons g gs)
  then obtain s1 where s1: "map_global env er g s = Inr s1" "map_each (map_global env er) gs s1 = Inr s'"
    by auto
  from s1(1) have "gaddr s1 n = gaddr s n"
    using Cons.prems(2) by (auto simp: map_global_def split: if_splits)
  with Cons.IH [OF s1(2)] Cons.prems(2) show ?case by simp
qed simp

lemma map_global_start:
  assumes s1: "map_global env er g s = Inr s1" and vi: "vma_inv (ma_vma (allocator s))"
    and fits: "mappable_global s g \<longrightarrow> vma_fits (global_size env g) (ma_vma (allocator s))"
  shows "vma_inv (ma_vma (allocator s1)) \<and>
    startAddr (ma_vma (allocator s1)) = startAddr (ma_vma (allocator s)) \<and>
    (\<forall>z. vma_fits z (ma_vma (allocator s1)) = vma_fits z (ma_vma (allocator s))) \<and>
    (\<forall>n. n \<noteq> ig_name g \<longrightarrow> gaddr s1 n = gaddr s n) \<and>
    (mappable_global s g \<longrightarrow> startAddr (ma_vma (allocator s)) \<le> gaddr s1 (ig_name g))"
proof (cases "mappable_global s g")
  case False
  then have "s1 = s" using s1 by (auto simp: map_global_def mappable_global_def)
  with False vi show ?thesis by simp
next
  case True
  let ?v = "\<lambda>s. ma_vma (allocator s)"
  have fits: "vma_fits (global_size env g) (?v s)" using fits True by simp
  obtain r a where ra: "ma_add er (gaddr s (ig_name g)) (global_size env g) (allocator s) = Inr (r, a)"
    and s1': "s1 = s\<lparr>allocator := a, gaddr := (gaddr s)(ig_name g := ia_vvptr r)\<rparr>"
    using s1 True by (auto simp: map_global_def mappable_global_def global_size_def)
  obtain v gg where n: "vma_next (global_size env g) (?v s) = Inr (v, gg)" by (use ra in \<open>auto simp: ma_add_def\<close>)
  have "(r, a) = irx_put v (gaddr s (ig_name g)) (global_size env g) ((allocator s)\<lparr>ma_vma := gg\<rparr>)"
    using ra by (simp add: ma_add_def n Let_def split: if_splits)
  then have "ia_vvptr r = v" "ma_vma a = gg"
    using irx_put_frame(1) ma_more_fields(1) by (metis fst_conv irx_alloc.select_convs(1),
      metis map_allocator.select_convs(1) map_allocator.surjective map_allocator.update_convs(1) snd_conv)
  moreover have "v = lastAllocAddr (?v s)" "startAddr gg = startAddr (?v s)"
    using n by (auto simp: vma_next_def Let_def split: if_splits)
  moreover have "vma_inv gg" using vma_next_inv [OF vi fits n] .
  moreover have "\<forall>z. vma_fits z gg = vma_fits z (?v s)" using vma_next_fits [OF n] by simp
  moreover have "startAddr (?v s) \<le> lastAllocAddr (?v s)" using vi by (simp add: vma_inv_def)
  ultimately show ?thesis by (simp add: s1')
qed

lemma map_globals_start:
  assumes "map_each (map_global env er) gs s = Inr s'" and "vma_inv (ma_vma (allocator s))"
    and "\<forall>g \<in> set gs. mappable_global s g \<longrightarrow> vma_fits (global_size env g) (ma_vma (allocator s))"
    and "distinct (map ig_name gs)"
  shows "\<forall>g \<in> set gs. mappable_global s g \<longrightarrow> startAddr (ma_vma (allocator s)) \<le> gaddr s' (ig_name g)"
  using assms
proof (induction gs arbitrary: s)
  case (Cons g gs)
  let ?v = "\<lambda>s. ma_vma (allocator s)"
  obtain s1 where s1: "map_global env er g s = Inr s1" and rest: "map_each (map_global env er) gs s1 = Inr s'"
    using Cons.prems(1) by auto
  have d: "ig_name g \<notin> ig_name ` set gs" "distinct (map ig_name gs)" using Cons.prems(4) by simp_all
  have step: "vma_inv (?v s1) \<and> startAddr (?v s1) = startAddr (?v s) \<and> (\<forall>z. vma_fits z (?v s1) = vma_fits z (?v s)) \<and>
      (\<forall>n. n \<noteq> ig_name g \<longrightarrow> gaddr s1 n = gaddr s n) \<and>
      (mappable_global s g \<longrightarrow> startAddr (?v s) \<le> gaddr s1 (ig_name g))"
    using map_global_start [OF s1 Cons.prems(2)] Cons.prems(3) by simp
  have mp: "mappable_global s1 h = mappable_global s h" "ig_name h \<noteq> ig_name g" if "h \<in> set gs" for h
  proof -
    show "ig_name h \<noteq> ig_name g" using d(1) that by (metis imageI)
    with step show "mappable_global s1 h = mappable_global s h" by (simp add: mappable_global_def)
  qed
  have "\<forall>h \<in> set gs. mappable_global s1 h \<longrightarrow> startAddr (?v s1) \<le> gaddr s' (ig_name h)"
    using step mp Cons.prems(3) d(2) by (intro Cons.IH [OF rest]) simp_all
  moreover have "gaddr s' (ig_name g) = gaddr s1 (ig_name g)" using map_globals_other [OF rest d(1)] .
  ultimately show ?case using step mp by simp
qed simp

text \<open>Initialising the globals writes into their memory only.\<close>

lemma init_global_mem:
  assumes "init_global env er tlmap g s = Inr (g', s')"
    and "ig_init g \<noteq> None \<Longrightarrow> irx_vvptr2vptr er (allocator s) (gaddr s (ig_name g)) = Inr home"
  shows "imem s' = imem s \<or>
      (\<exists>c. ig_init g = Some c \<and> InitializeMemory env c home (imem s) = Inr (imem s'))"
    and "ig_init g = Some c \<Longrightarrow> init_found er s g \<Longrightarrow>
      tlmap (ig_name g) = Some False \<or> tlmap (ig_name g) = None \<and> \<not> ig_tls g \<Longrightarrow>
      InitializeMemory env c home (imem s) = Inr (imem s')"
  using assms by (auto simp: init_global_def init_found_def Let_def split: option.splits if_splits)

lemma init_global_bounds:
  assumes "init_global env er tlmap g s = Inr (g', s')" and "store_ok env"
    and "\<And>c. ig_init g = Some c \<Longrightarrow> cst_ok env c \<and> cst_ty c = ig_ty g"
    and "ig_init g \<noteq> None \<Longrightarrow> irx_vvptr2vptr er (allocator s) (gaddr s (ig_name g)) = Inr home \<and>
      \<not> in_range home (allocSize env (ig_ty g)) x"
  shows "imem s' x = imem s x"
proof (cases "imem s' = imem s")
  case False
  then obtain c where c: "ig_init g = Some c" "InitializeMemory env c home (imem s) = Inr (imem s')"
    using init_global_mem(1) [OF assms(1)] assms(4) by blast
  with init_bounds(1) [OF c(2) _ assms(2)] assms(3,4) show ?thesis by (auto simp: changes_only_def)
qed simp

lemma InitializeGlobals_bounds:
  assumes "InitializeGlobals env er tlmap gs s = Inr (gs', s')" and "store_ok env"
    and "\<forall>g \<in> set gs. \<forall>c. ig_init g = Some c \<longrightarrow> cst_ok env c \<and> cst_ty c = ig_ty g"
    and "\<forall>g \<in> set gs. ig_init g \<noteq> None \<longrightarrow>
      irx_vvptr2vptr er (allocator s) (gaddr s (ig_name g)) = Inr (home (ig_name g)) \<and>
      \<not> in_range (home (ig_name g)) (allocSize env (ig_ty g)) x"
  shows "imem s' x = imem s x"
  using assms(1,3,4)
proof (induction gs arbitrary: s gs')
  case (Cons g gs)
  obtain g1 s1 gs1 where one: "init_global env er tlmap g s = Inr (g1, s1)"
    and rest: "InitializeGlobals env er tlmap gs s1 = Inr (gs1, s')"
    using Cons.prems(1) by auto
  have "imem s1 x = imem s x" using Cons.prems(2,3) by (intro init_global_bounds [OF one assms(2)]) auto
  moreover have "imem s' x = imem s1 x"
    using Cons.prems init_global_frame [OF one] by (intro Cons.IH [OF rest]) auto
  ultimately show ?case by simp
qed simp

text \<open>
  A variable that is initialised keeps what its initialiser writes, when no later one shares memory
  with it.
\<close>

lemma InitializeGlobals_contents:
  assumes "InitializeGlobals env er tlmap gs s = Inr (gs', s')" and "store_ok env"
    and "\<forall>g \<in> set gs. \<forall>c. ig_init g = Some c \<longrightarrow> cst_ok env c \<and> cst_ty c = ig_ty g"
    and "\<forall>g \<in> set gs. ig_init g \<noteq> None \<longrightarrow> init_found er s g \<and>
      irx_vvptr2vptr er (allocator s) (gaddr s (ig_name g)) = Inr (home (ig_name g))"
    and "distinct gs" and "g \<in> set gs" and "ig_init g = Some c"
    and "tlmap (ig_name g) = Some False \<or> tlmap (ig_name g) = None \<and> \<not> ig_tls g"
    and "\<forall>h \<in> set gs. h \<noteq> g \<longrightarrow> ig_init h \<noteq> None \<longrightarrow>
      (\<forall>x. \<not> (in_range (home (ig_name g)) (allocSize env (ig_ty g)) x \<and>
         in_range (home (ig_name h)) (allocSize env (ig_ty h)) x))"
  shows "\<exists>m m'. InitializeMemory env c (home (ig_name g)) m = Inr m' \<and>
    (\<forall>x. in_range (home (ig_name g)) (allocSize env (ig_ty g)) x \<longrightarrow> imem s' x = m' x)"
  using assms(1,3-6,9)
proof (induction gs arbitrary: s gs')
  case (Cons h gs)
  from Cons.prems(1) obtain h1 s1 gs1 where one: "init_global env er tlmap h s = Inr (h1, s1)"
    and rest: "InitializeGlobals env er tlmap gs s1 = Inr (gs1, s')" by auto
  note f = init_global_frame [OF one]
  have found: "init_found er s1 = init_found er s" using f by (intro init_found_same) simp_all
  show ?case
  proof (cases "h = g")
    case False
    with Cons.prems found f show ?thesis by (intro Cons.IH [OF rest]) auto
  next
    case True
    then have "InitializeMemory env c (home (ig_name g)) (imem s) = Inr (imem s1)"
      using init_global_mem(2) [OF one] True assms(7,8) Cons.prems(3) by simp
    moreover have "imem s' x = imem s1 x" if "in_range (home (ig_name g)) (allocSize env (ig_ty g)) x" for x
      by (rule InitializeGlobals_bounds [OF rest assms(2), where home = home])
        (use Cons.prems f True that in auto)
    ultimately show ?thesis by blast
  qed
qed simp

lemma restore_tls_all:
  assumes "distinct (map ig_name gs)"
  shows "restore_tls (fst (fake_tls Map.empty gs)) (map faked gs) =
    map (\<lambda>g. if ig_init g = None then g\<lparr>ig_tls := False\<rparr> else g) gs"
  using fake_tls_flags [OF assms, of _ Map.empty] by (auto simp: restore_tls_def)

lemma updateGlobalMappings_mem:
  assumes "updateGlobalMappings env er gs fs s = Inr s'"
  shows "(imem s', tracked s') = (imem s, tracked s)"
proof -
  obtain s1 where s1: "map_each (map_global env er) gs s = Inr s1"
    and s': "map_each (map_function er) fs s1 = Inr s'"
    using assms by (auto simp: updateGlobalMappings_def)
  have "(imem s1, tracked s1) = (imem s, tracked s)"
    by (rule map_each_frame [OF _ s1, where P = "\<lambda>s. (imem s, tracked s)"])
      (auto simp: map_global_def split: if_splits)
  moreover have "(imem s', tracked s') = (imem s1, tracked s1)"
    by (rule map_each_frame [OF _ s', where P = "\<lambda>s. (imem s, tracked s)"])
      (auto simp: map_function_def split: if_splits)
  ultimately show ?thesis by simp
qed

text \<open>
  Every defined global has a block of its own, whose host memory is the \<open>home\<close> LLVM gave it; the
  addresses of all other names are as LLVM has them.
\<close>

definition homed :: "llvm_env \<Rightarrow> (string \<Rightarrow> u64) \<Rightarrow> iglobal list \<Rightarrow> blk list \<Rightarrow> 'a interp_scheme \<Rightarrow> bool" where
  "homed env home gs bs s \<longleftrightarrow>
     (\<forall>g \<in> set gs. \<not> ig_decl g \<longrightarrow> home (ig_name g) \<noteq> 0 \<and> gaddr s (ig_name g) \<noteq> 0 \<and>
        (\<exists>b \<in> set bs. gaddr s (ig_name g) = b_lo b \<and> b_vptr b = home (ig_name g) \<and>
           b_hi b = b_lo b + global_size env g)) \<and>
     (\<forall>g \<in> set gs. ig_decl g \<longrightarrow> gaddr s (ig_name g) = home (ig_name g)) \<and>
     (\<forall>n. n \<notin> ig_name ` set gs \<longrightarrow> gaddr s n = home n)"

lemma homed_translates:
  assumes "homed env home gs bs s" and "ma_inv a bs" and "end_reads_ok er"
    and "g \<in> set gs" and "\<not> ig_decl g" and "off \<le> global_size env g"
  shows "irx_has a (gaddr s (ig_name g) + off)"
    and "irx_vvptr2vptr er a (gaddr s (ig_name g) + off) = Inr (home (ig_name g) + off)"
proof -
  obtain b where "b \<in> set bs" "gaddr s (ig_name g) = b_lo b" "b_vptr b = home (ig_name g)"
    "b_hi b = b_lo b + global_size env g"
    using assms(1,4,5) unfolding homed_def by blast
  with block_translates(3,4) [OF assms(2,3), of b off] assms(6)
  show "irx_has a (gaddr s (ig_name g) + off)"
    "irx_vvptr2vptr er a (gaddr s (ig_name g) + off) = Inr (home (ig_name g) + off)" by simp_all
qed

lemma homed_base:
  assumes "homed env home gs bs s" and "ma_inv a bs" and "end_reads_ok er"
    and "g \<in> set gs" and "\<not> ig_decl g"
  shows "irx_has a (gaddr s (ig_name g))"
    and "irx_vvptr2vptr er a (gaddr s (ig_name g)) = Inr (home (ig_name g))"
    and "home (ig_name g) \<noteq> 0" and "gaddr s (ig_name g) \<noteq> 0"
  using homed_translates [OF assms, of 0] assms(1,4,5) by (simp_all add: homed_def)

lemma homed_same: "gaddr s' = gaddr s \<Longrightarrow> homed env home gs bs s \<Longrightarrow> homed env home gs bs s'"
  by (simp add: homed_def)

text \<open>The destructor undoes what the creation did to the addresses.\<close>

lemma homed_undo:
  assumes "homed env home gs bs s" and "ma_inv (allocator s) bs" and "end_reads_ok er"
    and "distinct (map ig_name gs)"
  shows "\<exists>s'. undo_mappings er gs s = Inr s' \<and> gaddr s' = home"
proof -
  have "blk_rel (allocator s) bs" using assms(2) by (simp add: ma_inv_def ma_core_def)
  then obtain s' where s': "undo_mappings er gs s = Inr s'" using undo_mappings_total assms(3) by blast
  note un = undo_mappings_Inr [OF s' assms(4)]
  have "gaddr s' (ig_name g) = home (ig_name g)" if "g \<in> set gs" for g
  proof (cases "ig_decl g")
    case True
    then show ?thesis using un assms(1) that by (simp add: homed_def)
  next
    case False
    with homed_base [OF assms(1-3) that] un that show ?thesis by auto
  qed
  moreover have "gaddr s' n = home n" if "n \<notin> ig_name ` set gs" for n
    using un assms(1) that by (simp add: homed_def)
  ultimately have "gaddr s' n = home n" for n by (cases "n \<in> ig_name ` set gs") auto
  then have "gaddr s' = home" by (rule ext)
  with s' show ?thesis by blast
qed

text \<open>
  What \<open>createInterpreter\<close> hands over: the memory of every definition is live, its own, and that of no
  function.
\<close>

definition construct_ok :: "llvm_env \<Rightarrow> u64 list \<Rightarrow> iglobal list \<Rightarrow> ifunction list \<Rightarrow> (string \<Rightarrow> u64) \<Rightarrow> bool" where
  "construct_ok env live gs fs home \<longleftrightarrow> distinct live \<and> distinct (map ig_name gs) \<and>
     (\<forall>g \<in> set gs. \<not> ig_decl g \<longrightarrow> home (ig_name g) \<noteq> 0 \<and> home (ig_name g) \<in> set live \<and>
        vma_fits (global_size env g) new_vma) \<and>
     inj_on (\<lambda>g. home (ig_name g)) {g \<in> set gs. \<not> ig_decl g} \<and>
     (\<forall>f \<in> set fs. mappable_function f \<longrightarrow> if_ptr f \<in> set live \<and>
        (\<forall>g \<in> set gs. \<not> ig_decl g \<longrightarrow> home (ig_name g) \<noteq> if_ptr f)) \<and>
     distinct (map if_ptr (filter mappable_function fs))"

lemma mapped_not_null:
  assumes "updateGlobalMappings env er gs fs s = Inr s1" and "ma_vma (allocator s) = new_vma"
    and "\<forall>g \<in> set gs. mappable_global s g \<longrightarrow> vma_fits (global_size env g) new_vma"
    and "distinct (map ig_name gs)" and "g \<in> set gs" and "mappable_global s g"
  shows "gaddr s1 (ig_name g) \<noteq> 0"
proof -
  obtain sg where sg: "map_each (map_global env er) gs s = Inr sg" "map_each (map_function er) fs sg = Inr s1"
    using assms(1) by (auto simp: updateGlobalMappings_def)
  have "gaddr s1 = gaddr sg"
    by (rule map_each_frame [OF _ sg(2)]) (auto simp: map_function_def split: if_splits)
  moreover have "startAddr new_vma \<le> gaddr sg (ig_name g)"
    using map_globals_start [OF sg(1)] assms(2-6) by (simp add: new_vma_inv)
  ultimately show ?thesis by (auto simp: new_vma_def)
qed

lemma homed_at_creation:
  assumes "construct_ok env live gs fs (gaddr s)" and "end_reads_ok er"
    and "allocator s = new_map_allocator live" and "updateGlobalMappings env er gs fs s = Inr s1"
  shows "\<exists>bs. ma_inv (allocator s1) bs \<and> homed env (gaddr s) gs bs s1"
proof -
  have mp: "mappable_global s g \<longleftrightarrow> \<not> ig_decl g" if "g \<in> set gs" for g
    using assms(1) that by (auto simp: construct_ok_def mappable_global_def)
  then have mpset: "{g \<in> set gs. mappable_global s g} = {g \<in> set gs. \<not> ig_decl g}" by blast
  have inv: "ma_inv (allocator s) []" and fits: "vma_fits 1 (ma_vma (allocator s))"
    and al: "host_live (allocator s) = live" "ma_vma (allocator s) = new_vma"
    using assms(1,3) new_map_allocator_inv [of live]
    by (simp_all add: construct_ok_def vma_fits_def new_map_allocator_def new_vma_def)
  have mappable: "module_mappable env s [] gs fs"
    using assms(1) fits unfolding module_mappable_def globals_mappable_def construct_ok_def al mpset
    by (auto simp: mp)
  obtain nbs fbs where nb: "ma_inv (allocator s1) ([] @ nbs @ fbs)"
    "\<forall>n. n \<notin> ig_name ` set gs \<longrightarrow> gaddr s1 n = gaddr s n" "\<forall>g \<in> set gs. maps_to env s s1 nbs g"
    using mappings_blocks [OF inv assms(2) mappable assms(4)] by blast
  have "gaddr s1 (ig_name g) \<noteq> 0" if "g \<in> set gs" "\<not> ig_decl g" for g
    using mapped_not_null [OF assms(4) al(2)] assms(1) that by (simp add: construct_ok_def mp)
  moreover have "\<exists>b \<in> set (nbs @ fbs). gaddr s1 (ig_name g) = b_lo b \<and> b_vptr b = gaddr s (ig_name g) \<and>
      b_hi b = b_lo b + global_size env g" if "g \<in> set gs" "\<not> ig_decl g" for g
    using bspec [OF nb(3) that(1)] that by (auto simp: maps_to_def mp global_size_def)
  moreover have "gaddr s1 (ig_name g) = gaddr s (ig_name g)" if "g \<in> set gs" "ig_decl g" for g
    using bspec [OF nb(3) that(1)] that by (simp add: maps_to_def mp)
  ultimately have "homed env (gaddr s) gs (nbs @ fbs) s1"
    using nb(2) assms(1) by (simp add: homed_def construct_ok_def)
  with nb(1) show ?thesis by auto
qed

lemma faked_inj: "distinct (map ig_name gs) \<Longrightarrow> inj_on faked (set gs)"
  by (metis distinct_map faked_simps(1) inj_on_def)

lemma homed_faked: "homed env home (map faked gs) bs s = homed env home gs bs s"
  by (simp add: homed_def global_size_def image_image)

lemma construct_ok_faked: "construct_ok env live gs fs home \<Longrightarrow> construct_ok env live (map faked gs) fs home"
  by (auto simp: construct_ok_def global_size_def comp_def intro!: inj_onI dest: inj_onD)

text \<open>Variables whose memory is not that of another are initialised in full.\<close>

definition own_memory :: "llvm_env \<Rightarrow> (string \<Rightarrow> u64) \<Rightarrow> iglobal list \<Rightarrow> iglobal \<Rightarrow> bool" where
  "own_memory env home gs g \<longleftrightarrow> (\<forall>h \<in> set gs. ig_name h \<noteq> ig_name g \<longrightarrow> \<not> ig_decl h \<longrightarrow>
     (\<forall>x. \<not> (in_range (home (ig_name g)) (allocSize env (ig_ty g)) x \<and>
        in_range (home (ig_name h)) (allocSize env (ig_ty h)) x)))"

definition initialised :: "llvm_env \<Rightarrow> (string \<Rightarrow> u64) \<Rightarrow> iglobal \<Rightarrow> cst \<Rightarrow> mem \<Rightarrow> bool" where
  "initialised env home g c mem \<longleftrightarrow>
     (\<exists>m m'. InitializeMemory env c (home (ig_name g)) m = Inr m' \<and>
        (\<forall>x. in_range (home (ig_name g)) (allocSize env (ig_ty g)) x \<longrightarrow> mem x = m' x))"

definition inits_typed :: "llvm_env \<Rightarrow> iglobal list \<Rightarrow> bool" where
  "inits_typed env gs \<longleftrightarrow> (\<forall>g \<in> set gs. (ig_decl g \<longleftrightarrow> ig_init g = None) \<and>
     (\<forall>c. ig_init g = Some c \<longrightarrow> cst_ok env c \<and> cst_ty c = ig_ty g))"

lemma homed_found:
  assumes "homed env home gs bs s" and "ma_inv (allocator s) bs" and "end_reads_ok er"
    and "inits_typed env gs" and "g \<in> set gs"
  shows "init_found er s g \<longleftrightarrow> ig_init g \<noteq> None"
  using homed_base [OF assms(1-3,5)] assms(4,5) by (auto simp: init_found_def inits_typed_def)

lemma homed_contents:
  assumes "InitializeGlobals env er flags gs s = Inr (gs', s')" and "store_ok env"
    and "distinct (map ig_name gs)" and "inits_typed env gs"
    and "homed env home gs bs s" and "ma_inv (allocator s) bs" and "end_reads_ok er"
    and "g \<in> set gs" and "ig_init g = Some c" and "own_memory env home gs g"
    and "flags (ig_name g) = Some False \<or> flags (ig_name g) = None \<and> \<not> ig_tls g"
  shows "initialised env home g c (imem s')"
  unfolding initialised_def
proof (rule InitializeGlobals_contents [OF assms(1,2) _ _ _ assms(8,9,11)])
  note base = homed_base [OF assms(5-7)]
  show "\<forall>g \<in> set gs. \<forall>c. ig_init g = Some c \<longrightarrow> cst_ok env c \<and> cst_ty c = ig_ty g"
    using assms(4) by (simp add: inits_typed_def)
  show "\<forall>h \<in> set gs. ig_init h \<noteq> None \<longrightarrow> init_found er s h \<and>
      irx_vvptr2vptr er (allocator s) (gaddr s (ig_name h)) = Inr (home (ig_name h))"
    using homed_found [OF assms(5-7,4)] base(2) assms(4) by (auto simp: inits_typed_def)
  show "distinct gs" using assms(3) by (simp add: distinct_map)
  have "ig_name h \<noteq> ig_name g" if "h \<in> set gs" "h \<noteq> g" for h
    using assms(3,8) that by (auto simp: distinct_map dest: inj_onD)
  then show "\<forall>h \<in> set gs. h \<noteq> g \<longrightarrow> ig_init h \<noteq> None \<longrightarrow>
      (\<forall>x. \<not> (in_range (home (ig_name g)) (allocSize env (ig_ty g)) x \<and>
         in_range (home (ig_name h)) (allocSize env (ig_ty h)) x))"
    using assms(4,10) by (auto simp: own_memory_def inits_typed_def)
qed

text \<open>Initialising the marked globals gives them their flags back and fills their memory, and no other.\<close>

lemma faked_initialized:
  assumes flags: "flags = fst (fake_tls Map.empty gs)"
    and "InitializeGlobals env er flags (map faked gs) s1 = Inr (I', s2)" and "store_ok env"
    and "distinct (map ig_name gs)" and "inits_typed env gs"
    and "homed env home gs bs s1" and "ma_inv (allocator s1) bs" and "end_reads_ok er"
  shows "I' = gs"
    and "\<forall>g \<in> set gs. \<not> ig_decl g \<longrightarrow> \<not> in_range (home (ig_name g)) (allocSize env (ig_ty g)) x \<Longrightarrow>
      imem s2 x = imem s1 x"
    and "g \<in> set gs \<Longrightarrow> ig_init g = Some c \<Longrightarrow> \<not> ig_tls g \<Longrightarrow> own_memory env home gs g \<Longrightarrow>
      initialised env home g c (imem s2)"
proof -
  have homed': "homed env home (map faked gs) bs s1" using assms(6) by (simp add: homed_faked)
  have typed': "inits_typed env (map faked gs)" using assms(5) by (simp add: inits_typed_def)
  have fl: "flags (ig_name g) = (if ig_init g \<noteq> None then Some (ig_tls g) else None)" if "g \<in> set gs" for g
    using fake_tls_flags [OF assms(4) that, of Map.empty] by (simp add: flags)
  have "init_found er s1 (faked g) \<longleftrightarrow> ig_init g \<noteq> None" if "g \<in> set gs" for g
    using homed_found [OF homed' assms(7,8) typed', of "faked g"] that by simp
  then show "I' = gs"
    unfolding InitializeGlobals_flags [OF assms(2)] map_map comp_def
    by (intro map_idI) (auto simp: fl)
  show "imem s2 x = imem s1 x"
    if "\<forall>g \<in> set gs. \<not> ig_decl g \<longrightarrow> \<not> in_range (home (ig_name g)) (allocSize env (ig_ty g)) x"
    by (rule InitializeGlobals_bounds [OF assms(2,3), where home = home])
      (use assms(5) homed_base [OF assms(6-8)] that in \<open>auto simp: inits_typed_def\<close>)
  show "initialised env home g c (imem s2)"
    if "g \<in> set gs" "ig_init g = Some c" "\<not> ig_tls g" "own_memory env home gs g"
  proof -
    have "initialised env home (faked g) c (imem s2)"
      by (rule homed_contents [OF assms(2,3) _ typed' homed' assms(7,8)])
        (use that fl [OF that(1)] assms(4) in \<open>auto simp: own_memory_def comp_def\<close>)
    then show ?thesis by (simp add: initialised_def)
  qed
qed

text \<open>What creating an interpreter goes through: the state after the mapping and the one after the initialisation.\<close>

lemma ma_add_fits:
  "ma_add er p sz a = Inr (r, a') \<Longrightarrow> vma_fits z (ma_vma a') = vma_fits z (ma_vma a)"
  by (auto simp: ma_add_def Let_def irx_put_def vma_next_fits split: if_splits)

lemma updateGlobalMappings_fits:
  assumes "updateGlobalMappings env er gs fs s = Inr s'"
  shows "vma_fits z (ma_vma (allocator s')) = vma_fits z (ma_vma (allocator s))"
proof -
  obtain s1 where s1: "map_each (map_global env er) gs s = Inr s1"
    and s': "map_each (map_function er) fs s1 = Inr s'"
    using assms by (auto simp: updateGlobalMappings_def)
  have "vma_fits z (ma_vma (allocator s1)) = vma_fits z (ma_vma (allocator s))"
    by (rule map_each_frame [OF _ s1, where P = "\<lambda>s. vma_fits z (ma_vma (allocator s))"])
      (auto simp: map_global_def ma_add_fits split: if_splits)
  moreover have "vma_fits z (ma_vma (allocator s')) = vma_fits z (ma_vma (allocator s1))"
    by (rule map_each_frame [OF _ s', where P = "\<lambda>s. vma_fits z (ma_vma (allocator s))"])
      (auto simp: map_function_def ma_add_fits split: if_splits)
  ultimately show ?thesis by simp
qed

lemma created_interpreter:
  fixes s :: "'a interp_scheme"
  assumes "end_reads_ok er" and "construct (snd (fakeSetIsThreadLocalGlobals gs)) = (fs, s)"
    and "construct_ok env live gs fs (gaddr s)" and "createInterpreter env er construct live gs = Inr (M', I', s')"
  obtains bs and s1 s2 :: "'a interp_scheme" where
    "InitializeGlobals env er (fst (fake_tls Map.empty gs)) (map faked gs) s1 = Inr (I', s2)"
    and "ma_inv (allocator s1) bs" and "homed env (gaddr s) gs bs s1" and "imem s1 = imem s"
    and "\<And>z. vma_fits z (ma_vma (allocator s1)) = vma_fits z new_vma"
    and "allocator s' = ma_freeze (allocator s1)" and "gaddr s' = gaddr s1" and "tracked s' = []"
    and "imem s' = imem s2" and "M' = restore_tls (fst (fake_tls Map.empty gs)) (map faked gs)"
proof -
  let ?gs = "map faked gs" and ?tl = "fst (fake_tls Map.empty gs)"
  let ?s0 = "s\<lparr>allocator := new_map_allocator live, tracked := []\<rparr>"
  have fk: "fakeSetIsThreadLocalGlobals gs = (?tl, ?gs)"
    by (simp add: fakeSetIsThreadLocalGlobals_def prod_eq_iff fake_tls_globals)
  obtain s1 s2 where s1: "updateGlobalMappings env er ?gs fs ?s0 = Inr s1"
    and s2: "InitializeGlobals env er ?tl ?gs s1 = Inr (I', s2)"
    and s': "s' = s2\<lparr>allocator := ma_freeze (allocator s2)\<rparr>" and M': "M' = restore_tls ?tl ?gs"
    using assms(2,4) by (auto simp: createInterpreter_def fk)
  have "construct_ok env live ?gs fs (gaddr ?s0)" using assms(3) by (simp add: construct_ok_faked)
  from homed_at_creation [OF this assms(1) _ s1] obtain bs
    where bs: "ma_inv (allocator s1) bs" "homed env (gaddr s) ?gs bs s1" by auto
  have "vma_fits z (ma_vma (allocator s1)) = vma_fits z new_vma" for z
    using updateGlobalMappings_fits [OF s1] by (simp add: new_map_allocator_def)
  with that [OF s2 bs(1)] bs(2) M' updateGlobalMappings_mem [OF s1] InitializeGlobals_frame [OF s2]
  show ?thesis by (simp add: homed_faked s')
qed

text \<open>
  C15. The life of an interpreter. For a module whose declarations are the variables without
  initialiser, with the memory LLVM gives every definition: when \<open>createInterpreter\<close> returns,
  every address of a defined global translates to the same place in that memory; initialising has
  written into the memory of the globals only, and a variable that is not thread local and shares memory
  with no other holds what its initialiser writes; the allocator is frozen, with nothing tracked; the
  interpreter's module has its thread-local flags again. The destructor gives LLVM
  back the address it had for every variable. The client's module keeps its
  flags except that a declaration is no longer thread local.
\<close>

theorem interpreter_life_cycle:
  fixes s :: "'a interp_scheme"
  assumes "end_reads_ok er" and "store_ok env" and "inits_typed env gs"
    and "construct (snd (fakeSetIsThreadLocalGlobals gs)) = (fs, s)" and "construct_ok env live gs fs (gaddr s)"
    and "createInterpreter env er construct live gs = Inr (M', I', s')"
  shows "(\<forall>g \<in> set gs. \<not> ig_decl g \<longrightarrow> (\<forall>off \<le> global_size env g.
       vvptr2vptr er (allocator s') (gaddr s' (ig_name g) + off) = Inr (gaddr s (ig_name g) + off))) \<and>
    (\<forall>x. (\<forall>g \<in> set gs. \<not> ig_decl g \<longrightarrow> \<not> in_range (gaddr s (ig_name g)) (allocSize env (ig_ty g)) x) \<longrightarrow>
       imem s' x = imem s x) \<and>
    (\<forall>g \<in> set gs. \<forall>c. ig_init g = Some c \<longrightarrow> \<not> ig_tls g \<longrightarrow> own_memory env (gaddr s) gs g \<longrightarrow>
       initialised env (gaddr s) g c (imem s')) \<and>
    (\<exists>g. ma_vma (allocator s') = vma_freeze g) \<and> tracked s' = [] \<and> I' = gs \<and>
    M' = map (\<lambda>g. if ig_init g = None then g\<lparr>ig_tls := False\<rparr> else g) gs \<and>
    (\<exists>s''. undo_mappings er I' s' = Inr s'' \<and> gaddr s'' = gaddr s)"
proof -
  obtain bs and s1 s2 :: "'a interp_scheme" where s2: "InitializeGlobals env er (fst (fake_tls Map.empty gs)) (map faked gs) s1 = Inr (I', s2)"
    and ma: "ma_inv (allocator s1) bs" and home: "homed env (gaddr s) gs bs s1" and m: "imem s1 = imem s"
    and "\<And>z. vma_fits z (ma_vma (allocator s1)) = vma_fits z new_vma"
    and f': "allocator s' = ma_freeze (allocator s1)" "gaddr s' = gaddr s1" "tracked s' = []" "imem s' = imem s2"
    and M': "M' = restore_tls (fst (fake_tls Map.empty gs)) (map faked gs)"
    by (rule created_interpreter [OF assms(1,4-6)]) (rule that)
  have names: "distinct (map ig_name gs)" using assms(5) by (simp add: construct_ok_def)
  note ini = faked_initialized [OF refl s2 assms(2) names assms(3) home ma assms(1)]
  have ma': "ma_inv (allocator s') bs" using ma_freeze_inv [OF ma] f'(1) by simp
  have vv: "vvptr2vptr er (allocator s') (gaddr s' (ig_name g) + off) = Inr (gaddr s (ig_name g) + off)"
    if "g \<in> set gs" "\<not> ig_decl g" "off \<le> global_size env g" for g off
    using homed_translates [OF home ma' assms(1) that] f'(2) by (simp add: vvptr2vptr_def)
  have "\<exists>s''. undo_mappings er I' s' = Inr s'' \<and> gaddr s'' = gaddr s"
    using homed_undo [OF homed_same [OF f'(2) home] ma' assms(1) names] ini(1) by simp
  moreover have "M' = map (\<lambda>g. if ig_init g = None then g\<lparr>ig_tls := False\<rparr> else g) gs"
    using restore_tls_all [OF names] M' by simp
  moreover have "\<exists>g. ma_vma (allocator s') = vma_freeze g" using f'(1) by (auto simp: ma_freeze_def)
  ultimately show ?thesis using vv ini f'(3) unfolding f'(4) m by blast
qed

text \<open>A module of a variable, a thread-local declaration and a function.\<close>

definition life_globals :: "iglobal list" where
  "life_globals =
     [\<lparr>ig_name = ''x'', ig_decl = False, ig_ty = MInt 32, ig_init = Some (CData (MInt 32) [7, 0, 0, 0]),
       ig_tls = False\<rparr>,
      \<lparr>ig_name = ''errno'', ig_decl = True, ig_ty = MInt 32, ig_init = None, ig_tls = True\<rparr>]"

definition life_construct :: "iglobal list \<Rightarrow> ifunction list \<times> interp" where
  "life_construct gs =
     ([\<lparr>if_name = ''main'', if_decl = False, if_ptr = 0x8000\<rparr>],
      \<lparr>allocator = new_map_allocator [], tracked = [], imem = (\<lambda>a. Some 0),
       gaddr = (\<lambda>n. 0)(''x'' := 0x7000)\<rparr>)"

theorem interpreter_life_cycle_witness:
  "\<exists>M' s' s''. createInterpreter packed_env junk_reads life_construct [0x7000, 0x8000] life_globals =
       Inr (M', life_globals, s') \<and>
     vvptr2vptr junk_reads (allocator s') (gaddr s' ''x'' + 2) = Inr 0x7002 \<and>
     undo_mappings junk_reads life_globals s' = Inr s'' \<and> gaddr s'' ''x'' = 0x7000 \<and>
     map ig_tls M' = [False, False]"
proof -
  let ?s = "snd (life_construct [])"
  have con: "life_construct (snd (fakeSetIsThreadLocalGlobals life_globals)) = (fst (life_construct []), ?s)"
    by (simp add: life_construct_def)
  have ok: "inits_typed packed_env life_globals" by (simp add: inits_typed_def life_globals_def packed_env_def)
  have con_ok: "construct_ok packed_env [0x7000, 0x8000] life_globals (fst (life_construct [])) (gaddr ?s)"
    by (auto simp: construct_ok_def inj_on_def life_globals_def life_construct_def global_size_def packed_env_def
        vma_fits_def new_vma_def)
  have "res_all (createInterpreter packed_env junk_reads life_construct [0x7000, 0x8000] life_globals)
      (\<lambda>_. True)"
    by code_simp
  then obtain M' I' s' where c: "createInterpreter packed_env junk_reads life_construct [0x7000, 0x8000]
      life_globals = Inr (M', I', s')"
    unfolding res_all_iff by (auto simp: split_paired_all)
  note th = interpreter_life_cycle [OF junk_reads_ok packed_store_ok ok con con_ok c]
  have x: "global_size packed_env (hd life_globals) = 4" "hd life_globals \<in> set life_globals"
    "\<not> ig_decl (hd life_globals)" "ig_name (hd life_globals) = ''x''" "gaddr ?s ''x'' = 0x7000"
    by (simp_all add: life_globals_def global_size_def packed_env_def life_construct_def)
  have t: "(\<forall>off \<le> global_size packed_env (hd life_globals).
       vvptr2vptr junk_reads (allocator s') (gaddr s' (ig_name (hd life_globals)) + off) =
       Inr (gaddr ?s (ig_name (hd life_globals)) + off)) \<and> I' = life_globals \<and>
     M' = map (\<lambda>g. if ig_init g = None then g\<lparr>ig_tls := False\<rparr> else g) life_globals \<and>
     (\<exists>s''. undo_mappings junk_reads I' s' = Inr s'' \<and> gaddr s'' = gaddr ?s)"
    using th x(2,3) by blast
  from t have "vvptr2vptr junk_reads (allocator s') (gaddr s' ''x'' + 2) = Inr 0x7002"
    using x by (auto dest: spec [of _ 2])
  moreover have "map ig_tls M' = [False, False]" using t by (simp add: life_globals_def)
  ultimately show ?thesis using t c x(5) by auto
qed

end
