(* ===== verification/GlobalAccess.thy ===== *)
theory GlobalAccess
  imports InterpMemory
begin

text \<open>
  Access to the program's global variables by name (\<open>libirx/irinterpreter2-global.cc\<close>): their
  address, value and content in the interpreter, and the creation of a variable at run time.

  The interpreter's module is the list of its global variables. The two searches the code leaves to
  LLVM's \<open>ExecutionEngine\<close>, by name and by address, are the record \<open>ee_lookup\<close>;
  \<open>ee_lookup_ok\<close> is what LLVM documents of them.
\<close>

section \<open>Lookups of the execution engine\<close>

record ee_lookup =
  FindGlobalVariableNamed :: "iglobal list \<Rightarrow> string \<Rightarrow> iglobal option"
  value_at :: "iglobal list \<Rightarrow> (string \<Rightarrow> u64) \<Rightarrow> u64 \<Rightarrow> iglobal option"
  own_name :: "iglobal \<Rightarrow> bool"

text \<open>
  The engine keeps an address under the mangled name of a variable and looks an address up by the
  plain one: it is only sure to find the variables for which the two are the same (\<open>own_name\<close>), which
  private ones are not.
\<close>

definition ee_lookup_ok :: "ee_lookup \<Rightarrow> bool" where
  "ee_lookup_ok ee \<longleftrightarrow>
     (\<forall>gs n. case FindGlobalVariableNamed ee gs n of
        None \<Rightarrow> \<forall>g \<in> set gs. ig_name g = n \<longrightarrow> ig_decl g
      | Some g \<Rightarrow> g \<in> set gs \<and> ig_name g = n \<and> \<not> ig_decl g) \<and>
     (\<forall>gs addr p g. value_at ee gs addr p = Some g \<longrightarrow> g \<in> set gs \<and> p \<noteq> 0 \<and> addr (ig_name g) = p) \<and>
     (\<forall>gs addr g. g \<in> set gs \<longrightarrow> own_name ee g \<longrightarrow> addr (ig_name g) \<noteq> 0 \<longrightarrow>
        (\<forall>n. addr n = addr (ig_name g) \<longrightarrow> n = ig_name g) \<longrightarrow>
        value_at ee gs addr (addr (ig_name g)) \<noteq> None)"

section \<open>Operations\<close>

definition irx_get_global_addr :: "ee_lookup \<Rightarrow> iglobal list \<Rightarrow> string \<Rightarrow> 'a interp_scheme \<Rightarrow> u64" where
  "irx_get_global_addr ee gs name s =
     (case FindGlobalVariableNamed ee gs name of
        None \<Rightarrow> 0
      | Some GV \<Rightarrow> gaddr s (ig_name GV))"

definition irx_get_global_var ::
    "llvm_env \<Rightarrow> (map_allocator \<Rightarrow> end_reads) \<Rightarrow> ee_lookup \<Rightarrow> iglobal list \<Rightarrow> string \<Rightarrow>
     'a interp_scheme \<Rightarrow> gval res" where
  "irx_get_global_var env er ee gs name s =
     (let VVAddr = irx_get_global_addr ee gs name s in
      rbind (irx_vvptr2vptr er (allocator s) VVAddr) (\<lambda>Addr.
      case value_at ee gs (gaddr s) VVAddr of
        None \<Rightarrow> Inl NullDeref
      | Some GVar \<Rightarrow> LoadValueFromMemory env default_gval Addr (ig_ty GVar) (imem s)))"

text \<open>\<open>value\<close> is the memory the caller passes, of the size the caller passes.\<close>

definition irx_set_global ::
    "(map_allocator \<Rightarrow> end_reads) \<Rightarrow> ee_lookup \<Rightarrow> iglobal list \<Rightarrow> string \<Rightarrow> u8 list \<Rightarrow>
     'a interp_scheme \<Rightarrow> 'a interp_scheme res" where
  "irx_set_global er ee gs name value s =
     (let VVAddr = irx_get_global_addr ee gs name s in
      rbind (irx_vvptr2vptr er (allocator s) VVAddr) (\<lambda>Addr.
      rbind (mem_write (imem s) Addr value) (\<lambda>m. Inr (s\<lparr>imem := m\<rparr>))))"

definition irx_set_global_field ::
    "(map_allocator \<Rightarrow> end_reads) \<Rightarrow> ee_lookup \<Rightarrow> iglobal list \<Rightarrow> string \<times> u8 list \<Rightarrow>
     'a interp_scheme \<Rightarrow> 'a interp_scheme res" where
  "irx_set_global_field er ee gs FV s = irx_set_global er ee gs (fst FV) (snd FV) s"

text \<open>
  \<open>IRModuleInterpreter::getGlobalValueAtAddress\<close> translates the address before it asks the
  execution engine; the empty name stands for no variable.
\<close>

definition getGlobalValueAtAddress ::
    "(map_allocator \<Rightarrow> end_reads) \<Rightarrow> ee_lookup \<Rightarrow> iglobal list \<Rightarrow> u64 \<Rightarrow> 'a interp_scheme \<Rightarrow>
     string res" where
  "getGlobalValueAtAddress er ee gs vvptr s =
     rbind (vvptr2vptr er (allocator s) vvptr) (\<lambda>p.
       Inr (case value_at ee gs (gaddr s) p of None \<Rightarrow> '''' | Some GV \<Rightarrow> ig_name GV))"

text \<open>
  \<open>MyInterpreter::irx_create_global\<close>: \<open>struct_type\<close> finds a structure type of the context by
  name, \<open>uniq\<close> is LLVM's name for a new variable, and \<open>mangled\<close> the name under which the execution
  engine keeps a private variable. The method of the same name of \<open>IRModuleInterpreter\<close>
  looks for the type only.
\<close>

definition create_global ::
    "llvm_env \<Rightarrow> (map_allocator \<Rightarrow> end_reads) \<Rightarrow> (string \<Rightarrow> mty option) \<Rightarrow>
     (iglobal list \<Rightarrow> string \<Rightarrow> string) \<Rightarrow> (string \<Rightarrow> string) \<Rightarrow> string \<Rightarrow> string \<Rightarrow>
     iglobal list \<times> 'a interp_scheme \<Rightarrow> (bool \<times> iglobal list \<times> 'a interp_scheme) res" where
  "create_global env er struct_type uniq mangled name typeName = (\<lambda>(gs, s).
     case struct_type typeName of
       None \<Rightarrow> Inr (False, gs, s)
     | Some Ty \<Rightarrow>
         let GV = \<lparr>ig_name = uniq gs name, ig_decl = True, ig_ty = Ty, ig_init = None, ig_tls = True\<rparr>;
             gs' = gs @ [GV];
             Ptr = gaddr s (mangled (ig_name GV))
         in if Ptr \<noteq> 0
            then rbind (ma_add er Ptr (word_of_nat (allocSize env Ty)) (allocator s)) (\<lambda>(alloc, a).
                   Inr (True, gs', s\<lparr>allocator := a, gaddr := (gaddr s)(name := ia_vvptr alloc)\<rparr>))
            else Inr (False, gs', s))"

definition irx_create_global :: "(string \<Rightarrow> mty option) \<Rightarrow> string \<Rightarrow> string \<Rightarrow> mty option \<times> bool" where
  "irx_create_global struct_type name typeName =
     ((if typeName = ''i32'' then Some (MInt 32)
       else if typeName = ''i64'' then Some (MInt 64)
       else struct_type typeName), False)"

section \<open>Properties\<close>

lemma ee_lookup_okD:
  assumes "ee_lookup_ok ee"
  shows "FindGlobalVariableNamed ee gs n = None \<Longrightarrow> g \<in> set gs \<Longrightarrow> ig_name g = n \<Longrightarrow> ig_decl g"
    and "FindGlobalVariableNamed ee gs n = Some g \<Longrightarrow> g \<in> set gs \<and> ig_name g = n \<and> \<not> ig_decl g"
    and "value_at ee gs addr p = Some g \<Longrightarrow> g \<in> set gs \<and> p \<noteq> 0 \<and> addr (ig_name g) = p"
    and "g \<in> set gs \<Longrightarrow> own_name ee g \<Longrightarrow> addr (ig_name g) \<noteq> 0 \<Longrightarrow> \<forall>n. addr n = addr (ig_name g) \<longrightarrow> n = ig_name g \<Longrightarrow>
      \<exists>h. value_at ee gs addr (addr (ig_name g)) = Some h"
proof -
  have c: "case FindGlobalVariableNamed ee gs n of
        None \<Rightarrow> \<forall>g \<in> set gs. ig_name g = n \<longrightarrow> ig_decl g
      | Some g \<Rightarrow> g \<in> set gs \<and> ig_name g = n \<and> \<not> ig_decl g"
    using assms unfolding ee_lookup_ok_def by blast
  show "FindGlobalVariableNamed ee gs n = None \<Longrightarrow> g \<in> set gs \<Longrightarrow> ig_name g = n \<Longrightarrow> ig_decl g"
    using c by simp
  show "FindGlobalVariableNamed ee gs n = Some g \<Longrightarrow> g \<in> set gs \<and> ig_name g = n \<and> \<not> ig_decl g"
    using c by simp
  show "value_at ee gs addr p = Some g \<Longrightarrow> g \<in> set gs \<and> p \<noteq> 0 \<and> addr (ig_name g) = p"
    using assms unfolding ee_lookup_ok_def by blast
  show "g \<in> set gs \<Longrightarrow> own_name ee g \<Longrightarrow> addr (ig_name g) \<noteq> 0 \<Longrightarrow> \<forall>n. addr n = addr (ig_name g) \<longrightarrow> n = ig_name g \<Longrightarrow>
      \<exists>h. value_at ee gs addr (addr (ig_name g)) = Some h"
    using assms unfolding ee_lookup_ok_def by blast
qed

lemma find_defined:
  assumes "ee_lookup_ok ee" and "g \<in> set gs" and "\<not> ig_decl g"
  shows "irx_get_global_addr ee gs (ig_name g) s = gaddr s (ig_name g)"
proof (cases "FindGlobalVariableNamed ee gs (ig_name g)")
  case None
  with ee_lookup_okD(1) [OF assms(1) None assms(2)] assms(3) show ?thesis by simp
next
  case (Some h)
  from ee_lookup_okD(2) [OF assms(1) Some] Some show ?thesis by (simp add: irx_get_global_addr_def)
qed

lemma find_undefined:
  assumes "ee_lookup_ok ee" and "\<forall>g \<in> set gs. ig_name g = n \<longrightarrow> ig_decl g"
  shows "irx_get_global_addr ee gs n s = 0"
proof (cases "FindGlobalVariableNamed ee gs n")
  case (Some h)
  from ee_lookup_okD(2) [OF assms(1) Some] assms(2) show ?thesis by blast
qed (simp add: irx_get_global_addr_def)

lemma no_value_at:
  assumes "ee_lookup_ok ee" and "\<forall>h \<in> set gs. addr (ig_name h) \<noteq> p \<or> p = 0"
  shows "value_at ee gs addr p = None"
  using ee_lookup_okD(3) [OF assms(1), of gs addr p] assms(2)
  by (cases "value_at ee gs addr p") auto

lemma value_at_defined:
  assumes "ee_lookup_ok ee" and "distinct (map ig_name gs)" and "g \<in> set gs" and "own_name ee g"
    and "gaddr s (ig_name g) \<noteq> 0" and "\<forall>n. gaddr s n = gaddr s (ig_name g) \<longrightarrow> n = ig_name g"
  shows "value_at ee gs (gaddr s) (gaddr s (ig_name g)) = Some g"
proof -
  obtain h where h: "value_at ee gs (gaddr s) (gaddr s (ig_name g)) = Some h"
    using ee_lookup_okD(4) [OF assms(1,3-6)] by blast
  from ee_lookup_okD(3) [OF assms(1) h] have "ig_name h = ig_name g" "h \<in> set gs"
    using assms(6) by auto
  with assms(2,3) have "h = g" by (auto simp: distinct_map dest: inj_onD)
  with h show ?thesis by simp
qed

lemma unknown_global:
  assumes "ee_lookup_ok ee" and "\<forall>h \<in> set gs. ig_name h = n \<longrightarrow> ig_decl h"
  shows "irx_get_global_addr ee gs n s = 0 \<and>
    (\<forall>q. irx_vvptr2vptr er (allocator s) 0 = Inr q \<longrightarrow> irx_get_global_var env er ee gs n s = Inl NullDeref)"
proof -
  have "value_at ee gs (gaddr s) 0 = None" using assms(1) by (intro no_value_at) simp_all
  with find_undefined [OF assms, of s] show ?thesis by (simp add: irx_get_global_var_def)
qed

text \<open>
  C27. Globals by name. Setting a defined global, whose address is its own and translates to
  \<open>p\<close>, writes exactly the given bytes there: they are read back, no other byte changes, and
  neither do the allocator or the addresses. A pointer of the target, narrower than eight bytes, that
  was set is what \<open>irx_get_global_var\<close> then returns, if the engine keeps the variable under its own name. Any other pointer variable whose memory does
  not overlap the written bytes returns what it did before. A name that is not defined has the address null, and getting its value
  dereferences a null pointer.
\<close>

theorem global_set_get:
  assumes "ee_lookup_ok ee" and "distinct (map ig_name gs)" and "g \<in> set gs" and "\<not> ig_decl g"
    and "gaddr s (ig_name g) \<noteq> 0" and "\<forall>n. gaddr s n = gaddr s (ig_name g) \<longrightarrow> n = ig_name g"
    and "irx_vvptr2vptr er (allocator s) (gaddr s (ig_name g)) = Inr p"
    and "irx_set_global er ee gs (ig_name g) value s = Inr s'" and "length value < 2 ^ 64"
  shows "mem_read (imem s') p (length value) = Inr value \<and>
    (\<forall>x. \<not> in_range p (length value) x \<longrightarrow> imem s' x = imem s x) \<and>
    allocator s' = allocator s \<and> gaddr s' = gaddr s \<and>
    (\<forall>t. own_name ee g \<longrightarrow> ig_ty g = MPtr t \<longrightarrow> length value = storeSize env (MPtr t) \<longrightarrow> length value < 8 \<longrightarrow>
       irx_get_global_var env er ee gs (ig_name g) s' =
         Inr (default_gval\<lparr>PointerVal := of_bytes value\<rparr>)) \<and>
    (\<forall>h q. h \<in> set gs \<longrightarrow> custom_copy env (ig_ty h) \<longrightarrow>
       irx_vvptr2vptr er (allocator s) (irx_get_global_addr ee gs (ig_name h) s) = Inr q \<longrightarrow>
       (\<forall>h'. value_at ee gs (gaddr s) (irx_get_global_addr ee gs (ig_name h) s) = Some h' \<longrightarrow> h' = h) \<longrightarrow>
       (\<forall>x. \<not> (in_range p (length value) x \<and> in_range q (store_bytes env (ig_ty h)) x)) \<longrightarrow>
       irx_get_global_var env er ee gs (ig_name h) s' = irx_get_global_var env er ee gs (ig_name h) s) \<and>
    (\<forall>n. (\<forall>h \<in> set gs. ig_name h = n \<longrightarrow> ig_decl h) \<longrightarrow> irx_get_global_addr ee gs n s = 0 \<and>
       (\<forall>q. irx_vvptr2vptr er (allocator s) 0 = Inr q \<longrightarrow>
          irx_get_global_var env er ee gs n s = Inl NullDeref))"
proof -
  let ?n = "ig_name g"
  note addr = find_defined [OF assms(1,3,4)]
  obtain m where m: "mem_write (imem s) p value = Inr m" and s': "s' = s\<lparr>imem := m\<rparr>"
    using assms(8) by (auto simp: irx_set_global_def addr assms(7))
  have len: "length value \<le> 2 ^ 64" using assms(9) by simp
  have rd: "mem_read m p (length value) = Inr value" using host.rd_wr [OF len m] .
  have frame: "\<forall>x. \<not> in_range p (length value) x \<longrightarrow> m x = imem s x"
    using mem_write_changes [OF m order_refl assms(9)] by (simp add: changes_only_def)
  have va: "value_at ee gs (gaddr s) (gaddr s ?n) = Some g" if "own_name ee g"
    using assms that by (intro value_at_defined)
  have get: "irx_get_global_var env er ee gs ?n s' = Inr (default_gval\<lparr>PointerVal := of_bytes value\<rparr>)"
    if "own_name ee g" "ig_ty g = MPtr t" "length value = storeSize env (MPtr t)" "length value < 8" for t
  proof -
    have "store_bytes env (MPtr t) = length value" "custom_copy env (MPtr t)"
      using that by (simp_all add: store_bytes_def custom_copy_def)
    then show ?thesis using that rd va assms(7)
      by (simp add: irx_get_global_var_def addr s' LoadValueFromMemory_def)
  qed
  have other: "irx_get_global_var env er ee gs (ig_name h) s' = irx_get_global_var env er ee gs (ig_name h) s"
    if "custom_copy env (ig_ty h)"
      "irx_vvptr2vptr er (allocator s) (irx_get_global_addr ee gs (ig_name h) s) = Inr q"
      "\<forall>h'. value_at ee gs (gaddr s) (irx_get_global_addr ee gs (ig_name h) s) = Some h' \<longrightarrow> h' = h"
      "\<forall>x. \<not> (in_range p (length value) x \<and> in_range q (store_bytes env (ig_ty h)) x)" for h q
  proof -
    have "mem_read m q (store_bytes env (ig_ty h)) = mem_read (imem s) q (store_bytes env (ig_ty h))"
      using host.rd_frame [OF len m] that(4) by blast
    moreover have "irx_get_global_addr ee gs (ig_name h) s' = irx_get_global_addr ee gs (ig_name h) s"
      by (simp add: irx_get_global_addr_def s' split: option.split)
    ultimately show ?thesis using that(1-3)
      by (cases "value_at ee gs (gaddr s) (irx_get_global_addr ee gs (ig_name h) s)")
        (simp_all add: irx_get_global_var_def s' LoadValueFromMemory_def)
  qed
  show ?thesis using rd frame get other unknown_global [OF assms(1), of gs _ s er env] by (simp add: s')
qed

text \<open>An execution engine of one pointer variable, mapped to the block of \<open>one_block\<close>.\<close>

definition list_lookup :: ee_lookup where
  "list_lookup =
     \<lparr>FindGlobalVariableNamed = (\<lambda>gs n. find (\<lambda>g. ig_name g = n \<and> \<not> ig_decl g) gs),
      value_at = (\<lambda>gs addr p. if p = 0 then None else find (\<lambda>g. addr (ig_name g) = p) gs),
      own_name = (\<lambda>g. True)\<rparr>"

lemma list_lookup_ok: "ee_lookup_ok list_lookup"
  unfolding ee_lookup_ok_def list_lookup_def
  by (auto simp: find_None_iff dest: find_Some_in split: option.split if_splits)

definition one_global :: iglobal where
  "one_global = \<lparr>ig_name = ''head'', ig_decl = False, ig_ty = MPtr MVoid, ig_init = None, ig_tls = False\<rparr>"

definition one_global_state :: interp where
  "one_global_state = \<lparr>allocator = one_block, tracked = [], imem = (\<lambda>a. Some 0),
     gaddr = (\<lambda>n. 0)(''head'' := 0x50000000)\<rparr>"

lemma one_block_translates: "irx_vvptr2vptr junk_reads one_block 0x50000000 = Inr 0x7000"
proof -
  have rel: "blk_rel one_block [blk0]" using one_block_inv by (simp add: ma_inv_def ma_core_def)
  show ?thesis
    by (simp add: irx_vvptr2vptr_eq [OF rel junk_reads_ok] lookup_blk_def covers_def host_addr_def)
qed

theorem global_set_get_witness:
  "\<exists>s'. irx_set_global junk_reads list_lookup [one_global] ''head'' [4, 0, 0, 0x50] one_global_state = Inr s' \<and>
     irx_get_global_var packed_env junk_reads list_lookup [one_global] ''head'' s' =
       Inr (default_gval\<lparr>PointerVal := 0x50000004\<rparr>)"
proof -
  let ?s = one_global_state
  have nm: "ig_name one_global = ''head''" "ig_ty one_global = MPtr MVoid" "\<not> ig_decl one_global"
    by (simp_all add: one_global_def)
  have tr: "irx_vvptr2vptr junk_reads (allocator ?s) (gaddr ?s (ig_name one_global)) = Inr 0x7000"
    by (simp add: one_global_state_def one_global_def one_block_translates)
  obtain m where "mem_write (imem ?s) 0x7000 [4, 0, 0, 0x50] = Inr m"
    using mem_write_total [of "imem ?s" "[4, 0, 0, 0x50]" "0x7000"] by (auto simp: one_global_state_def)
  then have st: "irx_set_global junk_reads list_lookup [one_global] (ig_name one_global) [4, 0, 0, 0x50] ?s =
      Inr (?s\<lparr>imem := m\<rparr>)"
    using tr find_defined [OF list_lookup_ok, of one_global "[one_global]" ?s] nm
    by (simp add: irx_set_global_def)
  have v: "of_bytes [4, 0, 0, 0x50] = 0x50000004" by code_simp
  have g: "gaddr ?s (ig_name one_global) \<noteq> 0"
    "\<forall>n. gaddr ?s n = gaddr ?s (ig_name one_global) \<longrightarrow> n = ig_name one_global"
    by (auto simp: one_global_state_def one_global_def)
  have sz: "storeSize packed_env (MPtr MVoid) = 4" by (simp add: packed_env_def)
  have own: "own_name list_lookup one_global" by (simp add: list_lookup_def)
  from global_set_get [OF list_lookup_ok _ _ nm(3) g tr st, where env = packed_env]
  have "irx_get_global_var packed_env junk_reads list_lookup [one_global] (ig_name one_global) (?s\<lparr>imem := m\<rparr>) =
      Inr (default_gval\<lparr>PointerVal := of_bytes [4, 0, 0, 0x50]\<rparr>)"
    using nm(2) sz own by simp
  then show ?thesis using st v nm(1) by auto
qed

text \<open>
  C40. \<open>getGlobalValueAtAddress\<close> does not find globals. The address of a mapped global is
  translated to the host's before the execution engine is asked, which knows the interpreter's: when no variable has
  the translated address, the answer for a global's own address is the empty name.
\<close>

theorem global_at_address_missed:
  assumes "ee_lookup_ok ee" and "irx_has (allocator s) (gaddr s (ig_name g))"
    and "irx_vvptr2vptr er (allocator s) (gaddr s (ig_name g)) = Inr p"
    and "\<forall>h \<in> set gs. gaddr s (ig_name h) \<noteq> p"
  shows "getGlobalValueAtAddress er ee gs (gaddr s (ig_name g)) s = Inr ''''"
proof -
  have "value_at ee gs (gaddr s) p = None"
    using assms(1,4) by (intro no_value_at) simp_all
  then show ?thesis using assms(2,3) by (simp add: getGlobalValueAtAddress_def vvptr2vptr_def)
qed

theorem global_at_address_missed_witness:
  "getGlobalValueAtAddress junk_reads list_lookup [one_global] 0x50000000 one_global_state = Inr '''' \<and>
   irx_get_global_addr list_lookup [one_global] ''head'' one_global_state = 0x50000000"
proof -
  have rel: "blk_rel one_block [blk0]" using one_block_inv by (simp add: ma_inv_def ma_core_def)
  have a: "gaddr one_global_state (ig_name one_global) = 0x50000000" "allocator one_global_state = one_block"
    by (simp_all add: one_global_state_def one_global_def)
  have "irx_has one_block 0x50000000" by (simp add: irx_has_iff [OF rel])
  then have "getGlobalValueAtAddress junk_reads list_lookup [one_global]
      (gaddr one_global_state (ig_name one_global)) one_global_state = Inr ''''"
    by (intro global_at_address_missed [OF list_lookup_ok, where p = "0x7000"])
      (simp_all add: a one_block_translates)
  then show ?thesis
    by (simp add: a irx_get_global_addr_def list_lookup_def one_global_def one_global_state_def)
qed

end
