(* ===== verification/Sections.thy ===== *)
theory Sections
  imports Prelude "HOL-Library.Char_ord" "HOL-Library.List_Lexorder"
begin

text \<open>
  The emulation of Zephyr's linker script (\<open>libirx/irinterpreter2-sections.cc\<close>): section
  finders decide which global variables belong to an iterable section and to which level of it,
  \<open>collectLinkerScriptSections\<close> lays their initialisers out in one array per section and
  replaces the start and end symbols by aliases into it.

  LLVM's module is modelled by what this code reads and writes of it: the global variables with
  name, section, value type and initialiser, and the aliases with the indices of their
  \<open>getelementptr\<close>. How LLVM renames a new global whose name is taken is not part of the
  code: it is the argument \<open>uniq\<close>.
\<close>

section \<open>The part of a module the code uses\<close>

datatype lty =
    LVoid
  | LInt nat
  | LPtr lty
  | LFun lty "lty list"
  | LStruct string
  | LArr lty nat

datatype sconst =
    SConst nat lty
  | SNull lty
  | SArray lty "sconst list"

fun const_ty :: "sconst \<Rightarrow> lty" where
  "const_ty (SConst i t) = t"
| "const_ty (SNull t) = t"
| "const_ty (SArray t cs) = LArr t (length cs)"

record gvar =
  g_name :: string
  g_section :: string
  g_ty :: lty
  g_init :: "sconst option"

record gep =
  gep_base :: string
  gep_i0 :: "32 word"
  gep_i1 :: "32 word"
  gep_cast :: bool

record lmod =
  m_globals :: "gvar list"
  m_aliases :: "(string \<times> lty \<times> gep) list"

definition getNamedGlobal :: "lmod \<Rightarrow> string \<Rightarrow> gvar option" where
  "getNamedGlobal M n = find (\<lambda>g. g_name g = n) (m_globals M)"

fun isArrayTy :: "lty \<Rightarrow> bool" where
  "isArrayTy (LArr t n) = True"
| "isArrayTy t = False"

fun getArrayElementType :: "lty \<Rightarrow> lty" where
  "getArrayElementType (LArr t n) = t"
| "getArrayElementType t = t"

section \<open>String helpers\<close>

definition startsWithAndRemove :: "string \<Rightarrow> string \<Rightarrow> bool \<times> string" where
  "startsWithAndRemove sec pre =
     (if take (length pre) sec = pre then (True, drop (length pre) sec) else (False, sec))"

text \<open>\<open>StringRef::find\<close>: the first position at which the needle occurs.\<close>

fun str_find :: "string \<Rightarrow> string \<Rightarrow> nat option" where
  "str_find s needle =
     (if take (length needle) s = needle then Some 0
      else (case s of [] \<Rightarrow> None | c # s' \<Rightarrow> map_option Suc (str_find s' needle)))"

declare str_find.simps [simp del]

definition containsAndSplitFirst :: "string \<Rightarrow> string \<Rightarrow> bool \<times> string" where
  "containsAndSplitFirst sec needle =
     (case str_find sec needle of
        Some n \<Rightarrow> (True, take n sec)
      | None \<Rightarrow> (False, sec))"

section \<open>Configurations\<close>

record section_config =
  sectionName :: "string option"
  cf_object :: "string option"
  match_list :: "string list"
  INITLIST :: "string list"
  startPrefix :: string
  startPostfix :: string
  endPrefix :: string
  endPostfix :: string
  namePrefix :: string
  namePostfix :: string

definition native_pre_tasks_conf :: section_config where
  "native_pre_tasks_conf =
     \<lparr>sectionName = Some ''native_pre_tasks'', cf_object = None, match_list = [''.native_''],
      INITLIST = [''PRE_BOOT_1'', ''PRE_BOOT_2'', ''PRE_BOOT_3'', ''FIRST_SLEEP'', ''ON_EXIT''],
      startPrefix = ''__native'', startPostfix = ''_tasks_start'',
      endPrefix = ''__native'', endPostfix = ''_tasks_end'',
      namePrefix = ''__native_'', namePostfix = ''_tasks_start''\<rparr>"

definition nsi_tasks_conf :: section_config where
  "nsi_tasks_conf =
     \<lparr>sectionName = Some ''nsi_tasks'', cf_object = None, match_list = [''.nsi_''],
      INITLIST = [''PRE_BOOT_1'', ''PRE_BOOT_2'', ''HW_INIT'', ''PRE_BOOT_3'', ''FIRST_SLEEP'',
        ''ON_EXIT_PRE'', ''ON_EXIT_POST''],
      startPrefix = ''__nsi'', startPostfix = ''_tasks_start'',
      endPrefix = ''__nsi'', endPostfix = ''_tasks_end'',
      namePrefix = ''__nsi_'', namePostfix = ''_tasks_start''\<rparr>"

definition nsi_hw_events_conf :: section_config where
  "nsi_hw_events_conf =
     \<lparr>sectionName = Some ''nsi_hw_events'', cf_object = None, match_list = [''.nsi_''],
      INITLIST = [''hw_event''],
      startPrefix = ''__nsi_hw_events'', startPostfix = ''_start'',
      endPrefix = ''__nsi_hw_events'', endPostfix = ''_end'',
      namePrefix = ''__nsi_unused_'', namePostfix = ''_unused''\<rparr>"

definition initlevel_conf :: section_config where
  "initlevel_conf =
     \<lparr>sectionName = Some ''initlevel'', cf_object = Some ''init'', match_list = [''.z_init_''],
      INITLIST = [''EARLY'', ''PRE_KERNEL_1'', ''PRE_KERNEL_2'', ''POST_KERNEL'', ''APPLICATION'',
        ''SMP''],
      startPrefix = '''', startPostfix = ''__init_start'',
      endPrefix = '''', endPostfix = ''__init_end'',
      namePrefix = ''__init_'', namePostfix = ''_start''\<rparr>"

definition configs :: "section_config list" where
  "configs = [native_pre_tasks_conf, nsi_tasks_conf, nsi_hw_events_conf, initlevel_conf]"

definition zephyrStatic :: section_config where
  "zephyrStatic =
     \<lparr>sectionName = None, cf_object = None, match_list = [], INITLIST = [],
      startPrefix = '''', startPostfix = ''_list_start'',
      endPrefix = '''', endPostfix = ''_list_end'',
      namePrefix = '''', namePostfix = ''_area''\<rparr>"

section \<open>Section finders\<close>

text \<open>
  The class hierarchy: \<open>SectionFinder\<close>, \<open>ZephyrNativeSection\<close> and
  \<open>ZephyrStaticSection\<close>, the last with its object's name. \<open>sf_list\<close> is the member
  \<open>list\<close>.
\<close>

datatype finder_kind = KBase | KNative | KStatic string

record finder =
  sf_kind :: finder_kind
  sf_conf :: section_config
  sf_list :: "string list"

definition SectionFinder :: "section_config \<Rightarrow> finder" where
  "SectionFinder conf = \<lparr>sf_kind = KBase, sf_conf = conf, sf_list = INITLIST conf\<rparr>"

definition ZephyrNativeSection :: "section_config \<Rightarrow> finder" where
  "ZephyrNativeSection conf = (SectionFinder conf)\<lparr>sf_kind := KNative\<rparr>"

definition ZephyrStaticSection :: "string \<Rightarrow> finder" where
  "ZephyrStaticSection obj = (SectionFinder zephyrStatic)\<lparr>sf_kind := KStatic obj\<rparr>"

fun match_any :: "string list \<Rightarrow> string \<Rightarrow> bool \<times> string" where
  "match_any [] sec = (False, sec)"
| "match_any (s # ss) sec =
     (let (ok, sec') = startsWithAndRemove sec s in if ok then (True, sec') else match_any ss sec)"

definition sf_test :: "finder \<Rightarrow> string \<Rightarrow> bool \<times> string" where
  "sf_test f sec =
     (case sf_kind f of
        KStatic obj \<Rightarrow>
          (let (ok, sec') = startsWithAndRemove sec (''._'' @ obj)
           in if ok then containsAndSplitFirst sec' ''.static.'' else (False, sec'))
      | _ \<Rightarrow> match_any (match_list (sf_conf f)) sec)"

text \<open>The loop over \<open>list\<close> that \<open>hasLevel\<close>, \<open>level\<close> and \<open>name\<close> share.\<close>

definition first_level :: "string list \<Rightarrow> string \<Rightarrow> string option" where
  "first_level ls sec = find (\<lambda>l. fst (startsWithAndRemove sec l)) ls"

definition sf_hasLevel :: "finder \<Rightarrow> string \<Rightarrow> bool" where
  "sf_hasLevel f sec =
     (case sf_kind f of KStatic obj \<Rightarrow> True | _ \<Rightarrow> first_level (sf_list f) sec \<noteq> None)"

definition level_error :: "string \<Rightarrow> cpp_error" where
  "level_error sec = Throw (''init level '' @ [CHR 0x27] @ sec @ [CHR 0x27] @ '' name not found'')"

definition sf_level :: "finder \<Rightarrow> string \<Rightarrow> string res" where
  "sf_level f sec =
     (case sf_kind f of
        KStatic obj \<Rightarrow> Inr sec
      | _ \<Rightarrow> (case first_level (sf_list f) sec of
                None \<Rightarrow> Inl (level_error sec)
              | Some l \<Rightarrow> Inr l))"

definition sf_name :: "finder \<Rightarrow> string \<Rightarrow> string res" where
  "sf_name f sec =
     (case sf_kind f of
        KStatic obj \<Rightarrow> Inr (sec @ namePostfix (sf_conf f))
      | _ \<Rightarrow> (case first_level (sf_list f) sec of
                None \<Rightarrow> Inl (level_error sec)
              | Some l \<Rightarrow> Inr (namePrefix (sf_conf f) @ l @ namePostfix (sf_conf f))))"

definition sf_section :: "finder \<Rightarrow> string res" where
  "sf_section f =
     (case sf_kind f of
        KStatic obj \<Rightarrow> Inr (obj @ ''_area'')
      | _ \<Rightarrow> (case sectionName (sf_conf f) of None \<Rightarrow> Inl NullDeref | Some s \<Rightarrow> Inr s))"

definition sf_start :: "finder \<Rightarrow> string \<Rightarrow> string" where
  "sf_start f sec =
     (let c = sf_conf f in
      case sf_kind f of
        KBase \<Rightarrow> startPrefix c @ sec @ startPostfix c
      | KNative \<Rightarrow> startPrefix c @ startPostfix c
      | KStatic obj \<Rightarrow> ''_'' @ obj @ ''_list_start'')"

definition sf_end :: "finder \<Rightarrow> string \<Rightarrow> string" where
  "sf_end f sec =
     (let c = sf_conf f in
      case sf_kind f of
        KBase \<Rightarrow> endPrefix c @ sec @ endPostfix c
      | KNative \<Rightarrow> endPrefix c @ endPostfix c
      | KStatic obj \<Rightarrow> ''_'' @ obj @ ''_list_end'')"

definition push_level :: "string \<Rightarrow> finder \<Rightarrow> finder" where
  "push_level l f = (if l \<in> set (sf_list f) then f else f\<lparr>sf_list := sf_list f @ [l]\<rparr>)"

definition getDefaultType :: "finder \<Rightarrow> lty" where
  "getDefaultType f =
     (case sf_kind f of KNative \<Rightarrow> LPtr (LFun LVoid []) | _ \<Rightarrow> LPtr (LInt 8))"

definition sf_getType :: "finder \<Rightarrow> lmod \<Rightarrow> lty option \<Rightarrow> lty" where
  "sf_getType f M Ty =
     (let TGV = (case getNamedGlobal M (sf_start f '''') of
                   None \<Rightarrow> getNamedGlobal M (sf_end f '''')
                 | Some g \<Rightarrow> Some g);
          GVTy = map_option (\<lambda>g. if isArrayTy (g_ty g) then getArrayElementType (g_ty g) else g_ty g) TGV;
          GVTy' = (if GVTy = None then Ty else GVTy)
      in case GVTy' of None \<Rightarrow> getDefaultType f | Some t \<Rightarrow> t)"

section \<open>Emitting symbols\<close>

definition end_offsets :: "nat \<Rightarrow> nat \<Rightarrow> nat \<times> nat" where
  "end_offsets n offset1 = (if n \<noteq> 0 \<and> offset1 = n then (1, 0) else (0, offset1))"

definition emitLinkerScriptGlobalsOffset ::
    "lmod \<Rightarrow> string \<Rightarrow> sconst list \<Rightarrow> gvar \<Rightarrow> nat \<Rightarrow> lmod res" where
  "emitLinkerScriptGlobalsOffset M sec values area offset1 =
     (let Ty = getArrayElementType (g_ty area);
          (o0, o1) = end_offsets (length values) offset1;
          gepc = (\<lambda>cast. \<lparr>gep_base = g_name area, gep_i0 = word_of_nat o0, gep_i1 = word_of_nat o1,
                       gep_cast = cast\<rparr>)
      in case getNamedGlobal M sec of
           None \<Rightarrow> Inr M
         | Some offsetGV \<Rightarrow>
             let aliassee = (if g_ty offsetGV = Ty then Some (gepc False)
                             else if isArrayTy (g_ty offsetGV) then Some (gepc True)
                             else None)
             in case aliassee of
                  None \<Rightarrow> Inl NullDeref
                | Some a \<Rightarrow>
                    Inr (M\<lparr>m_globals := remove1 offsetGV (m_globals M),
                           m_aliases := m_aliases M @ [(sec, g_ty offsetGV, a)]\<rparr>))"

definition emitLinkerScriptGlobal ::
    "(lmod \<Rightarrow> string \<Rightarrow> string) \<Rightarrow> lmod \<Rightarrow> string \<Rightarrow> lty \<Rightarrow> sconst list \<Rightarrow> gvar \<times> lmod" where
  "emitLinkerScriptGlobal uniq M sec Ty values =
     (let castedValues = map (\<lambda>v. if Ty \<noteq> const_ty v then SNull Ty else v) values;
          SectionGV = \<lparr>g_name = uniq M sec, g_section = '''', g_ty = LArr Ty (length values),
                       g_init = Some (SArray Ty castedValues)\<rparr>
      in (SectionGV, M\<lparr>m_globals := m_globals M @ [SectionGV]\<rparr>))"

section \<open>Collecting\<close>

text \<open>\<open>std::map<std::string, _>\<close>: entries in the order of their keys.\<close>

fun smap_put :: "string \<Rightarrow> 'v \<Rightarrow> (string \<times> 'v) list \<Rightarrow> (string \<times> 'v) list" where
  "smap_put k v [] = [(k, v)]"
| "smap_put k v ((k', v') # m) =
     (if k < k' then (k, v) # (k', v') # m
      else if k = k' then (k, v) # m
      else (k', v') # smap_put k v m)"

type_synonym gv_levels = "string \<Rightarrow> (string \<times> gvar) list"

text \<open>One global in the collecting loop of a finder.\<close>

definition collect_global :: "gvar \<Rightarrow> gv_levels \<times> finder \<Rightarrow> (gv_levels \<times> finder) res" where
  "collect_global g st =
     (let (GVs, f) = st in
      if g_section g = '''' then Inr st
      else let (ok, sec) = sf_test f (g_section g) in
        if ok \<and> sf_hasLevel f sec then
          rbind (sf_level f sec) (\<lambda>l.
            Inr (GVs(l := smap_put (g_section g) g (GVs l)), push_level l f))
        else Inr st)"

fun collect_globals :: "gvar list \<Rightarrow> gv_levels \<times> finder \<Rightarrow> (gv_levels \<times> finder) res" where
  "collect_globals [] st = Inr st"
| "collect_globals (g # gs) st = rbind (collect_global g st) (collect_globals gs)"

text \<open>\<open>getInitializer\<close> of a declaration trips LLVM's assertion.\<close>

fun level_values :: "(string \<times> gvar) list \<Rightarrow> sconst list res" where
  "level_values [] = Inr []"
| "level_values ((s, g) # m) =
     (case g_init g of
        None \<Rightarrow> Inl AssertFail
      | Some c \<Rightarrow> rbind (level_values m) (\<lambda>cs. Inr (c # cs)))"

fun layout_levels ::
    "gv_levels \<Rightarrow> string list \<Rightarrow> sconst list \<Rightarrow> nat list \<Rightarrow> (sconst list \<times> nat list) res" where
  "layout_levels GVs [] values indices = Inr (values, indices)"
| "layout_levels GVs (l # ls) values indices =
     rbind (level_values (GVs l)) (\<lambda>cs.
       layout_levels GVs ls (values @ cs) (indices @ [length values]))"

definition first_type :: "gv_levels \<Rightarrow> string list \<Rightarrow> lty option" where
  "first_type GVs ls =
     (case concat (map GVs ls) of [] \<Rightarrow> None | (s, g) # _ \<Rightarrow> Some (g_ty g))"

fun emit_levels ::
    "finder \<Rightarrow> string list \<Rightarrow> nat list \<Rightarrow> sconst list \<Rightarrow> gvar \<Rightarrow> lmod \<Rightarrow> lmod res" where
  "emit_levels f (l # ls) (i # is) values area M =
     rbind (if l = '''' then Inr M
            else rbind (sf_name f l) (\<lambda>n. emitLinkerScriptGlobalsOffset M n values area i))
       (emit_levels f ls is values area)"
| "emit_levels f _ _ values area M = Inr M"

definition collect_section ::
    "(lmod \<Rightarrow> string \<Rightarrow> string) \<Rightarrow> finder \<Rightarrow> lmod \<Rightarrow> lmod res" where
  "collect_section uniq f0 M =
     rbind (collect_globals (m_globals M) (\<lambda>_. [], f0)) (\<lambda>(GVs, f).
     rbind (layout_levels GVs (sf_list f) [] []) (\<lambda>(values, indices).
     let Ty = sf_getType f M (first_type GVs (sf_list f)) in
     rbind (sf_section f) (\<lambda>secname.
     let (area, M1) = emitLinkerScriptGlobal uniq M secname Ty values in
     rbind (case indices of
              [] \<Rightarrow> Inr M1
            | i # _ \<Rightarrow> emitLinkerScriptGlobalsOffset M1 (sf_start f '''') values area i) (\<lambda>M2.
     rbind (emit_levels f (sf_list f) indices values area M2) (\<lambda>M3.
     emitLinkerScriptGlobalsOffset M3 (sf_end f '''') values area (length values + 1))))))"

definition mandatory_sections :: "string list" where
  "mandatory_sections =
     [''k_object_assignment'', ''k_p4wq_initparam'', ''_static_thread_data'', ''irq_alloc'',
      ''device'', ''_deferred_init'', ''k_heap'']"

fun find_static_sections :: "gvar list \<Rightarrow> string list \<Rightarrow> finder list \<Rightarrow> finder list" where
  "find_static_sections [] found fs = fs"
| "find_static_sections (g # gs) found fs =
     (let (ok, sec) = sf_test (ZephyrStaticSection '''') (g_section g)
      in if g_section g \<noteq> '''' \<and> ok \<and> sec \<notin> set found
         then find_static_sections gs (found @ [sec]) (fs @ [ZephyrStaticSection sec])
         else find_static_sections gs found fs)"

definition InitializeZephyrSectionFinders :: "lmod \<Rightarrow> finder list" where
  "InitializeZephyrSectionFinders M =
     find_static_sections (m_globals M) mandatory_sections
       (map ZephyrStaticSection mandatory_sections) @ map ZephyrNativeSection configs"

fun collect_sections :: "(lmod \<Rightarrow> string \<Rightarrow> string) \<Rightarrow> finder list \<Rightarrow> lmod \<Rightarrow> lmod res" where
  "collect_sections uniq [] M = Inr M"
| "collect_sections uniq (f # fs) M = rbind (collect_section uniq f M) (collect_sections uniq fs)"

definition collectLinkerScriptSections :: "(lmod \<Rightarrow> string \<Rightarrow> string) \<Rightarrow> lmod \<Rightarrow> lmod res" where
  "collectLinkerScriptSections uniq M =
     collect_sections uniq (InitializeZephyrSectionFinders M) M"

section \<open>Facts about the string helpers\<close>

lemma startsWith_iff: "fst (startsWithAndRemove s p) \<longleftrightarrow> (\<exists>r. s = p @ r)"
  by (auto simp: startsWithAndRemove_def) (metis append_take_drop_id)

lemma startsWith_append [simp]: "startsWithAndRemove (p @ r) p = (True, r)"
  by (simp add: startsWithAndRemove_def)

lemma str_find_Some: "str_find s nd = Some n \<Longrightarrow> \<exists>b. s = take n s @ nd @ b"
proof (induction s nd arbitrary: n rule: str_find.induct)
  case (1 s nd)
  show ?case
  proof (cases "take (length nd) s = nd")
    case True
    with "1.prems" have "n = 0" by (simp add: str_find.simps)
    with True show ?thesis by (metis append_Nil append_take_drop_id take_0)
  next
    case False
    with "1.prems" obtain c s' m where "s = c # s'" "str_find s' nd = Some m" "n = Suc m"
      by (auto simp: str_find.simps [of s] split: list.splits)
    with "1.IH" [OF False, of c s' m] show ?thesis by auto
  qed
qed

lemma str_find_exists: "\<exists>n. str_find (a @ nd @ b) nd = Some n"
proof (induction a)
  case Nil
  then show ?case by (simp add: str_find.simps)
next
  case (Cons c a)
  then show ?case by (auto simp: str_find.simps [of "c # _"])
qed

lemma sf_test_static:
  "sf_test (ZephyrStaticSection obj) sec =
     (let (ok, sec') = startsWithAndRemove sec (''._'' @ obj)
      in if ok then containsAndSplitFirst sec' ''.static.'' else (False, sec'))"
  by (simp add: sf_test_def ZephyrStaticSection_def)

lemma static_test_iff:
  "(\<exists>l. sf_test (ZephyrStaticSection obj) sec = (True, l)) \<longleftrightarrow>
   (\<exists>x n. sec = ''._'' @ obj @ x @ ''.static.'' @ n)"
proof
  assume "\<exists>l. sf_test (ZephyrStaticSection obj) sec = (True, l)"
  then have pre: "fst (startsWithAndRemove sec (''._'' @ obj))"
    and fst: "fst (containsAndSplitFirst (snd (startsWithAndRemove sec (''._'' @ obj))) ''.static.'')"
    by (auto simp: sf_test_def ZephyrStaticSection_def split: prod.splits if_splits)
  from pre obtain r where r: "sec = (''._'' @ obj) @ r" unfolding startsWith_iff ..
  from fst have "fst (containsAndSplitFirst r ''.static.'')"
    unfolding r startsWith_append by simp
  then obtain n where "str_find r ''.static.'' = Some n"
    by (auto simp: containsAndSplitFirst_def split: option.splits)
  then obtain b where "r = take n r @ ''.static.'' @ b" using str_find_Some by blast
  with r show "\<exists>x n. sec = ''._'' @ obj @ x @ ''.static.'' @ n" by (metis append.assoc)
next
  assume "\<exists>x n. sec = ''._'' @ obj @ x @ ''.static.'' @ n"
  then obtain x n where sec: "sec = (''._'' @ obj) @ (x @ ''.static.'' @ n)" by auto
  obtain m where "str_find (x @ ''.static.'' @ n) ''.static.'' = Some m"
    using str_find_exists by blast
  then have "sf_test (ZephyrStaticSection obj) sec = (True, take m (x @ ''.static.'' @ n))"
    unfolding sec by (simp only: sf_test_static startsWith_append)
      (simp add: containsAndSplitFirst_def)
  then show "\<exists>l. sf_test (ZephyrStaticSection obj) sec = (True, l)" ..
qed

section \<open>What a finder collects\<close>

text \<open>
  Specification: the level a global belongs to, if any, and the collection of a list of globals
  as a map from levels to the last global of each section name.
\<close>

definition level_of :: "finder \<Rightarrow> gvar \<Rightarrow> string option" where
  "level_of f g =
     (let (ok, sec) = sf_test f (g_section g) in
      if g_section g = '''' \<or> \<not> ok then None
      else (case sf_kind f of KStatic obj \<Rightarrow> Some sec | _ \<Rightarrow> first_level (sf_list f) sec))"

definition put_level :: "finder \<Rightarrow> string \<Rightarrow> (string \<times> gvar) list \<Rightarrow> gvar \<Rightarrow> (string \<times> gvar) list" where
  "put_level f l m g = (if level_of f g = Some l then smap_put (g_section g) g m else m)"

definition add_level :: "finder \<Rightarrow> string list \<Rightarrow> gvar \<Rightarrow> string list" where
  "add_level f ls g =
     (case level_of f g of None \<Rightarrow> ls | Some l \<Rightarrow> if l \<in> set ls then ls else ls @ [l])"

lemma first_level_in: "first_level ls sec = Some l \<Longrightarrow> l \<in> set ls"
  by (auto simp: first_level_def find_Some_iff)

lemma collect_global_eq:
  "collect_global g (GVs, f) =
     Inr (\<lambda>l. put_level f l (GVs l) g, f\<lparr>sf_list := add_level f (sf_list f) g\<rparr>)"
proof (cases "level_of f g")
  case None
  then have "collect_global g (GVs, f) = Inr (GVs, f)"
    by (auto simp: collect_global_def level_of_def sf_hasLevel_def split: prod.splits
        finder_kind.splits if_splits)
  with None show ?thesis by (simp add: put_level_def add_level_def)
next
  case (Some l)
  then have "collect_global g (GVs, f) =
      Inr (GVs(l := smap_put (g_section g) g (GVs l)), push_level l f)"
    by (auto simp: collect_global_def level_of_def sf_hasLevel_def sf_level_def
        split: prod.splits finder_kind.splits if_splits)
  with Some show ?thesis by (auto simp: put_level_def add_level_def push_level_def fun_eq_iff)
qed

text \<open>Pushing a level a global already has does not change what later globals get.\<close>

lemma level_of_add_level: "level_of (f\<lparr>sf_list := add_level f (sf_list f) g\<rparr>) h = level_of f h"
proof (cases "sf_kind f")
  case (KStatic obj)
  then show ?thesis by (simp add: level_of_def sf_test_def split: prod.splits)
qed (auto simp: level_of_def add_level_def sf_test_def split: option.splits prod.splits if_splits
    dest: first_level_in)

lemma put_add_cong:
  "level_of f' = level_of f \<Longrightarrow> put_level f' = put_level f"
  "level_of f' = level_of f \<Longrightarrow> add_level f' = add_level f"
  by (simp_all add: put_level_def add_level_def fun_eq_iff)

lemma collect_globals_eq:
  "collect_globals gs (GVs, f) =
     Inr (\<lambda>l. foldl (put_level f l) (GVs l) gs, f\<lparr>sf_list := foldl (add_level f) (sf_list f) gs\<rparr>)"
proof (induction gs arbitrary: GVs f)
  case Nil
  then show ?case by simp
next
  case (Cons g gs)
  let ?f = "f\<lparr>sf_list := add_level f (sf_list f) g\<rparr>"
  have "put_level ?f = put_level f" "add_level ?f = add_level f"
    by (rule put_add_cong, rule ext, rule level_of_add_level)+
  with Cons.IH [of "\<lambda>l. put_level f l (GVs l) g" ?f] show ?case
    by (simp add: collect_global_eq)
qed

text \<open>Maps in key order.\<close>

lemma smap_put_keys: "fst ` set (smap_put k v m) = insert k (fst ` set m)"
  by (induction k v m rule: smap_put.induct) auto

lemma smap_put_sorted:
  "sorted_wrt (<) (map fst m) \<Longrightarrow> sorted_wrt (<) (map fst (smap_put k v m))"
proof (induction k v m rule: smap_put.induct)
  case (2 k v k' v' m)

  consider "k < k'" | "k = k'" | "k' < k" by (rule linorder_cases)
  then show ?case
  proof cases
    case 1
    with 2 show ?thesis by (auto dest: order.strict_trans)
  next
    case 3
    then have "\<forall>x \<in> fst ` set (smap_put k v m). k' < x" 
      unfolding smap_put_keys using 2 by auto
    with 2 3 show ?thesis by auto
  qed (use 2 in auto)
qed simp

lemma map_of_smap_put:
  "sorted_wrt (<) (map fst m) \<Longrightarrow> map_of (smap_put k v m) = (map_of m)(k \<mapsto> v)"
  by (induction k v m rule: smap_put.induct) (auto simp: fun_eq_iff)

lemma foldl_put_level:
  assumes "sorted_wrt (<) (map fst m)"
  shows "sorted_wrt (<) (map fst (foldl (put_level f l) m gs))" (is ?sorted)
    and "map_of (foldl (put_level f l) m gs) s =
      (case find (\<lambda>g. level_of f g = Some l \<and> g_section g = s) (rev gs) of
         None \<Rightarrow> map_of m s | Some g \<Rightarrow> Some g)" (is ?look)
proof -
  have "?sorted \<and> ?look"
  proof (induction gs rule: rev_induct)
    case Nil
    then show ?case using assms by simp
  next
    case (snoc g gs)
    then show ?case
      by (auto simp: put_level_def smap_put_sorted map_of_smap_put)
  qed
  then show ?sorted ?look by simp_all
qed

section \<open>Layout of the array\<close>

definition init_of :: "string \<times> gvar \<Rightarrow> sconst" where
  "init_of e = the (g_init (snd e))"

definition has_init :: "string \<times> gvar \<Rightarrow> bool" where
  "has_init e \<longleftrightarrow> g_init (snd e) \<noteq> None"

lemma level_values_eq:
  "level_values m = (if list_all has_init m then Inr (map init_of m) else Inl AssertFail)"
  by (induction m rule: level_values.induct) (auto simp: init_of_def has_init_def split: option.splits)

fun sums :: "nat \<Rightarrow> nat list \<Rightarrow> nat list" where
  "sums n [] = []"
| "sums n (k # ks) = n # sums (n + k) ks"

lemma layout_levels_eq:
  "layout_levels GVs ls vs is =
     (if list_all has_init (concat (map GVs ls))
      then Inr (vs @ map init_of (concat (map GVs ls)),
                is @ sums (length vs) (map (\<lambda>l. length (GVs l)) ls))
      else Inl AssertFail)"
  by (induction ls arbitrary: vs "is") (simp_all add: level_values_eq)

lemma sums_length [simp]: "length (sums n ks) = length ks"
  by (induction n ks rule: sums.induct) auto

lemma sums_nth: "i < length ks \<Longrightarrow> sums n ks ! i = n + sum_list (take i ks)"
  by (induction n ks arbitrary: i rule: sums.induct) (auto simp: nth_Cons split: nat.splits)

section \<open>Properties\<close>

text \<open>
  C20. What a section finder collects from a module. The collecting loop never throws, and of
  each level and section name it keeps exactly the last global of the module with that section
  name that the finder puts on that level; a level's globals come in strictly increasing order of
  their section names, and its levels are the configured ones followed by those met, in order of
  their first global.
\<close>

theorem finder_collects:
  "\<exists>GVs. collect_globals gs (\<lambda>_. [], f) =
      Inr (GVs, f\<lparr>sf_list := foldl (add_level f) (sf_list f) gs\<rparr>) \<and>
    (\<forall>l. sorted_wrt (<) (map fst (GVs l)) \<and>
       (\<forall>s. map_of (GVs l) s =
          find (\<lambda>g. level_of f g = Some l \<and> g_section g = s) (rev gs)))"
  by (auto simp: collect_globals_eq foldl_put_level split: option.splits)


section \<open>Emitted symbols\<close>

definition gep_for :: "gvar \<Rightarrow> nat \<Rightarrow> nat \<Rightarrow> bool \<Rightarrow> gep" where
  "gep_for area n off cast =
     \<lparr>gep_base = g_name area, gep_i0 = word_of_nat (fst (end_offsets n off)),
      gep_i1 = word_of_nat (snd (end_offsets n off)), gep_cast = cast\<rparr>"

lemma find_name_remove1:
  "g_name g \<noteq> n \<Longrightarrow> find (\<lambda>x. g_name x = n) (remove1 g xs) = find (\<lambda>x. g_name x = n) xs"
  by (induction xs) auto

lemma emit_offset_Inr:
  assumes "emitLinkerScriptGlobalsOffset M sy vs area off = Inr M'"
  shows "(\<forall>n. n \<noteq> sy \<longrightarrow> getNamedGlobal M' n = getNamedGlobal M n) \<and>
    (\<exists>as. m_aliases M' = m_aliases M @ as \<and>
      (\<forall>g. getNamedGlobal M sy = Some g \<longrightarrow>
        (sy, g_ty g, gep_for area (length vs) off (g_ty g \<noteq> getArrayElementType (g_ty area)))
          \<in> set as))"
proof (cases "getNamedGlobal M sy")
  case None
  with assms show ?thesis by (simp add: emitLinkerScriptGlobalsOffset_def split: prod.splits)
next
  case (Some og)
  have nm: "g_name og = sy" using Some by (auto simp: getNamedGlobal_def find_Some_iff)
  let ?c = "g_ty og \<noteq> getArrayElementType (g_ty area)"
  have M': "M' = M\<lparr>m_globals := remove1 og (m_globals M),
      m_aliases := m_aliases M @ [(sy, g_ty og, gep_for area (length vs) off ?c)]\<rparr>"
    using assms Some
    by (auto simp: emitLinkerScriptGlobalsOffset_def gep_for_def Let_def split: prod.splits if_splits)
  have "getNamedGlobal M' n = getNamedGlobal M n" if "n \<noteq> sy" for n
    using nm that by (simp add: M' getNamedGlobal_def find_name_remove1)
  with Some show ?thesis by (simp add: M')
qed

text \<open>The symbols of a section with the offsets they are emitted with, in order.\<close>

fun emit_all :: "(string \<times> nat) list \<Rightarrow> sconst list \<Rightarrow> gvar \<Rightarrow> lmod \<Rightarrow> lmod res" where
  "emit_all [] vs area M = Inr M"
| "emit_all ((s, i) # xs) vs area M =
     rbind (emitLinkerScriptGlobalsOffset M s vs area i) (emit_all xs vs area)"

definition level_symbol :: "finder \<Rightarrow> string \<times> nat \<Rightarrow> (string \<times> nat) list" where
  "level_symbol f x =
     (if fst x = '''' then [] else case sf_name f (fst x) of Inl e \<Rightarrow> [] | Inr n \<Rightarrow> [(n, snd x)])"

definition symbols :: "finder \<Rightarrow> string list \<Rightarrow> nat list \<Rightarrow> nat \<Rightarrow> (string \<times> nat) list" where
  "symbols f ls is n =
     (case is of [] \<Rightarrow> [] | i # _ \<Rightarrow> [(sf_start f '''', i)]) @
     concat (map (level_symbol f) (zip ls is)) @ [(sf_end f '''', n + 1)]"

lemma emit_all_append:
  "emit_all (xs @ ys) vs area M = rbind (emit_all xs vs area M) (emit_all ys vs area)"
proof (induction xs arbitrary: M)
  case (Cons x xs)
  then show ?case
    by (cases x; cases "emitLinkerScriptGlobalsOffset M (fst x) vs area (snd x)") simp_all
qed simp

lemma emit_levels_Inr:
  "emit_levels f ls is vs area M = Inr M' \<Longrightarrow>
   emit_all (concat (map (level_symbol f) (zip ls is))) vs area M = Inr M'"
proof (induction f ls "is" vs area M rule: emit_levels.induct)
  case (1 f l ls i "is" vs area M)
  show ?case
  proof (cases "l = ''''")
    case True
    with 1 show ?thesis by (simp add: level_symbol_def)
  next
    case False
    then obtain n M1 where "sf_name f l = Inr n"
      "emitLinkerScriptGlobalsOffset M n vs area i = Inr M1"
      "emit_levels f ls is vs area M1 = Inr M'"
      using "1.prems" by auto
    with "1.IH" [of M1] False show ?thesis by (simp add: level_symbol_def)
  qed
qed auto

lemma emit_all_aliases:
  assumes "emit_all xs vs area M = Inr M'" and "distinct (map fst xs)"
  shows "\<exists>as. m_aliases M' = m_aliases M @ as \<and>
    (\<forall>s i g. (s, i) \<in> set xs \<longrightarrow> getNamedGlobal M s = Some g \<longrightarrow>
      (s, g_ty g, gep_for area (length vs) i (g_ty g \<noteq> getArrayElementType (g_ty area))) \<in> set as)"
  using assms
proof (induction xs arbitrary: M)
  case Nil
  then show ?case by simp
next
  case (Cons x xs)
  obtain s i where x: "x = (s, i)" by (cases x)
  obtain M1 where M1: "emitLinkerScriptGlobalsOffset M s vs area i = Inr M1"
    and rest: "emit_all xs vs area M1 = Inr M'"
    using Cons.prems x by auto
  from emit_offset_Inr [OF M1] obtain as where as: "m_aliases M1 = m_aliases M @ as"
    "\<forall>n. n \<noteq> s \<longrightarrow> getNamedGlobal M1 n = getNamedGlobal M n"
    "\<forall>g. getNamedGlobal M s = Some g \<longrightarrow>
        (s, g_ty g, gep_for area (length vs) i (g_ty g \<noteq> getArrayElementType (g_ty area))) \<in> set as"
    by blast
  from Cons.IH [OF rest] Cons.prems obtain bs where bs: "m_aliases M' = m_aliases M1 @ bs"
    "\<forall>t j g. (t, j) \<in> set xs \<longrightarrow> getNamedGlobal M1 t = Some g \<longrightarrow>
      (t, g_ty g, gep_for area (length vs) j (g_ty g \<noteq> getArrayElementType (g_ty area))) \<in> set bs"
    by auto
  have "t \<noteq> s" if "(t, j) \<in> set xs" for t j
    using Cons.prems(2) that x by force
  with as bs show ?case
    by (intro exI [of _ "as @ bs"]) (auto simp: x)
qed

lemma find_append_Some: "find P xs = Some x \<Longrightarrow> find P (xs @ ys) = Some x"
  by (induction xs) (auto split: if_splits)

lemma getNamedGlobal_append:
  "getNamedGlobal M n = Some g \<Longrightarrow>
   getNamedGlobal (M\<lparr>m_globals := m_globals M @ gs\<rparr>) n = Some g"
  by (simp add: getNamedGlobal_def find_append_Some)

text \<open>What a finder finds in a module: its levels, their globals, the values and their offsets.\<close>

definition found_levels :: "finder \<Rightarrow> lmod \<Rightarrow> string list" where
  "found_levels f M = foldl (add_level f) (sf_list f) (m_globals M)"

definition found_in :: "finder \<Rightarrow> lmod \<Rightarrow> string \<Rightarrow> (string \<times> gvar) list" where
  "found_in f M l = foldl (put_level f l) [] (m_globals M)"

definition found_values :: "finder \<Rightarrow> lmod \<Rightarrow> sconst list" where
  "found_values f M = map init_of (concat (map (found_in f M) (found_levels f M)))"

definition found_symbols :: "finder \<Rightarrow> lmod \<Rightarrow> (string \<times> nat) list" where
  "found_symbols f M =
     symbols (f\<lparr>sf_list := found_levels f M\<rparr>) (found_levels f M)
       (sums 0 (map (\<lambda>l. length (found_in f M l)) (found_levels f M)))
       (length (found_values f M))"

lemma sf_list_irrelevant:
  "sf_section (f\<lparr>sf_list := ls\<rparr>) = sf_section f"
  "sf_getType (f\<lparr>sf_list := ls\<rparr>) M Ty = sf_getType f M Ty"
  by (simp_all add: sf_section_def sf_getType_def sf_start_def sf_end_def getDefaultType_def
      cong: finder_kind.case_cong option.case_cong)

lemma collect_section_Inr:
  assumes "collect_section uniq f M = Inr M'"
  shows "\<exists>Ty sec area M1. emitLinkerScriptGlobal uniq M sec Ty (found_values f M) = (area, M1) \<and>
    sf_section f = Inr sec \<and>
    Ty = sf_getType f M (first_type (found_in f M) (found_levels f M)) \<and>
    emit_all (found_symbols f M) (found_values f M) area M1 = Inr M'"
proof -
  let ?ls = "found_levels f M" and ?vs = "found_values f M" and ?f = "f\<lparr>sf_list := found_levels f M\<rparr>"
  let ?is = "sums 0 (map (\<lambda>l. length (found_in f M l)) ?ls)"
  obtain sec area M1 M2 M3 where sec: "sf_section f = Inr sec"
    and em: "emitLinkerScriptGlobal uniq M sec
      (sf_getType f M (first_type (found_in f M) ?ls)) ?vs = (area, M1)"
    and st: "(case ?is of [] \<Rightarrow> Inr M1
      | i # _ \<Rightarrow> emitLinkerScriptGlobalsOffset M1 (sf_start ?f '''') ?vs area i) = Inr M2"
    and lv: "emit_levels ?f ?ls ?is ?vs area M2 = Inr M3"
    and en: "emitLinkerScriptGlobalsOffset M3 (sf_end ?f '''') ?vs area (length ?vs + 1) = Inr M'"
    using assms
    by (auto simp: collect_section_def collect_globals_eq layout_levels_eq found_levels_def [symmetric]
        found_in_def [symmetric] found_values_def [symmetric] Let_def sf_list_irrelevant
        split: if_splits prod.splits)
  have "emit_all (found_symbols f M) ?vs area M1 = Inr M'"
    using st emit_levels_Inr [OF lv] en
    by (cases ?is) (simp_all add: found_symbols_def symbols_def emit_all_append)
  with sec em show ?thesis by auto
qed

text \<open>A module with two devices and the declared bounds of their section.\<close>

definition device_ty :: lty where
  "device_ty = LStruct ''struct.device''"

definition gv :: "string \<Rightarrow> string \<Rightarrow> sconst option \<Rightarrow> gvar" where
  "gv n s i = \<lparr>g_name = n, g_section = s, g_ty = device_ty, g_init = i\<rparr>"

definition device_module :: lmod where
  "device_module =
     \<lparr>m_globals =
        [gv ''_device_list_start'' '''' None, gv ''_device_list_end'' '''' None,
         gv ''uart'' ''._device.static.uart'' (Some (SConst 1 device_ty)),
         gv ''gpio'' ''._device.static.gpio'' (Some (SConst 2 device_ty))],
      m_aliases = []\<rparr>"

theorem finder_collects_example:
  "found_in (ZephyrStaticSection ''device'') device_module '''' =
     [(''._device.static.gpio'', gv ''gpio'' ''._device.static.gpio'' (Some (SConst 2 device_ty))),
      (''._device.static.uart'', gv ''uart'' ''._device.static.uart'' (Some (SConst 1 device_ty)))]"
  by code_simp

lemma emit_levels_found:
  assumes "k < length (found_levels f M)" and "found_levels f M ! k \<noteq> ''''"
    and "sf_name (f\<lparr>sf_list := found_levels f M\<rparr>) (found_levels f M ! k) = Inr n"
  shows "(n, sum_list (map (\<lambda>l. length (found_in f M l)) (take k (found_levels f M))))
    \<in> set (found_symbols f M)"
proof -
  let ?ls = "found_levels f M"
  let ?is = "sums 0 (map (\<lambda>l. length (found_in f M l)) ?ls)"
  have "?is ! k = sum_list (map (\<lambda>l. length (found_in f M l)) (take k ?ls))"
    using assms(1) by (simp add: sums_nth take_map)
  then have "(?ls ! k, sum_list (map (\<lambda>l. length (found_in f M l)) (take k ?ls))) \<in> set (zip ?ls ?is)"
    using assms(1) by (auto simp: set_zip intro!: exI [of _ k])
  with assms show ?thesis by (force simp: found_symbols_def symbols_def level_symbol_def)
qed

text \<open>
  C21. Where the symbols of a section point, when its run succeeds and its symbol names differ:
  the start symbol gets element \<open>0\<close> of the section's array, the symbol of each level the number
  of values of the levels before it, which is the position of the level's first value, and the
  end symbol the number of values plus one, one element behind the array's end.
\<close>

theorem section_symbols:
  assumes "collect_section uniq f M = Inr M'" and "distinct (map fst (found_symbols f M))"
  shows "\<exists>area. g_init area \<noteq> None \<and> g_name area = uniq M (projr (sf_section f)) \<and>
    (\<forall>g. found_levels f M \<noteq> [] \<longrightarrow> getNamedGlobal M (sf_start f '''') = Some g \<longrightarrow>
       (\<exists>c. (sf_start f '''', g_ty g, gep_for area (length (found_values f M)) 0 c)
          \<in> set (m_aliases M'))) \<and>
    (\<forall>k n g. k < length (found_levels f M) \<longrightarrow> found_levels f M ! k \<noteq> '''' \<longrightarrow>
       sf_name (f\<lparr>sf_list := found_levels f M\<rparr>) (found_levels f M ! k) = Inr n \<longrightarrow>
       getNamedGlobal M n = Some g \<longrightarrow>
       (\<exists>c. (n, g_ty g, gep_for area (length (found_values f M))
            (sum_list (map (\<lambda>l. length (found_in f M l)) (take k (found_levels f M)))) c)
          \<in> set (m_aliases M'))) \<and>
    (\<forall>g. getNamedGlobal M (sf_end f '''') = Some g \<longrightarrow>
       (\<exists>c. (sf_end f '''', g_ty g,
            \<lparr>gep_base = g_name area, gep_i0 = 0, gep_i1 = word_of_nat (length (found_values f M) + 1),
             gep_cast = c\<rparr>) \<in> set (m_aliases M')))"
proof -
  let ?vs = "found_values f M"
  obtain Ty sec area M1 where em: "emitLinkerScriptGlobal uniq M sec Ty ?vs = (area, M1)"
    and sec: "sf_section f = Inr sec"
    and run: "emit_all (found_symbols f M) ?vs area M1 = Inr M'"
    using collect_section_Inr [OF assms(1)] by blast
  have keep: "getNamedGlobal M n = Some g \<Longrightarrow> getNamedGlobal M1 n = Some g" for n g
    using em by (auto simp: emitLinkerScriptGlobal_def Let_def getNamedGlobal_append)
  have al: "\<exists>c. (s, g_ty g, gep_for area (length ?vs) i c) \<in> set (m_aliases M')"
    if "(s, i) \<in> set (found_symbols f M)" "getNamedGlobal M s = Some g" for s i g
    using emit_all_aliases [OF run assms(2)] that keep by fastforce
  have "(sf_start f '''', 0) \<in> set (found_symbols f M)" if "found_levels f M \<noteq> []"
    using that by (cases "found_levels f M")
      (simp_all add: found_symbols_def symbols_def sf_start_def)
  moreover have "(sf_end f '''', length ?vs + 1) \<in> set (found_symbols f M)"
    by (simp add: found_symbols_def symbols_def sf_end_def)
  moreover have "gep_for area (length ?vs) (length ?vs + 1) c =
      \<lparr>gep_base = g_name area, gep_i0 = 0, gep_i1 = word_of_nat (length ?vs + 1), gep_cast = c\<rparr>" for c
    by (simp add: gep_for_def end_offsets_def)
  moreover have "g_init area \<noteq> None \<and> g_name area = uniq M (projr (sf_section f))"
    using em sec by (auto simp: emitLinkerScriptGlobal_def Let_def)
  ultimately show ?thesis using al emit_levels_found by (intro exI [of _ area]) metis
qed

theorem section_symbols_witness:
  "\<exists>M' c base. collect_section (\<lambda>M n. n) (ZephyrStaticSection ''device'') device_module = Inr M' \<and>
     (''_device_list_end'', device_ty,
       \<lparr>gep_base = base, gep_i0 = 0, gep_i1 = 3, gep_cast = c\<rparr>) \<in> set (m_aliases M')"
proof -
  let ?f = "ZephyrStaticSection ''device''"
  have "case collect_section (\<lambda>M n. n) ?f device_module of Inl e \<Rightarrow> False | Inr M' \<Rightarrow> True"
    by code_simp
  then obtain M' where M': "collect_section (\<lambda>M n. n) ?f device_module = Inr M'"
    by (cases "collect_section (\<lambda>M n. n) ?f device_module") auto
  have d: "distinct (map fst (found_symbols ?f device_module))" by code_simp
  have n: "length (found_values ?f device_module) = 2" by code_simp
  have e: "sf_end ?f '''' = ''_device_list_end''" by code_simp
  have g: "getNamedGlobal device_module ''_device_list_end'' = Some (gv ''_device_list_end'' '''' None)"
    by code_simp
  from section_symbols [OF M' d] n e g M' show ?thesis by (auto simp: gv_def)
qed

text \<open>
  Which sections the finder of a static object takes: those that start with the object's
  prefix and have \<open>.static.\<close> anywhere behind it. The prefix need not end there, so the finder
  of \<open>net_if\<close> also takes the variables of \<open>net_if_dev\<close>.
\<close>

theorem static_finder_prefix:
  "(\<exists>l. sf_test (ZephyrStaticSection obj) sec = (True, l)) \<longleftrightarrow>
   (\<exists>x n. sec = ''._'' @ obj @ x @ ''.static.'' @ n)"
  by (rule static_test_iff)

theorem static_finder_prefix_witness:
  "\<exists>l. sf_test (ZephyrStaticSection ''net_if'') ''._net_if_dev.static.eth0'' = (True, l)"
  unfolding static_finder_prefix
  by (rule exI [of _ "''_dev''"], rule exI [of _ "''eth0''"]) simp

text \<open>
  Of several globals that name the same section only the last is kept: an earlier one that
  the finder takes is in no level of its collection, so its initialiser is missing from the
  array.
\<close>

theorem same_section_overwritten:
  assumes "m_globals M = as @ g1 # bs @ g2 # cs" and "distinct (m_globals M)"
    and "g_section g1 = g_section g2" and "level_of f g1 = Some l"
  shows "g1 \<notin> snd ` set (found_in f M l')"
proof
  assume "g1 \<in> snd ` set (found_in f M l')"
  then obtain s where s: "(s, g1) \<in> set (found_in f M l')" by auto
  have srt: "sorted_wrt (<) (map fst (found_in f M l'))"
    by (simp add: found_in_def foldl_put_level)
  then have "distinct (map fst (found_in f M l'))"
    by (simp add: strict_sorted_iff)
  then have "map_of (found_in f M l') s = Some g1" using s by (simp add: map_of_is_SomeI)
  then have fnd: "find (\<lambda>g. level_of f g = Some l' \<and> g_section g = s) (rev (m_globals M)) = Some g1"
    by (auto simp: found_in_def foldl_put_level split: option.splits)
  then have p: "level_of f g1 = Some l'" "g_section g1 = s"
    by (auto simp: find_Some_iff)
  have "level_of f g2 = level_of f g1" using assms(3) by (simp add: level_of_def)
  with p assms(3) have p2: "level_of f g2 = Some l' \<and> g_section g2 = s" by simp
  have "find (\<lambda>g. level_of f g = Some l' \<and> g_section g = s) (rev cs @ [g2]) \<noteq> None"
    using p2 by (auto simp: find_None_iff)
  then obtain g3 where g3: "find (\<lambda>g. level_of f g = Some l' \<and> g_section g = s) (rev cs @ [g2]) = Some g3"
    by auto
  then have "find (\<lambda>g. level_of f g = Some l' \<and> g_section g = s) (rev (m_globals M)) = Some g3"
    using find_append_Some [OF g3, of "rev bs @ [g1] @ rev as"] by (simp add: assms(1))
  with fnd have "g3 = g1" by simp
  moreover have "g3 \<in> set (rev cs @ [g2])" using find_Some_in [OF g3] by blast
  ultimately show False using assms(1,2) by auto
qed

text \<open>Two initialisation entries of the same level and priority.\<close>

definition init_ty :: lty where
  "init_ty = LStruct ''struct.init_entry''"

definition init_gv :: "string \<Rightarrow> string \<Rightarrow> nat \<Rightarrow> gvar" where
  "init_gv n s i = \<lparr>g_name = n, g_section = s, g_ty = init_ty, g_init = Some (SConst i init_ty)\<rparr>"

definition same_prio_module :: lmod where
  "same_prio_module =
     \<lparr>m_globals = [init_gv ''init_a'' ''.z_init_POST_KERNEL_P_40_SUB_0_'' 1,
        init_gv ''init_b'' ''.z_init_POST_KERNEL_P_40_SUB_0_'' 2], m_aliases = []\<rparr>"

theorem same_section_overwritten_witness:
  "init_gv ''init_a'' ''.z_init_POST_KERNEL_P_40_SUB_0_'' 1 \<notin>
     snd ` set (found_in (ZephyrNativeSection initlevel_conf) same_prio_module ''POST_KERNEL'')"
proof (rule same_section_overwritten)
  show "m_globals same_prio_module = [] @ init_gv ''init_a'' ''.z_init_POST_KERNEL_P_40_SUB_0_'' 1
      # [] @ init_gv ''init_b'' ''.z_init_POST_KERNEL_P_40_SUB_0_'' 2 # []"
    by (simp add: same_prio_module_def)
  show "distinct (m_globals same_prio_module)"
    by (simp add: same_prio_module_def init_gv_def)
  show "level_of (ZephyrNativeSection initlevel_conf)
      (init_gv ''init_a'' ''.z_init_POST_KERNEL_P_40_SUB_0_'' 1) = Some ''POST_KERNEL''"
    by code_simp
qed (simp add: init_gv_def)

text \<open>
  The entries of a level are in the order of their section names as strings, not of their
  priorities as numbers: an initialisation entry of priority 10 comes before one of priority 2.
\<close>

definition prio_module :: lmod where
  "prio_module =
     \<lparr>m_globals = [init_gv ''clock'' ''.z_init_PRE_KERNEL_1_P_2_SUB_0_'' 1,
        init_gv ''uart'' ''.z_init_PRE_KERNEL_1_P_10_SUB_0_'' 2], m_aliases = []\<rparr>"

theorem priority_order_is_textual:
  "found_values (ZephyrNativeSection initlevel_conf) prio_module =
     [SConst 2 init_ty, SConst 1 init_ty]"
  by code_simp

lemma static_test_split:
  assumes "sf_test (ZephyrStaticSection '''') sec = (True, obj)"
  shows "\<exists>b. sec = ''._'' @ obj @ ''.static.'' @ b"
proof -
  have t: "startsWithAndRemove sec ''._'' = (True, r) \<Longrightarrow> sec = ''._'' @ r" for r
    by (metis fst_conv snd_conv startsWith_append startsWith_iff)
  obtain r where r: "startsWithAndRemove sec ''._'' = (True, r)"
    and c: "containsAndSplitFirst r ''.static.'' = (True, obj)"
    using assms by (auto simp: sf_test_static split: prod.splits if_splits)
  from c obtain n where "str_find r ''.static.'' = Some n" "obj = take n r"
    by (auto simp: containsAndSplitFirst_def split: option.splits)
  then obtain b where "r = obj @ ''.static.'' @ b" using str_find_Some by blast
  with t [OF r] show ?thesis by auto
qed

lemma find_static_sections_mono: "set fs \<subseteq> set (find_static_sections gs found fs)"
proof (induction gs arbitrary: found fs)
  case (Cons g gs)
  obtain ok sec where t: "sf_test (ZephyrStaticSection '''') (g_section g) = (ok, sec)"
    by (cases "sf_test (ZephyrStaticSection '''') (g_section g)")
  show ?case
    using Cons [of fs found] Cons [of "fs @ [ZephyrStaticSection sec]" "found @ [sec]"]
    by (auto simp: t)
qed simp

lemma find_static_sections_in:
  assumes "\<forall>o' \<in> set found. ZephyrStaticSection o' \<in> set fs" and "g \<in> set gs"
    and "g_section g \<noteq> ''''" and "sf_test (ZephyrStaticSection '''') (g_section g) = (True, obj)"
  shows "ZephyrStaticSection obj \<in> set (find_static_sections gs found fs)"
  using assms
proof (induction gs found fs rule: find_static_sections.induct)
  case (2 h gs found fs)
  obtain ok sec where t: "sf_test (ZephyrStaticSection '''') (g_section h) = (ok, sec)"
    by (cases "sf_test (ZephyrStaticSection '''') (g_section h)")
  let ?take = "g_section h \<noteq> '''' \<and> ok \<and> sec \<notin> set found"
  have step: "find_static_sections (h # gs) found fs =
      (if ?take then find_static_sections gs (found @ [sec]) (fs @ [ZephyrStaticSection sec])
       else find_static_sections gs found fs)"
    by (simp add: t)
  show ?case
  proof (cases "g = h")
    case True
    with 2 t have h: "ok" "sec = obj" "g_section h \<noteq> ''''" by auto
    show ?thesis
    proof (cases "obj \<in> set found")
      case True
      with 2 h step show ?thesis using find_static_sections_mono [of fs gs found] by auto
    next
      case False
      with h step show ?thesis
        using find_static_sections_mono [of "fs @ [ZephyrStaticSection obj]" gs "found @ [obj]"]
        by auto
    qed
  next
    case False
    with 2 t step show ?thesis by (auto split: if_splits)
  qed
qed simp

text \<open>
  C36. Every static section of a module is collected: whenever the section of a global has the
  form of a static one, with \<open>obj\<close> the part between the prefix and the first \<open>.static.\<close>, the
  finders for the module include that of \<open>obj\<close>, which puts the global on its unnamed level.
\<close>

theorem static_sections_found:
  assumes "g \<in> set (m_globals M)" and "g_section g \<noteq> ''''"
    and "sf_test (ZephyrStaticSection '''') (g_section g) = (True, obj)"
  shows "ZephyrStaticSection obj \<in> set (InitializeZephyrSectionFinders M) \<and>
    level_of (ZephyrStaticSection obj) g = Some ''''"
proof
  show "ZephyrStaticSection obj \<in> set (InitializeZephyrSectionFinders M)"
    unfolding InitializeZephyrSectionFinders_def
    using find_static_sections_in [OF _ assms] by simp
next
  from assms(3) obtain b where "g_section g = ''._'' @ obj @ ''.static.'' @ b"
    using static_test_split by blast
  then have sec: "g_section g = (''._'' @ obj) @ (''.static.'' @ b)" by simp
  have z: "containsAndSplitFirst (''.static.'' @ b) ''.static.'' = (True, '''')"
    by (simp add: containsAndSplitFirst_def str_find.simps)
  have "sf_test (ZephyrStaticSection obj) (g_section g) = (True, '''')"
    unfolding sec sf_test_static startsWith_append Let_def prod.case if_True z ..
  with assms(2) show "level_of (ZephyrStaticSection obj) g = Some ''''"
    by (simp add: level_of_def ZephyrStaticSection_def)
qed

theorem static_sections_found_witness:
  "ZephyrStaticSection ''k_timer'' \<in> set (InitializeZephyrSectionFinders
     \<lparr>m_globals = [gv ''t'' ''._k_timer.static.t'' (Some (SNull device_ty))], m_aliases = []\<rparr>)"
proof -
  let ?g = "gv ''t'' ''._k_timer.static.t'' (Some (SNull device_ty))"
  have "sf_test (ZephyrStaticSection '''') (g_section ?g) = (True, ''k_timer'')" by code_simp
  from static_sections_found [of ?g "\<lparr>m_globals = [?g], m_aliases = []\<rparr>", OF _ _ this]
  show ?thesis by (simp add: gv_def)
qed

end
