(* ===== verification/ModuleLoad.thy ===== *)
theory ModuleLoad
  imports Sections
begin

text \<open>
  How a module is loaded (\<open>parseIRFiles\<close> and the queries about a module in
  \<open>libirx/irinterpreter2-interpreter.cc\<close>, \<open>hasExternal\<close> and \<open>setInitializer\<close> in
  \<open>irinterpreter2-global.cc\<close>): the files are linked, the linker script sections collected, and what
  is still external is defined. The module is the \<open>lmod\<close> of \<open>Sections\<close>. LLVM's reader, verifier and
  linker are arguments, and so is the linkage of a variable, which this code does not change.
\<close>

section \<open>The loaded module\<close>

definition getExternalSymbolsInModule :: "lmod \<Rightarrow> string list" where
  "getExternalSymbolsInModule M = map g_name (filter (\<lambda>g. g_init g = None) (m_globals M))"

definition hasExternal :: "lmod \<Rightarrow> string \<Rightarrow> bool" where
  "hasExternal M name = list_ex (\<lambda>e. name = e) (getExternalSymbolsInModule M)"

fun set_init :: "string \<Rightarrow> sconst \<Rightarrow> gvar list \<Rightarrow> gvar list" where
  "set_init n c [] = []"
| "set_init n c (g # gs) = (if g_name g = n then g\<lparr>g_init := Some c\<rparr> # gs else g # set_init n c gs)"

text \<open>
  The type of a global variable as a value is that of a pointer to its content. LLVM's \<open>setInitializer\<close> asserts
  that the constant has the type of the content.
\<close>

definition setInitializer ::
    "(lmod \<Rightarrow> string \<Rightarrow> sconst option) \<Rightarrow> string \<Rightarrow> string \<Rightarrow> lmod \<Rightarrow> (bool \<times> lmod) res" where
  "setInitializer parseConstantString name str M =
     (case getNamedGlobal M name of
        None \<Rightarrow> Inr (False, M)
      | Some g \<Rightarrow>
          (case (if str \<noteq> '''' then parseConstantString M str else Some (SNull (LPtr (g_ty g)))) of
             None \<Rightarrow> Inr (False, M)
           | Some c \<Rightarrow>
               if const_ty c \<noteq> g_ty g then Inl AssertFail
               else Inr (True, M\<lparr>m_globals := set_init name c (m_globals M)\<rparr>)))"

text \<open>The loop that links the files; a file that is not read or verified ends it.\<close>

fun link_files ::
    "(string \<Rightarrow> lmod option) \<Rightarrow> (lmod \<Rightarrow> bool) \<Rightarrow> (lmod \<Rightarrow> lmod \<Rightarrow> lmod) \<Rightarrow> string list \<Rightarrow> lmod \<Rightarrow>
     bool \<times> lmod" where
  "link_files parseIRFile broken linkModules [] M = (True, M)"
| "link_files parseIRFile broken linkModules (f # fs) M =
     (case parseIRFile f of
        None \<Rightarrow> (False, M)
      | Some m \<Rightarrow>
          if broken m then (False, M)
          else link_files parseIRFile broken linkModules fs (linkModules M m))"

text \<open>\<open>done\<close> are the globals the loop has passed; \<open>uniq\<close> is LLVM's choice of a name.\<close>

fun name_globals ::
    "(lmod \<Rightarrow> string \<Rightarrow> string) \<Rightarrow> lmod \<Rightarrow> gvar list \<Rightarrow> gvar list \<Rightarrow> lmod" where
  "name_globals uniq M done [] = M\<lparr>m_globals := done\<rparr>"
| "name_globals uniq M done (g # gs) =
     name_globals uniq M
       (done @ [if g_name g = '''' then g\<lparr>g_name := uniq (M\<lparr>m_globals := done @ g # gs\<rparr>) ''unnamed''\<rparr>
                else g]) gs"

definition define_externals :: "(string \<Rightarrow> bool) \<Rightarrow> lmod \<Rightarrow> lmod" where
  "define_externals hasExternalLinkage M =
     M\<lparr>m_globals := map (\<lambda>g. if hasExternalLinkage (g_name g) \<and> g_init g = None
                           then g\<lparr>g_init := Some (SNull (g_ty g))\<rparr> else g) (m_globals M)\<rparr>"

definition parseIRFiles ::
    "(string \<Rightarrow> lmod option) \<Rightarrow> (lmod \<Rightarrow> bool) \<Rightarrow> (lmod \<Rightarrow> lmod \<Rightarrow> lmod) \<Rightarrow>
     (lmod \<Rightarrow> string \<Rightarrow> string) \<Rightarrow> (string \<Rightarrow> bool) \<Rightarrow> string list \<Rightarrow> lmod \<Rightarrow> (bool \<times> lmod) res" where
  "parseIRFiles parseIRFile broken linkModules uniq hasExternalLinkage InputFilenames M =
     (let (ok, M1) = link_files parseIRFile broken linkModules InputFilenames M in
      if \<not> ok \<or> broken M1 then Inr (False, M1)
      else
        let M2 = name_globals uniq M1 [] (m_globals M1) in
        rbind (if getNamedGlobal M2 ''initlevel'' = None then collectLinkerScriptSections uniq M2
               else Inr M2) (\<lambda>M3.
          Inr (True, define_externals hasExternalLinkage (define_externals hasExternalLinkage M3))))"

definition getPointerSize :: "nat option \<Rightarrow> nat" where
  "getPointerSize DL = (case DL of None \<Rightarrow> 64 | Some n \<Rightarrow> n)"

section \<open>Loading\<close>

text \<open>
  LLVM changes the name of a new variable only when it is empty or taken, by a variable, an alias or a
  function; \<open>fns\<close> are the names of the functions, which are not part of \<open>lmod\<close>.
\<close>

definition alias_names :: "lmod \<Rightarrow> string set" where
  "alias_names M = fst ` set (m_aliases M)"

definition uniq_ok :: "string set \<Rightarrow> (lmod \<Rightarrow> string \<Rightarrow> string) \<Rightarrow> bool" where
  "uniq_ok fns uniq \<longleftrightarrow> (\<forall>M n. uniq M n \<noteq> '''' \<and>
     (n \<noteq> '''' \<longrightarrow> getNamedGlobal M n = None \<longrightarrow> n \<notin> fns \<union> alias_names M \<longrightarrow> uniq M n = n))"

definition all_named :: "lmod \<Rightarrow> bool" where
  "all_named M \<longleftrightarrow> (\<forall>g \<in> set (m_globals M). g_name g \<noteq> '''')"

lemma uniq_okD:
  assumes "uniq_ok fns uniq"
  shows "uniq M n \<noteq> ''''"
    and "n \<noteq> '''' \<Longrightarrow> getNamedGlobal M n = None \<Longrightarrow> n \<notin> fns \<union> alias_names M \<Longrightarrow> uniq M n = n"
  using assms unfolding uniq_ok_def by blast+

lemma name_globals_named:
  "uniq_ok fns uniq \<Longrightarrow> \<forall>g \<in> set pre. g_name g \<noteq> '''' \<Longrightarrow> all_named (name_globals uniq M pre gs)"
proof (induction gs arbitrary: pre)
  case Nil
  then show ?case by (simp add: all_named_def)
next
  case (Cons g gs)
  let ?g = "if g_name g = '''' then g\<lparr>g_name := uniq (M\<lparr>m_globals := pre @ g # gs\<rparr>) ''unnamed''\<rparr> else g"
  have "g_name ?g \<noteq> ''''" using uniq_okD(1) [OF Cons.prems(1)] by simp
  then have "\<forall>h \<in> set (pre @ [?g]). g_name h \<noteq> ''''" using Cons.prems(2) by auto
  from Cons.IH [OF Cons.prems(1) this] show ?case by (simp only: name_globals.simps)
qed

lemma name_globals_aliases: "alias_names (name_globals uniq M pre gs) = alias_names M"
  by (induction uniq M pre gs rule: name_globals.induct) (simp_all add: alias_names_def)

lemma name_globals_id: "\<forall>g \<in> set gs. g_name g \<noteq> '''' \<Longrightarrow> name_globals uniq M pre gs = M\<lparr>m_globals := pre @ gs\<rparr>"
  by (induction uniq M pre gs rule: name_globals.induct) auto

lemma emit_offset_globals:
  "emitLinkerScriptGlobalsOffset M sy vs area off = Inr M' \<Longrightarrow> set (m_globals M') \<subseteq> set (m_globals M)"
  by (auto simp: emitLinkerScriptGlobalsOffset_def Let_def split: option.splits prod.splits if_splits
      dest: set_remove1_subset [THEN subsetD])

lemma emit_all_globals:
  "emit_all xs vs area M = Inr M' \<Longrightarrow> set (m_globals M') \<subseteq> set (m_globals M)"
proof (induction xs vs area M arbitrary: M' rule: emit_all.induct)
  case (2 s i xs vs area M)
  then obtain M1 where "emitLinkerScriptGlobalsOffset M s vs area i = Inr M1"
    "emit_all xs vs area M1 = Inr M'" by auto
  with "2.IH" [OF this] emit_offset_globals show ?case by blast
qed simp

lemma emit_all_other:
  "emit_all xs vs area M = Inr M' \<Longrightarrow> n \<notin> fst ` set xs \<Longrightarrow> getNamedGlobal M' n = getNamedGlobal M n"
proof (induction xs vs area M arbitrary: M' rule: emit_all.induct)
  case (2 s i xs vs area M)
  then obtain M1 where M1: "emitLinkerScriptGlobalsOffset M s vs area i = Inr M1"
    "emit_all xs vs area M1 = Inr M'" by auto
  from emit_offset_Inr [OF M1(1)] "2.prems"(2) have "getNamedGlobal M1 n = getNamedGlobal M n" by auto
  with "2.IH" [OF M1] "2.prems"(2) show ?case by simp
qed simp

text \<open>The globals a section adds to a module: the array of its values.\<close>

definition section_array :: "(lmod \<Rightarrow> string \<Rightarrow> string) \<Rightarrow> lmod \<Rightarrow> string \<Rightarrow> lty \<Rightarrow> sconst list \<Rightarrow> gvar" where
  "section_array uniq M sec Ty vs = fst (emitLinkerScriptGlobal uniq M sec Ty vs)"

lemma collect_section_globals:
  assumes "collect_section uniq f M = Inr M'"
  obtains Ty sec where "sf_section f = Inr sec"
    "set (m_globals M') \<subseteq> set (m_globals M) \<union> {section_array uniq M sec Ty (found_values f M)}"
    "\<And>n. n \<notin> fst ` set (found_symbols f M) \<Longrightarrow>
       getNamedGlobal M' n =
       getNamedGlobal (M\<lparr>m_globals := m_globals M @ [section_array uniq M sec Ty (found_values f M)]\<rparr>) n"
proof -
  from collect_section_Inr [OF assms] obtain Ty sec area M1 where
    e: "emitLinkerScriptGlobal uniq M sec Ty (found_values f M) = (area, M1)" "sf_section f = Inr sec"
      "emit_all (found_symbols f M) (found_values f M) area M1 = Inr M'" by blast
  then have "M1 = M\<lparr>m_globals := m_globals M @ [section_array uniq M sec Ty (found_values f M)]\<rparr>"
    by (auto simp: section_array_def emitLinkerScriptGlobal_def Let_def)
  with emit_all_globals [OF e(3)] emit_all_other [OF e(3)] e(2) show thesis
    by (intro that [of sec Ty]) auto
qed

lemma section_array_name: "g_name (section_array uniq M sec Ty vs) = uniq M sec"
  by (simp add: section_array_def emitLinkerScriptGlobal_def Let_def)

lemma collect_section_named:
  assumes "collect_section uniq f M = Inr M'" and "uniq_ok fns uniq" and "all_named M"
  shows "all_named M'"
proof -
  obtain Ty sec where
    "set (m_globals M') \<subseteq> set (m_globals M) \<union> {section_array uniq M sec Ty (found_values f M)}"
    using collect_section_globals [OF assms(1)] by metis
  then show ?thesis using assms(2,3) by (auto simp: all_named_def uniq_okD(1) section_array_name)
qed

lemma collect_sections_induct:
  assumes "collect_sections uniq fs M = Inr M'" and "P M"
    and "\<And>f M M'. f \<in> set fs \<Longrightarrow> collect_section uniq f M = Inr M' \<Longrightarrow> P M \<Longrightarrow> P M'"
  shows "P M'"
  using assms by (induction fs arbitrary: M) auto

lemma collect_sections_append:
  "collect_sections uniq (fs @ [f]) M = rbind (collect_sections uniq fs M) (collect_section uniq f)"
proof (induction fs arbitrary: M)
  case Nil
  then show ?case by (cases "collect_section uniq f M") simp_all
next
  case (Cons h fs)
  then show ?case by (cases "collect_section uniq h M") simp_all
qed

lemma find_append_new: "getNamedGlobal (M\<lparr>m_globals := m_globals M @ [g]\<rparr>) n =
    (case getNamedGlobal M n of Some h \<Rightarrow> Some h | None \<Rightarrow> if g_name g = n then Some g else None)"
proof -
  have "find P (xs @ [x]) = (case find P xs of Some h \<Rightarrow> Some h | None \<Rightarrow> if P x then Some x else None)"
    for P :: "gvar \<Rightarrow> bool" and xs x by (induction xs) auto
  then show ?thesis by (simp add: getNamedGlobal_def)
qed

text \<open>No section makes a symbol with the name of the array \<open>initlevel\<close>.\<close>

definition spares_initlevel :: "finder \<Rightarrow> bool" where
  "spares_initlevel f \<longleftrightarrow>
     (case sf_kind f of
        KStatic obj \<Rightarrow> namePostfix (sf_conf f) = ''_area''
      | KNative \<Rightarrow> take 1 (namePrefix (sf_conf f)) = ''_'' \<and>
          startPrefix (sf_conf f) @ startPostfix (sf_conf f) \<noteq> ''initlevel'' \<and>
          endPrefix (sf_conf f) @ endPostfix (sf_conf f) \<noteq> ''initlevel''
      | KBase \<Rightarrow> False)"

lemma area_not_initlevel: "s @ ''_area'' \<noteq> ''initlevel''"
proof
  assume "s @ ''_area'' = ''initlevel''"
  then have "last (s @ ''_area'') = last ''initlevel''" by (rule arg_cong)
  then show False by simp
qed

lemma spares_initlevelD:
  assumes "spares_initlevel f"
  shows "sf_name (f\<lparr>sf_list := ls\<rparr>) l = Inr n \<Longrightarrow> n \<noteq> ''initlevel''"
    and "sf_start (f\<lparr>sf_list := ls\<rparr>) '''' \<noteq> ''initlevel''" and "sf_end (f\<lparr>sf_list := ls\<rparr>) '''' \<noteq> ''initlevel''"
proof -
  have u: "p @ s \<noteq> ''initlevel''" if "take 1 p = ''_''" for p s
    using that by (cases p) auto
  show "sf_name (f\<lparr>sf_list := ls\<rparr>) l = Inr n \<Longrightarrow> n \<noteq> ''initlevel''"
    using assms u [of "namePrefix (sf_conf f)"] area_not_initlevel
    by (auto simp: spares_initlevel_def sf_name_def split: finder_kind.splits option.splits)
  show "sf_start (f\<lparr>sf_list := ls\<rparr>) '''' \<noteq> ''initlevel''" "sf_end (f\<lparr>sf_list := ls\<rparr>) '''' \<noteq> ''initlevel''"
    using assms by (auto simp: spares_initlevel_def sf_start_def sf_end_def Let_def split: finder_kind.splits)
qed

lemma initlevel_not_symbol:
  assumes "spares_initlevel f"
  shows "''initlevel'' \<notin> fst ` set (found_symbols f M)"
proof -
  note d = spares_initlevelD [OF assms]
  have lv: "(''initlevel'', i) \<notin> set (level_symbol (f\<lparr>sf_list := ls\<rparr>) x)" for i ls x
    using d(1) [of ls "fst x" "''initlevel''"] by (auto simp: level_symbol_def split: if_splits sum.splits)
  show ?thesis
    unfolding found_symbols_def symbols_def
    using d(2,3) [of "found_levels f M"] by (auto simp: lv split: list.splits)
qed

lemma static_sections_kind:
  "f \<in> set (find_static_sections gs found fs) \<Longrightarrow> f \<in> set fs \<or> (\<exists>obj. f = ZephyrStaticSection obj)"
proof (induction gs arbitrary: found fs)
  case (Cons g gs)
  obtain ok sec where "sf_test (ZephyrStaticSection '''') (g_section g) = (ok, sec)" by (cases "sf_test (ZephyrStaticSection '''') (g_section g)")
  with Cons.prems Cons.IH [of "found @ [sec]" "fs @ [ZephyrStaticSection sec]"] Cons.IH [of found fs]
  show ?case by (auto split: if_splits)
qed simp

lemma finders_spare_initlevel:
  assumes "f \<in> set (InitializeZephyrSectionFinders M)"
  shows "spares_initlevel f"
proof -
  have st: "spares_initlevel (ZephyrStaticSection obj)" for obj
    by (simp add: spares_initlevel_def ZephyrStaticSection_def SectionFinder_def zephyrStatic_def)
  have "list_all (\<lambda>c. spares_initlevel (ZephyrNativeSection c)) configs" by code_simp
  then have nt: "spares_initlevel (ZephyrNativeSection c)" if "c \<in> set configs" for c
    using that by (simp add: list_all_iff)
  from assms show ?thesis unfolding InitializeZephyrSectionFinders_def
    using static_sections_kind [of f "m_globals M" mandatory_sections "map ZephyrStaticSection mandatory_sections"]
    by (auto simp: st nt)
qed

lemma emit_offset_alias_names:
  "emitLinkerScriptGlobalsOffset M sy vs area off = Inr M' \<Longrightarrow> alias_names M' \<subseteq> insert sy (alias_names M)"
  by (auto simp: emitLinkerScriptGlobalsOffset_def alias_names_def Let_def split: option.splits prod.splits if_splits)

lemma emit_all_alias_names:
  "emit_all xs vs area M = Inr M' \<Longrightarrow> alias_names M' \<subseteq> alias_names M \<union> fst ` set xs"
proof (induction xs vs area M arbitrary: M' rule: emit_all.induct)
  case (2 s i xs vs area M)
  then obtain M1 where M1: "emitLinkerScriptGlobalsOffset M s vs area i = Inr M1"
    "emit_all xs vs area M1 = Inr M'" by auto
  from "2.IH" [OF M1] emit_offset_alias_names [OF M1(1)] show ?case by auto
qed simp

lemma collect_section_alias_names:
  assumes "collect_section uniq f M = Inr M'"
  shows "alias_names M' \<subseteq> alias_names M \<union> fst ` set (found_symbols f M)"
proof -
  from collect_section_Inr [OF assms] obtain Ty sec area M1 where
    e: "emitLinkerScriptGlobal uniq M sec Ty (found_values f M) = (area, M1)"
      "emit_all (found_symbols f M) (found_values f M) area M1 = Inr M'" by blast
  then have "alias_names M1 = alias_names M" by (auto simp: emitLinkerScriptGlobal_def alias_names_def Let_def)
  with emit_all_alias_names [OF e(2)] show ?thesis by simp
qed

lemma initlevel_collected:
  assumes "collectLinkerScriptSections uniq M = Inr M'" and "uniq_ok fns uniq" and "''initlevel'' \<notin> fns \<union> alias_names M"
  shows "getNamedGlobal M' ''initlevel'' \<noteq> None"
proof -
  obtain fs where fs: "InitializeZephyrSectionFinders M = fs @ [ZephyrNativeSection initlevel_conf]"
    by (simp add: InitializeZephyrSectionFinders_def configs_def)
  then obtain M1 where M1: "collect_sections uniq fs M = Inr M1"
    "collect_section uniq (ZephyrNativeSection initlevel_conf) M1 = Inr M'"
    using assms(1) by (auto simp: collectLinkerScriptSections_def collect_sections_append)
  have spare: "spares_initlevel f" if "f = ZephyrNativeSection initlevel_conf \<or> f \<in> set fs" for f
    using that fs finders_spare_initlevel [of f M] by auto
  have "''initlevel'' \<notin> alias_names M1"
    using M1(1)
  proof (rule collect_sections_induct)
    show "''initlevel'' \<notin> alias_names Mb"
      if "f \<in> set fs" "collect_section uniq f Ma = Inr Mb" "''initlevel'' \<notin> alias_names Ma" for f Ma Mb
      using collect_section_alias_names [OF that(2)] that(3) initlevel_not_symbol [of f Ma] spare that(1) by blast
  qed (use assms(3) in simp)
  moreover let ?vs = "found_values (ZephyrNativeSection initlevel_conf) M1"
  obtain Ty sec where c: "sf_section (ZephyrNativeSection initlevel_conf) = Inr sec"
    "getNamedGlobal M' ''initlevel'' =
       getNamedGlobal (M1\<lparr>m_globals := m_globals M1 @ [section_array uniq M1 sec Ty ?vs]\<rparr>) ''initlevel''"
    using collect_section_globals [OF M1(2)] initlevel_not_symbol [OF spare] by metis
  then have "sec = ''initlevel''"
    by (simp add: sf_section_def ZephyrNativeSection_def SectionFinder_def initlevel_conf_def)
  ultimately show ?thesis using c(2) assms(2,3)
    by (auto simp: find_append_new section_array_name uniq_okD(2) split: option.split)
qed

lemma define_externals_idem:
  "define_externals e (define_externals e M) = define_externals e M"
  by (auto simp: define_externals_def)

lemma define_externals_named: "all_named M \<Longrightarrow> all_named (define_externals e M)"
  by (auto simp: all_named_def define_externals_def)

lemma find_name_map:
  assumes "\<And>g. g_name (f g) = g_name g"
  shows "find (\<lambda>g. g_name g = n) (map f gs) = None \<longleftrightarrow> find (\<lambda>g. g_name g = n) gs = None"
  by (induction gs) (auto simp: assms)

lemma define_externals_find:
  "getNamedGlobal (define_externals e M) n = None \<longleftrightarrow> getNamedGlobal M n = None"
  by (simp add: getNamedGlobal_def define_externals_def) (rule find_name_map, simp)

text \<open>Loading stops at the first file that cannot be read.\<close>

lemma link_files_stops:
  "\<forall>m \<in> set ms. \<not> broken m \<Longrightarrow> map parse pre = map Some ms \<Longrightarrow>
   (case parse f of None \<Rightarrow> True | Some m \<Rightarrow> broken m) \<Longrightarrow>
   link_files parse broken link (pre @ f # post) N = (False, foldl link N ms)"
proof (induction pre arbitrary: ms N)
  case (Cons p pre)
  then show ?case by (cases ms) auto
qed (auto split: option.splits)

lemma collected_named:
  assumes "collectLinkerScriptSections uniq M = Inr M'" and "all_named M" and "uniq_ok fns uniq"
  shows "all_named M'"
  using assms(1) unfolding collectLinkerScriptSections_def
  by (rule collect_sections_induct) (use assms collect_section_named in auto)

text \<open>
  C23. Loading files. When \<open>parseIRFiles\<close> succeeds, every global variable has a name, a
  declaration that is left is one without external linkage, and, unless the files bring a function or
  an alias of this name, the linker script sections have been collected: a variable \<open>initlevel\<close>
  exists, and loading no more files changes nothing, so the sections are collected once. A file that cannot be read or verified ends the loading with the
  files before it linked, whatever follows.
\<close>

theorem parse_files_complete:
  assumes "parseIRFiles parse broken link uniq ext files M = Inr (True, M')" and "uniq_ok fns uniq"
  shows "(\<forall>g \<in> set (m_globals M'). g_name g \<noteq> '''') \<and>
    (\<forall>n \<in> set (getExternalSymbolsInModule M'). \<not> ext n \<and> hasExternal M' n) \<and>
    (\<forall>N. link_files parse broken link files M = (True, N) \<longrightarrow> ''initlevel'' \<notin> fns \<union> alias_names N \<longrightarrow>
       getNamedGlobal M' ''initlevel'' \<noteq> None \<and>
       (\<not> broken M' \<longrightarrow> parseIRFiles parse broken link uniq ext [] M' = Inr (True, M'))) \<and>
    (\<forall>pre f post ms N. (\<forall>m \<in> set ms. \<not> broken m) \<longrightarrow> map parse pre = map Some ms \<longrightarrow>
       (case parse f of None \<Rightarrow> True | Some m \<Rightarrow> broken m) \<longrightarrow>
       parseIRFiles parse broken link uniq ext (pre @ f # post) N = Inr (False, foldl link N ms))"
proof -
  obtain M1 M3 where l: "link_files parse broken link files M = (True, M1)" and
    M3: "(if getNamedGlobal (name_globals uniq M1 [] (m_globals M1)) ''initlevel'' = None
      then collectLinkerScriptSections uniq (name_globals uniq M1 [] (m_globals M1))
      else Inr (name_globals uniq M1 [] (m_globals M1))) = Inr M3"
    and M': "M' = define_externals ext M3"
    using assms(1) by (auto simp: parseIRFiles_def Let_def define_externals_idem split: prod.splits if_splits)
  have nm: "all_named (name_globals uniq M1 [] (m_globals M1))"
    using assms(2) by (intro name_globals_named) auto
  have n3: "all_named M3"
    using M3 nm collected_named [OF _ nm assms(2)] by (auto split: if_splits)
  have i': "getNamedGlobal M' ''initlevel'' \<noteq> None" if "''initlevel'' \<notin> fns \<union> alias_names M1"
  proof -
    have "''initlevel'' \<notin> fns \<union> alias_names (name_globals uniq M1 [] (m_globals M1))"
      using that by (simp add: name_globals_aliases)
    then have "getNamedGlobal M3 ''initlevel'' \<noteq> None"
      using M3 initlevel_collected [OF _ assms(2)] by (auto split: if_splits)
    then show ?thesis using M' by (simp add: define_externals_find)
  qed
  have n': "all_named M'" using n3 M' define_externals_named by blast
  have ext: "\<forall>n \<in> set (getExternalSymbolsInModule M'). \<not> ext n \<and> hasExternal M' n"
    by (auto simp: M' getExternalSymbolsInModule_def define_externals_def hasExternal_def list_ex_iff)
  have id: "name_globals uniq M' [] (m_globals M') = M'"
    using n' by (simp add: name_globals_id all_named_def)
  have again: "parseIRFiles parse broken link uniq ext [] M' = Inr (True, M')"
    if "\<not> broken M'" "''initlevel'' \<notin> fns \<union> alias_names M1"
  proof -
    have "define_externals ext M' = M'" by (simp add: M' define_externals_idem)
    then show ?thesis using that(1) i' [OF that(2)] by (auto simp: parseIRFiles_def id)
  qed
  have stop: "parseIRFiles parse broken link uniq ext (pre @ f # post) N = Inr (False, foldl link N ms)"
    if "\<forall>m \<in> set ms. \<not> broken m" "map parse pre = map Some ms"
      "case parse f of None \<Rightarrow> True | Some m \<Rightarrow> broken m" for pre f post ms N
    using link_files_stops [OF that, of link post N] by (simp add: parseIRFiles_def)
  have "getNamedGlobal M' ''initlevel'' \<noteq> None \<and>
      (\<not> broken M' \<longrightarrow> parseIRFiles parse broken link uniq ext [] M' = Inr (True, M'))"
    if "link_files parse broken link files M = (True, N)" "''initlevel'' \<notin> fns \<union> alias_names N" for N
    using that i' again l by auto
  then show ?thesis using n' ext stop unfolding all_named_def by blast
qed

text \<open>The devices of \<open>Sections\<close>, read from one file into the empty module.\<close>

definition first_free :: "lmod \<Rightarrow> string \<Rightarrow> string" where
  "first_free M n = (if n = '''' then ''x'' else n)"

definition empty_module :: lmod where
  "empty_module = \<lparr>m_globals = [], m_aliases = []\<rparr>"

theorem parse_files_complete_witness:
  "\<exists>M'. parseIRFiles (\<lambda>f. if f = ''a.ll'' then Some device_module else None) (\<lambda>M. False) (\<lambda>M m. m)
       first_free (\<lambda>n. True) [''a.ll''] empty_module = Inr (True, M') \<and>
     getExternalSymbolsInModule M' = []"
proof -
  have ok: "uniq_ok {} first_free" by (simp add: uniq_ok_def first_free_def getNamedGlobal_def find_None_iff)
  have "res_all (parseIRFiles (\<lambda>f. if f = ''a.ll'' then Some device_module else None) (\<lambda>M. False)
      (\<lambda>M m. m) first_free (\<lambda>n. True) [''a.ll''] empty_module) fst"
    by code_simp
  then obtain M' where M': "parseIRFiles (\<lambda>f. if f = ''a.ll'' then Some device_module else None) (\<lambda>M. False)
      (\<lambda>M m. m) first_free (\<lambda>n. True) [''a.ll''] empty_module = Inr (True, M')"
    unfolding res_all_iff by auto
  from parse_files_complete [OF M' ok] have "\<forall>n \<in> set (getExternalSymbolsInModule M'). False" by simp
  with M' show ?thesis by auto
qed

section \<open>Types of initialisers\<close>

fun wt_const :: "sconst \<Rightarrow> bool" where
  "wt_const (SConst i t) = True"
| "wt_const (SNull t) = True"
| "wt_const (SArray t cs) = list_all (\<lambda>c. const_ty c = t \<and> wt_const c) cs"

definition typed_global :: "gvar \<Rightarrow> bool" where
  "typed_global g \<longleftrightarrow> (case g_init g of None \<Rightarrow> True | Some c \<Rightarrow> const_ty c = g_ty g \<and> wt_const c)"

definition module_typed :: "lmod \<Rightarrow> bool" where
  "module_typed M \<longleftrightarrow> list_all typed_global (m_globals M)"

lemma set_init_typed:
  assumes "find (\<lambda>g. g_name g = n) gs = Some g" and "list_all typed_global gs"
  shows "list_all typed_global (set_init n c gs) \<longleftrightarrow> const_ty c = g_ty g \<and> wt_const c"
  using assms by (induction gs) (auto simp: typed_global_def split: if_splits)

lemma set_init_find:
  "find (\<lambda>g. g_name g = n) gs = Some g \<Longrightarrow>
   find (\<lambda>g. g_name g = n) (set_init n c gs) = Some (g\<lparr>g_init := Some c\<rparr>)"
  by (induction gs) (auto split: if_splits)

text \<open>What a finder lays out is the initialiser of one of the collected globals.\<close>

lemma smap_put_values: "snd ` set (smap_put k v m) \<subseteq> insert v (snd ` set m)"
  by (induction k v m rule: smap_put.induct) auto

lemma put_levels_values:
  "snd ` set (foldl (put_level f l) m gs) \<subseteq> set gs \<union> snd ` set m"
proof (induction gs arbitrary: m)
  case (Cons g gs)
  have "snd ` set (put_level f l m g) \<subseteq> insert g (snd ` set m)"
    using smap_put_values [of "g_section g" g m] by (auto simp: put_level_def)
  with Cons [of "put_level f l m g"] show ?case by auto
qed simp

lemma collect_section_inits:
  assumes "collect_section uniq f M = Inr M'"
  shows "list_all has_init (concat (map (found_in f M) (found_levels f M)))"
  using assms
proof -
  have e: "found_in f M = (\<lambda>l. foldl (put_level f l) [] (m_globals M))"
    by (simp add: found_in_def fun_eq_iff)
  from assms show ?thesis
    by (auto simp: collect_section_def collect_globals_eq layout_levels_eq found_levels_def e
        Let_def simp del: map_concat set_concat split: if_splits)
qed

lemma found_values_typed:
  assumes "collect_section uniq f M = Inr M'" and "module_typed M"
  shows "list_all wt_const (found_values f M)"
proof -
  have "wt_const (init_of x)" if "x \<in> set (concat (map (found_in f M) (found_levels f M)))" for x
  proof -
    have "snd x \<in> set (m_globals M)"
      using that put_levels_values [of f _ "[]" "m_globals M"] by (fastforce simp: found_in_def)
    moreover have "has_init x" using that collect_section_inits [OF assms(1)] unfolding list_all_iff by blast
    ultimately show ?thesis using assms(2)
      by (cases x) (auto simp: module_typed_def list_all_iff typed_global_def init_of_def has_init_def
          split: option.splits)
  qed
  then show ?thesis by (auto simp: found_values_def list_all_iff)
qed

lemma section_array_typed: "list_all wt_const vs \<Longrightarrow> typed_global (section_array uniq M sec Ty vs)"
  by (auto simp: section_array_def emitLinkerScriptGlobal_def Let_def typed_global_def list_all_iff)

lemma collect_section_typed:
  assumes "collect_section uniq f M = Inr M'" and "module_typed M"
  shows "module_typed M'"
proof -
  obtain Ty sec where
    "set (m_globals M') \<subseteq> set (m_globals M) \<union> {section_array uniq M sec Ty (found_values f M)}"
    using collect_section_globals [OF assms(1)] by metis
  then show ?thesis
    using assms(2) section_array_typed [OF found_values_typed [OF assms]]
    by (auto simp: module_typed_def list_all_iff)
qed

lemma lty_not_own_pointer: "t \<noteq> LPtr t"
proof
  assume "t = LPtr t"
  then have "size t = size (LPtr t)" by (rule arg_cong)
  then show False by simp
qed

text \<open>
  C22. Initialisers keep the type of their variable. In a typed module: collecting the linker script
  sections, which builds array constants out of the collected ones, keeps it typed, and so does defining the
  external variables. \<open>setInitializer\<close> keeps it typed whenever it returns, if the parser's constants are
  well-formed: a text whose constant has the type of the variable becomes its initialiser, one of another type
  ends the program in LLVM's assertion. The empty text never returns for a variable that exists: it
  stands for a null pointer to the variable's type, not for its null value.
\<close>

theorem modules_stay_typed:
  assumes "module_typed M" and "\<forall>N s c. parse N s = Some c \<longrightarrow> wt_const c"
  shows "(collectLinkerScriptSections uniq M = Inr M' \<longrightarrow> module_typed M') \<and>
    module_typed (define_externals ext M) \<and>
    (setInitializer parse name str M = Inr (ok, M'') \<longrightarrow> module_typed M'') \<and>
    (\<forall>g c. getNamedGlobal M name = Some g \<longrightarrow> str \<noteq> '''' \<longrightarrow> parse M str = Some c \<longrightarrow>
       (if const_ty c = g_ty g
        then \<exists>N. setInitializer parse name str M = Inr (True, N) \<and>
          getNamedGlobal N name = Some (g\<lparr>g_init := Some c\<rparr>)
        else setInitializer parse name str M = Inl AssertFail)) \<and>
    (getNamedGlobal M name \<noteq> None \<longrightarrow> setInitializer parse name '''' M = Inl AssertFail)"
proof (intro conjI impI allI)
  assume "collectLinkerScriptSections uniq M = Inr M'"
  then show "module_typed M'" unfolding collectLinkerScriptSections_def
    by (rule collect_sections_induct) (use assms collect_section_typed in auto)
next
  show "module_typed (define_externals ext M)"
    using assms by (auto simp: module_typed_def define_externals_def list_all_iff typed_global_def)
next
  assume set: "setInitializer parse name str M = Inr (ok, M'')"
  show "module_typed M''"
  proof (cases ok)
    case True
    with set obtain g c where g: "getNamedGlobal M name = Some g"
      and c: "(if str \<noteq> '''' then parse M str else Some (SNull (LPtr (g_ty g)))) = Some c"
      and t: "const_ty c = g_ty g" and M'': "M'' = M\<lparr>m_globals := set_init name c (m_globals M)\<rparr>"
      by (auto simp: setInitializer_def split: option.splits if_splits)
    have "wt_const c" using c t assms(2) lty_not_own_pointer [of "g_ty g"] by (auto split: if_splits)
    then show ?thesis using set_init_typed [of name "m_globals M" g c] g t assms(1)
      by (simp add: M'' module_typed_def getNamedGlobal_def)
  next
    case False
    with set assms(1) show ?thesis by (auto simp: setInitializer_def split: option.splits if_splits)
  qed
next
  fix g c
  assume "getNamedGlobal M name = Some g" "str \<noteq> ''''" "parse M str = Some c"
  then show "if const_ty c = g_ty g
    then \<exists>N. setInitializer parse name str M = Inr (True, N) \<and> getNamedGlobal N name = Some (g\<lparr>g_init := Some c\<rparr>)
    else setInitializer parse name str M = Inl AssertFail"
    by (simp add: setInitializer_def getNamedGlobal_def set_init_find)
next
  assume "getNamedGlobal M name \<noteq> None"
  then show "setInitializer parse name '''' M = Inl AssertFail"
    using lty_not_own_pointer by (auto simp: setInitializer_def dest: sym [of "LPtr _"])
qed

text \<open>A constant of the right type, of another type, and the empty text.\<close>

theorem modules_stay_typed_witness:
  "module_typed device_module \<and>
   (let parse = (\<lambda>M str. if str = ''0'' then Some (SNull device_ty) else Some (SNull (LInt 64))) in
    (\<exists>N. setInitializer parse ''uart'' ''0'' device_module = Inr (True, N) \<and> module_typed N) \<and>
    setInitializer parse ''uart'' ''i64 0'' device_module = Inl AssertFail \<and>
    setInitializer parse ''uart'' '''' device_module = Inl AssertFail)"
proof -
  let ?parse = "\<lambda>(M :: lmod) str. if str = ''0'' then Some (SNull device_ty) else Some (SNull (LInt 64))"
  have typed: "module_typed device_module" by code_simp
  have p: "\<forall>N s c. ?parse N s = Some c \<longrightarrow> wt_const c" by auto
  note C = modules_stay_typed [OF typed p, of first_free device_module "\<lambda>n. True" "''uart''"]
  obtain g where g: "getNamedGlobal device_module ''uart'' = Some g" "g_ty g = device_ty"
    by (simp add: device_module_def getNamedGlobal_def gv_def)
  obtain N where N: "setInitializer ?parse ''uart'' ''0'' device_module = Inr (True, N)"
    using C [of "''0''" True device_module] g by auto
  then have "module_typed N" using C [of "''0''" True N] by blast
  moreover have "setInitializer ?parse ''uart'' ''i64 0'' device_module = Inl AssertFail"
    "setInitializer ?parse ''uart'' '''' device_module = Inl AssertFail"
    using C [of "''i64 0''" True device_module] g by (auto simp: device_ty_def)
  ultimately show ?thesis using typed N by auto
qed

end
