(* ===== verification/FlowControl.thy ===== *)
theory FlowControl
  imports InterpMemory AliasFix
begin

text \<open>
  The execution loop of \<open>MyInterpreter\<close> and its control from outside
  (\<open>libirx/irinterpreter2-interpreter.cc\<close>, \<open>libirx/irinterpreter2-struct.h\<close>): running
  instruction by instruction, stopping before and skipping calls by function name, resolving
  calls through function pointers, resuming, and inspecting the stopped interpreter.

  What an instruction does in LLVM's own interpreter is the argument \<open>visit\<close> of \<open>run_env\<close>; it
  may change everything of the state. Printing is not modelled.
\<close>

section \<open>Instructions and state\<close>

datatype opcode = ORet | OGep | OLoad | OStore | OCall | OFence | OOther

datatype call_ty = TVoid | TInt nat | TOther

text \<open>
  A call: the function it names, if it is direct, the called operand, the arguments, whether it
  is inline assembly, and its type.
\<close>

record call_base =
  cb_function :: "string option"
  cb_operand :: nat
  cb_args :: "nat list"
  cb_asm :: bool
  cb_ty :: call_ty

text \<open>
  An instruction: \<open>in_id\<close> is its address, \<open>in_consts\<close> the constants among its operands; the
  memory operands are for loads (the pointer) and stores (the value, then the pointer).
\<close>

record instr =
  in_id :: nat
  in_op :: opcode
  in_consts :: "nat list"
  in_mem :: "nat list"
  in_ty :: mty
  in_call :: call_base

record frame =
  fr_function :: string
  fr_next :: "instr list"
  fr_caller :: "call_base option"
  fr_values :: "nat \<Rightarrow> gval option"

record run_state = interp +
  ECStack :: "frame list"
  constants :: cstore
  running :: "instr option"
  ExitValue :: gval

record flow_control =
  fc_stop :: "string list"
  fc_skip :: "string list"
  fc_print :: bool

text \<open>
  \<open>operand\<close> is \<open>getOperandValue\<close> in the last frame of the state, \<open>callFunction\<close> pushes a
  frame for a function of the module.
\<close>

record run_env =
  re_llvm :: llvm_env
  re_ends :: "map_allocator \<Rightarrow> end_reads"
  re_functions :: "ifunction list"
  operand :: "nat \<Rightarrow> run_state \<Rightarrow> gval"
  visit :: "instr \<Rightarrow> run_state \<Rightarrow> run_state res"
  callFunction :: "string \<Rightarrow> gval list \<Rightarrow> run_state \<Rightarrow> run_state res"

section \<open>Flow control\<close>

definition contains :: "string list \<Rightarrow> string \<Rightarrow> bool" where
  "contains haystack needle \<longleftrightarrow> needle \<in> set haystack"

definition shouldStop :: "flow_control \<Rightarrow> string \<Rightarrow> bool" where
  "shouldStop fc F = contains (fc_stop fc) F"

definition shouldSkip :: "flow_control \<Rightarrow> string \<Rightarrow> bool" where
  "shouldSkip fc F = contains (fc_skip fc) F"

definition fc_set_stop :: "string list \<Rightarrow> flow_control \<Rightarrow> flow_control" where
  "fc_set_stop functions fc = fc\<lparr>fc_stop := functions\<rparr>"

definition fc_set_skip :: "string list \<Rightarrow> flow_control \<Rightarrow> flow_control" where
  "fc_set_skip functions fc = fc\<lparr>fc_skip := functions\<rparr>"

definition setPrintLLVMIR :: "bool \<Rightarrow> flow_control \<Rightarrow> flow_control" where
  "setPrintLLVMIR printit fc = fc\<lparr>fc_print := printit\<rparr>"

section \<open>Functions\<close>

text \<open>The loop over the module's functions; a function's address is never null.\<close>

fun findFunctionByVPtr :: "ifunction list \<Rightarrow> u64 \<Rightarrow> string option" where
  "findFunctionByVPtr [] p = None"
| "findFunctionByVPtr (f # fs) p =
     (if \<not> if_decl f \<and> if_ptr f = p then Some (if_name f) else findFunctionByVPtr fs p)"

definition findFunctionByVVPtr :: "run_env \<Rightarrow> u64 \<Rightarrow> 'a interp_scheme \<Rightarrow> string option res" where
  "findFunctionByVVPtr env v s =
     rbind (vvptr2vptr (re_ends env) (allocator s) v) (\<lambda>p. Inr (findFunctionByVPtr (re_functions env) p))"

text \<open>\<open>IRModuleInterpreter::findFunctionByVVPtr\<close> gives the empty name for no function.\<close>

definition function_name_at :: "run_env \<Rightarrow> u64 \<Rightarrow> 'a interp_scheme \<Rightarrow> string res" where
  "function_name_at env v s =
     rbind (findFunctionByVVPtr env v s) (\<lambda>F. Inr (case F of None \<Rightarrow> '''' | Some n \<Rightarrow> n))"

text \<open>
  \<open>IRModuleInterpreter::FindFunctionNamed\<close>; LLVM's look-up by name skips declarations.
\<close>

definition FindFunctionNamed :: "run_env \<Rightarrow> string \<Rightarrow> 'a interp_scheme \<Rightarrow> u64 res" where
  "FindFunctionNamed env n s =
     (case find (\<lambda>f. if_name f = n \<and> \<not> if_decl f) (re_functions env) of
        None \<Rightarrow> Inr 0
      | Some f \<Rightarrow> vptr2vvptr (allocator s) (if_ptr f))"

definition getFunctionWithPtr :: "run_env \<Rightarrow> call_base \<Rightarrow> run_state \<Rightarrow> string option res" where
  "getFunctionWithPtr env call s =
     (case cb_function call of
        Some n \<Rightarrow> Inr (Some n)
      | None \<Rightarrow> if ECStack s = [] then Inl EmptyStack
                else findFunctionByVVPtr env (PointerVal (operand env (cb_operand call) s)) s)"

section \<open>Executing one instruction\<close>

definition update_back :: "(frame \<Rightarrow> frame) \<Rightarrow> run_state \<Rightarrow> run_state" where
  "update_back f s = s\<lparr>ECStack := butlast (ECStack s) @ [f (last (ECStack s))]\<rparr>"

definition set_value :: "nat \<Rightarrow> gval \<Rightarrow> frame \<Rightarrow> frame" where
  "set_value i v f = f\<lparr>fr_values := (fr_values f)(i \<mapsto> v)\<rparr>"

definition startswith :: "string \<Rightarrow> string \<Rightarrow> bool" where
  "startswith s p \<longleftrightarrow> take (length p) s = p"

definition visitCallBase :: "run_env \<Rightarrow> instr \<Rightarrow> run_state \<Rightarrow> run_state res" where
  "visitCallBase env I s =
     (if ECStack s = [] then Inl EmptyStack
      else let call = in_call I;
               s1 = update_back (\<lambda>f. f\<lparr>fr_caller := Some call\<rparr>) s
      in case cb_function call of
           None \<Rightarrow>
             (let V = operand env (cb_operand call) s1
              in rbind (vvptr2vptr (re_ends env) (allocator s1) (PointerVal V)) (\<lambda>p.
                   if p \<noteq> 0
                   then let s2 = update_back (set_value (cb_operand call) (V\<lparr>PointerVal := p\<rparr>)) s1
                        in case findFunctionByVPtr (re_functions env) p of
                             Some F \<Rightarrow> visit env I s2
                           | None \<Rightarrow> Inr s2
                   else if cb_asm call then Inr s1
                   else (case cb_ty call of
                           TInt w \<Rightarrow> Inr (update_back (set_value (in_id I) default_gval) s1)
                         | _ \<Rightarrow> Inr s1)))
         | Some F \<Rightarrow>
             if \<not> startswith F ''llvm.'' then visit env I s1
             else if startswith F ''llvm.dbg.declare'' \<or> startswith F ''llvm.dbg.value'' \<or>
               startswith F ''llvm.experimental.noalias.scope.decl'' then Inr s1
             else visit env I s1)"

text \<open>\<open>visitLoadInst\<close> and \<open>visitStoreInst\<close> on the operands of the instruction.\<close>

definition visit_load :: "run_env \<Rightarrow> instr \<Rightarrow> run_state \<Rightarrow> run_state res" where
  "visit_load env I s =
     rbind (visitLoadInst (re_llvm env) (re_ends env) (in_id I) (operand env (in_mem I ! 0) s) (in_ty I)
       (fr_values (last (ECStack s))) s) (\<lambda>vals.
     Inr (update_back (\<lambda>f. f\<lparr>fr_values := vals\<rparr>) s))"

definition visit_store :: "run_env \<Rightarrow> instr \<Rightarrow> run_state \<Rightarrow> run_state res" where
  "visit_store env I s =
     visitStoreInst (re_llvm env) (re_ends env) (operand env (in_mem I ! 0) s)
       (operand env (in_mem I ! 1) s) (in_ty I) s"

text \<open>The loops over the constant operands of an instruction that fix and restore aliases.\<close>

text \<open>\<open>fu\<close> is the fuel of the alias recursions. The result says whether the run should stop.\<close>

definition runInstruction ::
    "nat \<Rightarrow> run_env \<Rightarrow> flow_control \<Rightarrow> instr \<Rightarrow> run_state \<Rightarrow> (bool \<times> run_state) res" where
  "runInstruction fu env fc I s =
     (if ECStack s = [] then Inl EmptyStack
      else
     rbind (if in_op I \<noteq> OCall then fix_all fu (in_consts I) (constants s, \<lambda>_. 0)
            else Inr (constants s, \<lambda>_. 0)) (\<lambda>(cs, Values).
     let s1 = s\<lparr>constants := cs\<rparr>; go = (\<lambda>r. rbind r (\<lambda>s2. Inr (False, s2))) in
     rbind
       (case in_op I of
          ORet \<Rightarrow> go (visit env I s1)
        | OGep \<Rightarrow> go (visit env I s1)
        | OLoad \<Rightarrow> go (visit_load env I s1)
        | OStore \<Rightarrow> go (visit_store env I s1)
        | OCall \<Rightarrow>
            rbind (getFunctionWithPtr env (in_call I) s1) (\<lambda>F.
              case F of
                None \<Rightarrow> go (visitCallBase env I s1)
              | Some n \<Rightarrow>
                  if shouldStop fc n then Inr (True, s1)
                  else if shouldSkip fc n then Inr (False, s1)
                  else go (visitCallBase env I s1))
        | OFence \<Rightarrow> Inr (False, s1)
        | OOther \<Rightarrow> go (visit env I s1))
     (\<lambda>(ret, s2).
       if in_op I \<noteq> OCall
       then rbind (restore_all fu (in_consts I) (constants s2, Values)) (\<lambda>(cs', _).
              Inr (ret, s2\<lparr>constants := cs'\<rparr>))
       else Inr (ret, s2))))"

section \<open>Running\<close>

text \<open>
  \<open>run\<close>, with fuel for the loop. Fetching moves \<open>CurInst\<close> on before the instruction executes;
  running off a block's end is undefined behaviour.
\<close>

fun run :: "nat \<Rightarrow> nat \<Rightarrow> run_env \<Rightarrow> flow_control \<Rightarrow> run_state \<Rightarrow> run_state res" where
  "run fuel fu env fc s =
     (if ECStack s = [] then Inr s
      else (case fuel of
        0 \<Rightarrow> Inl OutOfFuel
      | Suc n \<Rightarrow>
          (case fr_next (last (ECStack s)) of
             [] \<Rightarrow> Inl WildPointer
           | I # is \<Rightarrow>
               let s1 = (update_back (\<lambda>f. f\<lparr>fr_next := is\<rparr>) s)\<lparr>running := Some I\<rparr>
               in rbind (runInstruction fu env fc I s1) (\<lambda>(stop, s2).
                    if stop then Inr s2 else run n fu env fc s2))))"

declare run.simps [simp del]

text \<open>
  \<open>resume\<close> catches exceptions thrown as pointers, which is what \<open>Throw\<close> stands for here, and
  reports failure; the others end the program.
\<close>

definition resume ::
    "nat \<Rightarrow> nat \<Rightarrow> run_env \<Rightarrow> flow_control \<Rightarrow> run_state \<Rightarrow> (bool \<times> run_state option) res" where
  "resume fuel fu env fc s =
     (case run fuel fu env fc s of
        Inr s' \<Rightarrow> Inr (True, Some s')
      | Inl (Throw m) \<Rightarrow> Inr (False, None)
      | Inl e \<Rightarrow> Inl e)"

definition runFunction ::
    "nat \<Rightarrow> nat \<Rightarrow> run_env \<Rightarrow> flow_control \<Rightarrow> string \<Rightarrow> gval list \<Rightarrow> run_state \<Rightarrow>
     (bool \<times> run_state option) res" where
  "runFunction fuel fu env fc name args s =
     (case find (\<lambda>f. if_name f = name) (re_functions env) of
        None \<Rightarrow> Inr (False, Some s)
      | Some F \<Rightarrow> rbind (callFunction env name args s) (resume fuel fu env fc))"

section \<open>Inspecting and answering a stopped run\<close>

definition getCallStack :: "run_state \<Rightarrow> string list" where
  "getCallStack s = map fr_function (ECStack s)"

definition isRunnable :: "run_state \<Rightarrow> bool" where
  "isRunnable s \<longleftrightarrow> ECStack s \<noteq> []"

definition getExitValue :: "run_state \<Rightarrow> gval" where
  "getExitValue s = ExitValue s"

definition getCurrentCallArgs :: "run_env \<Rightarrow> run_state \<Rightarrow> gval list res" where
  "getCurrentCallArgs env s =
     (if ECStack s = [] then Inr []
      else case running s of
        None \<Rightarrow> Inl NullDeref
      | Some I \<Rightarrow>
          if in_op I = OCall
          then (case fr_caller (last (ECStack s)) of
                  None \<Rightarrow> Inl NullDeref
                | Some call \<Rightarrow> Inr (map (\<lambda>v. operand env v s) (cb_args call)))
          else Inr [])"

definition getCurrentCallFunctionName :: "run_env \<Rightarrow> run_state \<Rightarrow> string res" where
  "getCurrentCallFunctionName env s =
     (case running s of
        None \<Rightarrow> Inl NullDeref
      | Some I \<Rightarrow>
          if in_op I = OCall
          then rbind (getFunctionWithPtr env (in_call I) s) (\<lambda>F.
                 case F of None \<Rightarrow> Inl NullDeref | Some n \<Rightarrow> Inr n)
          else Inr '''')"

definition putReturnValue :: "gval \<Rightarrow> run_state \<Rightarrow> run_state res" where
  "putReturnValue Result s =
     (if ECStack s = [] then Inl EmptyStack
      else case running s of
        None \<Rightarrow> Inl NullDeref
      | Some I \<Rightarrow> Inr (update_back (set_value (in_id I) Result) s))"

text \<open>
  \<open>resetExtraAllocations\<close> in full: after the allocations, the stack, the exit value and the
  globals.
\<close>

definition resetExtraAllocations ::
    "run_env \<Rightarrow> iglobal list \<Rightarrow> run_state \<Rightarrow> (iglobal list \<times> run_state) res" where
  "resetExtraAllocations env gs s =
     rbind (reset_allocs (re_ends env) s) (\<lambda>s1.
       InitializeGlobals (re_llvm env) (re_ends env) Map.empty gs
         (s1\<lparr>ECStack := [], ExitValue := default_gval\<rparr>))"

section \<open>Facts\<close>

lemma update_back_fields [simp]:
  "ECStack s \<noteq> [] \<Longrightarrow> ECStack (update_back f s) \<noteq> []"
  "allocator (update_back f s) = allocator s"
  "running (update_back f s) = running s"
  "last (ECStack (update_back f s)) = f (last (ECStack s))"
  "butlast (ECStack (update_back f s)) = butlast (ECStack s)"
  by (simp_all add: update_back_def)

lemma runInstruction_call:
  assumes "in_op I = OCall" and "ECStack s \<noteq> []"
    and "getFunctionWithPtr env (in_call I) s = Inr (Some F)"
  shows "runInstruction fu env fc I s =
    (if F \<in> set (fc_stop fc) then Inr (True, s)
     else if F \<in> set (fc_skip fc) then Inr (False, s)
     else rbind (visitCallBase env I s) (\<lambda>s2. Inr (False, s2)))"
  using assms
  by (cases "visitCallBase env I s")
    (simp_all add: runInstruction_def Let_def shouldStop_def shouldSkip_def contains_def)

lemma runInstruction_stop:
  assumes "runInstruction fu env fc I s = Inr (True, s')"
  shows "s' = s \<and> in_op I = OCall \<and> ECStack s \<noteq> [] \<and>
    (\<exists>F. getFunctionWithPtr env (in_call I) s = Inr (Some F) \<and> F \<in> set (fc_stop fc))"
  using assms
  by (auto simp: runInstruction_def Let_def shouldStop_def contains_def
      split: if_splits opcode.splits option.splits prod.splits)

lemma run_stop:
  assumes "run fuel fu env fc s = Inr s'" and "ECStack s' \<noteq> []"
  shows "\<exists>I F. running s' = Some I \<and> in_op I = OCall \<and>
    getFunctionWithPtr env (in_call I) s' = Inr (Some F) \<and> F \<in> set (fc_stop fc)"
  using assms
proof (induction fuel arbitrary: s)
  case 0
  then show ?case by (simp add: run.simps [of 0] split: if_splits)
next
  case (Suc n)
  show ?case
  proof (cases "ECStack s = []")
    case True
    with Suc.prems show ?thesis by (simp add: run.simps [of "Suc n"])
  next
    case False
    then obtain I "is" where nx: "fr_next (last (ECStack s)) = I # is"
      using Suc.prems(1) by (auto simp: run.simps [of "Suc n"] split: list.splits)
    let ?s1 = "(update_back (\<lambda>f. f\<lparr>fr_next := is\<rparr>) s)\<lparr>running := Some I\<rparr>"
    obtain b s2 where st: "runInstruction fu env fc I ?s1 = Inr (b, s2)"
      and rest: "(if b then Inr s2 else run n fu env fc s2) = Inr s'"
      using Suc.prems(1) False nx by (auto simp: run.simps [of "Suc n"] Let_def)
    show ?thesis
    proof (cases b)
      case True
      with st rest runInstruction_stop [of fu env fc I ?s1 s2] show ?thesis by auto
    next
      case False
      with rest Suc.IH [of s2] Suc.prems(2) show ?thesis by simp
    qed
  qed
qed

lemma run_more_fuel:
  assumes "run fuel fu env fc s = Inr s'" and "fuel \<le> fuel'"
  shows "run fuel' fu env fc s = Inr s'"
  using assms
proof (induction fuel arbitrary: s fuel')
  case 0
  then show ?case by (simp add: run.simps split: if_splits)
next
  case (Suc n)
  then obtain n' where n': "fuel' = Suc n'" by (cases fuel') auto
  show ?case
  proof (cases "ECStack s = []")
    case True
    with Suc.prems show ?thesis by (simp add: run.simps)
  next
    case False
    then obtain I "is" where nx: "fr_next (last (ECStack s)) = I # is"
      using Suc.prems(1) by (auto simp: run.simps [of "Suc n"] split: list.splits)
    let ?s1 = "(update_back (\<lambda>f. f\<lparr>fr_next := is\<rparr>) s)\<lparr>running := Some I\<rparr>"
    obtain b s2 where st: "runInstruction fu env fc I ?s1 = Inr (b, s2)"
      and rest: "(if b then Inr s2 else run n fu env fc s2) = Inr s'"
      using Suc.prems(1) False nx by (auto simp: run.simps [of "Suc n"] Let_def)
    have "(if b then Inr s2 else run n' fu env fc s2) = Inr s'"
      using rest Suc.IH [of s2 n'] Suc.prems(2) n' by (auto split: if_splits)
    then show ?thesis using False nx st by (simp add: n' run.simps [of "Suc n'"] Let_def)
  qed
qed

section \<open>Properties\<close>

text \<open>
  C6. A run that comes back with frames left on the stack has stopped because of a stop request:
  the running instruction is a call, the function it resolves to, directly or through the
  function pointer, is one of those to stop at, and that is the name the interpreter reports.
\<close>

theorem run_stops_at_requested_call:
  assumes "run fuel fu env fc s = Inr s'" and "isRunnable s'"
  shows "\<exists>I F. running s' = Some I \<and> in_op I = OCall \<and>
    getFunctionWithPtr env (in_call I) s' = Inr (Some F) \<and> F \<in> set (fc_stop fc) \<and>
    getCurrentCallFunctionName env s' = Inr F"
  using run_stop [OF assms(1)] assms(2)
  by (auto simp: isRunnable_def getCurrentCallFunctionName_def)

text \<open>
  A program of two calls in one frame; nothing else of LLVM is used, every other instruction
  ends the run.
\<close>

definition call_instr :: "nat \<Rightarrow> string \<Rightarrow> nat list \<Rightarrow> instr" where
  "call_instr i F args =
     \<lparr>in_id = i, in_op = OCall, in_consts = [], in_mem = [], in_ty = MVoid,
      in_call = \<lparr>cb_function = Some F, cb_operand = 0, cb_args = args, cb_asm = False, cb_ty = TVoid\<rparr>\<rparr>"

definition main_frame :: frame where
  "main_frame =
     \<lparr>fr_function = ''main'', fr_next = [call_instr 1 ''log'' [7], call_instr 2 ''arch_swap'' [8, 9]],
      fr_caller = None, fr_values = Map.empty\<rparr>"

definition two_calls :: run_state where
  "two_calls =
     \<lparr>allocator = one_block, tracked = [], imem = Map.empty, gaddr = (\<lambda>n. 0), ECStack = [main_frame],
      constants = (\<lambda>c. NOther), running = None, ExitValue = default_gval\<rparr>"

definition call_env :: run_env where
  "call_env =
     \<lparr>re_llvm = packed_env, re_ends = junk_reads, re_functions = [],
      operand = (\<lambda>v s. \<lparr>PointerVal = word_of_nat v, IntVal = int v\<rparr>),
      visit = (\<lambda>I s. Inr (s\<lparr>ECStack := []\<rparr>)), callFunction = (\<lambda>n args s. Inr s)\<rparr>"

definition stop_swap :: flow_control where
  "stop_swap = \<lparr>fc_stop = [''arch_swap''], fc_skip = [''log''], fc_print = False\<rparr>"

definition stopped :: run_state where
  "stopped = two_calls\<lparr>ECStack := [main_frame\<lparr>fr_next := []\<rparr>],
     running := Some (call_instr 2 ''arch_swap'' [8, 9])\<rparr>"

lemma two_calls_stop: "run 2 0 call_env stop_swap two_calls = Inr stopped"
  by (simp add: run.simps numeral_2_eq_2 two_calls_def main_frame_def call_instr_def stop_swap_def
      runInstruction_def getFunctionWithPtr_def shouldStop_def shouldSkip_def contains_def
      update_back_def stopped_def)

theorem run_stops_at_requested_call_witness:
  "getCurrentCallFunctionName call_env stopped = Inr ''arch_swap''"
proof -
  have r: "isRunnable stopped" by (simp add: stopped_def isRunnable_def)
  from run_stops_at_requested_call [OF two_calls_stop r] show ?thesis
    by (auto simp: stop_swap_def)
qed

text \<open>
  How a call is controlled: a call to a function to stop at stops the run and a call to a
  function to skip goes on to the next instruction, both without changing anything of the state;
  a request to stop wins over one to skip, and every other call is executed.
\<close>

theorem call_control:
  assumes "in_op I = OCall" and "isRunnable s" and "getFunctionWithPtr env (in_call I) s = Inr (Some F)"
  shows "runInstruction fu env fc I s =
    (if F \<in> set (fc_stop fc) then Inr (True, s)
     else if F \<in> set (fc_skip fc) then Inr (False, s)
     else rbind (visitCallBase env I s) (\<lambda>s2. Inr (False, s2)))"
  using runInstruction_call [OF assms(1) _ assms(3)] assms(2) by (simp add: isRunnable_def)

theorem call_control_witness:
  "runInstruction 0 call_env stop_swap (call_instr 1 ''log'' [7]) two_calls = Inr (False, two_calls)"
  using call_control [of "call_instr 1 ''log'' [7]" two_calls call_env "''log''" 0 stop_swap]
  by (simp add: call_instr_def two_calls_def isRunnable_def getFunctionWithPtr_def stop_swap_def)

text \<open>
  Answering a stopped run. \<open>putReturnValue\<close> on a run that stopped at a call succeeds and
  makes the given value the result of that call in the frame it stopped in; that frame goes on
  with the instruction behind the call, and the frames below and the call stack are unchanged.
\<close>

theorem put_return_value_answers:
  assumes "run fuel fu env fc s = Inr s'" and "isRunnable s'"
  shows "\<exists>I s2. running s' = Some I \<and> in_op I = OCall \<and> putReturnValue v s' = Inr s2 \<and>
    fr_values (last (ECStack s2)) = (fr_values (last (ECStack s')))(in_id I \<mapsto> v) \<and>
    fr_next (last (ECStack s2)) = fr_next (last (ECStack s')) \<and>
    butlast (ECStack s2) = butlast (ECStack s') \<and> getCallStack s2 = getCallStack s' \<and>
    running s2 = running s'"
proof -
  have ne: "ECStack s' \<noteq> []" using assms(2) by (simp add: isRunnable_def)
  obtain I where I: "running s' = Some I" "in_op I = OCall" using run_stop [OF assms(1) ne] by blast
  let ?s2 = "update_back (set_value (in_id I) v) s'"
  have p: "putReturnValue v s' = Inr ?s2" using I ne by (simp add: putReturnValue_def)
  have "getCallStack ?s2 = map fr_function (butlast (ECStack s') @ [last (ECStack s')])"
    by (simp add: getCallStack_def update_back_def set_value_def)
  then have "getCallStack ?s2 = getCallStack s'" using ne by (simp add: getCallStack_def)
  with I p show ?thesis by (simp add: set_value_def)
qed

theorem put_return_value_answers_witness:
  "\<exists>s2. putReturnValue default_gval stopped = Inr s2 \<and> getCallStack s2 = [''main''] \<and>
     fr_values (last (ECStack s2)) 2 = Some default_gval"
proof -
  have r: "isRunnable stopped" by (simp add: stopped_def isRunnable_def)
  have "getCallStack stopped = [''main'']" by (simp add: stopped_def getCallStack_def main_frame_def)
  with put_return_value_answers [OF two_calls_stop r, of default_gval] show ?thesis
    by (auto simp: stopped_def call_instr_def)
qed

text \<open>
  The arguments \<open>getCurrentCallArgs\<close> gives are not those of the call the run stopped at: it
  reads them from the frame's caller, which a stopped call has not set yet. It reports the
  arguments of whatever call that frame last executed, and uses a null pointer when there is none.
\<close>

theorem stopped_call_args_stale:
  assumes "ECStack s = fs @ [f]" and "fr_next f = I # is" and "in_op I = OCall"
    and "cb_function (in_call I) = Some F" and "F \<in> set (fc_stop fc)"
  shows "\<exists>s'. run (Suc n) fu env fc s = Inr s' \<and> running s' = Some I \<and>
    getCurrentCallArgs env s' =
      (case fr_caller f of
         None \<Rightarrow> Inl NullDeref
       | Some call \<Rightarrow> Inr (map (\<lambda>v. operand env v s') (cb_args call)))"
proof -
  let ?s1 = "(update_back (\<lambda>f. f\<lparr>fr_next := is\<rparr>) s)\<lparr>running := Some I\<rparr>"
  have "runInstruction fu env fc I ?s1 = Inr (True, ?s1)"
    using assms(3-5) by (subst runInstruction_call [of I ?s1 env F])
      (simp_all add: getFunctionWithPtr_def update_back_def)
  then have "run (Suc n) fu env fc s = Inr ?s1"
    using assms(1,2) by (simp add: run.simps [of "Suc n"] Let_def)
  moreover have "fr_caller (last (ECStack ?s1)) = fr_caller f" "ECStack ?s1 \<noteq> []"
    using assms(1) by (simp_all add: update_back_def)
  ultimately show ?thesis using assms(3)
    by (intro exI [of _ ?s1]) (simp add: getCurrentCallArgs_def split: option.splits)
qed

theorem stopped_call_args_stale_witness:
  "\<exists>s'. run 1 0 call_env (stop_swap\<lparr>fc_stop := [''log'']\<rparr>) two_calls = Inr s' \<and>
     getCurrentCallArgs call_env s' = Inl NullDeref"
  using stopped_call_args_stale [of two_calls "[]" main_frame "call_instr 1 ''log'' [7]"
      "[call_instr 2 ''arch_swap'' [8, 9]]" "''log''" "stop_swap\<lparr>fc_stop := [''log'']\<rparr>" 0 0 call_env]
  by (auto simp: two_calls_def main_frame_def call_instr_def)

text \<open>
  The fuel of the loop does not matter once it is enough: a run that comes back comes back
  in the same state with any more fuel.
\<close>

theorem run_fuel_irrelevant:
  assumes "run fuel fu env fc s = Inr s'" and "fuel \<le> fuel'"
  shows "run fuel' fu env fc s = Inr s'"
  using assms by (rule run_more_fuel)

theorem run_fuel_irrelevant_witness: "run 10 0 call_env stop_swap two_calls = Inr stopped"
  by (rule run_fuel_irrelevant [OF two_calls_stop]) simp

end
