(* ===== verification/Session.thy ===== *)
theory Session
  imports FlowControl
begin

text \<open>
  The protocol between a client and the interpreter (\<open>stop\<close>, \<open>resume\<close>, \<open>getCurrentCallFunctionName\<close>,
  \<open>putReturnValue\<close> and \<open>isRunnable\<close> of \<open>libirx/irinterpreter2-interpreter.cc\<close>): whenever a run stops at
  a call, the client answers it with a value and resumes. A session is shown equivalent to a run in
  which the functions to stop at are replaced by stubs; that either of them ends is a matter of the
  program and is not claimed.
\<close>

section \<open>Sessions\<close>

text \<open>\<open>answer\<close> is the client's answer to a call of a function in a state.\<close>

definition answer_call :: "run_env \<Rightarrow> (string \<Rightarrow> run_state \<Rightarrow> gval) \<Rightarrow> run_state \<Rightarrow> run_state res" where
  "answer_call env answer s =
     rbind (getCurrentCallFunctionName env s) (\<lambda>F. putReturnValue (answer F s) s)"

fun session ::
    "nat \<Rightarrow> nat \<Rightarrow> nat \<Rightarrow> run_env \<Rightarrow> flow_control \<Rightarrow> (string \<Rightarrow> run_state \<Rightarrow> gval) \<Rightarrow> run_state \<Rightarrow>
     run_state res" where
  "session rounds fuel fu env fc answer s =
     rbind (resume fuel fu env fc s) (\<lambda>(ok, r).
       case r of
         None \<Rightarrow> Inl (Throw ''exception in resume'')
       | Some s' \<Rightarrow>
           if \<not> isRunnable s' then Inr s'
           else (case rounds of
                   0 \<Rightarrow> Inl OutOfFuel
                 | Suc n \<Rightarrow> rbind (answer_call env answer s') (session n fuel fu env fc answer)))"

declare session.simps [simp del]

text \<open>
  The specification sessions are compared with, which is not code of the library: the main loop never
  left, in which a call that would stop it gets its answer in place.
\<close>

fun run_stubbed ::
    "nat \<Rightarrow> nat \<Rightarrow> run_env \<Rightarrow> flow_control \<Rightarrow> (string \<Rightarrow> run_state \<Rightarrow> gval) \<Rightarrow> run_state \<Rightarrow>
     run_state res" where
  "run_stubbed fuel fu env fc answer s =
     (if ECStack s = [] then Inr s
      else (case fuel of
        0 \<Rightarrow> Inl OutOfFuel
      | Suc n \<Rightarrow>
          (case fr_next (last (ECStack s)) of
             [] \<Rightarrow> Inl WildPointer
           | I # is \<Rightarrow>
               let s1 = (update_back (\<lambda>f. f\<lparr>fr_next := is\<rparr>) s)\<lparr>running := Some I\<rparr>
               in rbind (runInstruction fu env fc I s1) (\<lambda>(stop, s2).
                    if stop then rbind (answer_call env answer s2) (run_stubbed n fu env fc answer)
                    else run_stubbed n fu env fc answer s2))))"

declare run_stubbed.simps [simp del]

section \<open>Facts\<close>

lemma resume_Inr: "run fuel fu env fc s = Inr s' \<Longrightarrow> resume fuel fu env fc s = Inr (True, Some s')"
  by (simp add: resume_def)

lemma session_run:
  assumes "session rounds fuel fu env fc answer s = Inr s'"
  shows "\<exists>s1. run fuel fu env fc s = Inr s1 \<and>
    (if \<not> isRunnable s1 then s' = s1
     else \<exists>n s2. rounds = Suc n \<and> answer_call env answer s1 = Inr s2 \<and>
       session n fuel fu env fc answer s2 = Inr s')"
  using assms
  by (auto simp: session.simps [of rounds] resume_def split: sum.splits cpp_error.splits if_splits nat.splits)

lemma session_step:
  assumes "run fuel fu env fc s = Inr s1"
  shows "session rounds fuel fu env fc answer s =
    (if \<not> isRunnable s1 then Inr s1
     else case rounds of
       0 \<Rightarrow> Inl OutOfFuel
     | Suc n \<Rightarrow> rbind (answer_call env answer s1) (session n fuel fu env fc answer))"
  using resume_Inr [OF assms] by (simp add: session.simps [of rounds])

lemma session_more:
  "session rounds fuel fu env fc answer s = Inr s' \<Longrightarrow> rounds \<le> rounds' \<Longrightarrow> fuel \<le> fuel' \<Longrightarrow>
   session rounds' fuel' fu env fc answer s = Inr s'"
proof (induction rounds arbitrary: s rounds')
  case 0
  from session_run [OF "0.prems"(1)] obtain s1 where s1: "run fuel fu env fc s = Inr s1"
    and r: "\<not> isRunnable s1" "s' = s1" by (auto split: if_splits)
  from session_step [OF run_more_fuel [OF s1 "0.prems"(3)]] r show ?case by simp
next
  case (Suc n)
  from session_run [OF Suc.prems(1)] obtain s1 where s1: "run fuel fu env fc s = Inr s1"
    and r: "if \<not> isRunnable s1 then s' = s1
         else \<exists>m s2. Suc n = Suc m \<and> answer_call env answer s1 = Inr s2 \<and>
           session m fuel fu env fc answer s2 = Inr s'" by blast
  note s1' = session_step [OF run_more_fuel [OF s1 Suc.prems(3)]]
  show ?case
  proof (cases "isRunnable s1")
    case False
    with r show ?thesis by (simp add: s1')
  next
    case True
    with r obtain s2 where "answer_call env answer s1 = Inr s2" "session n fuel fu env fc answer s2 = Inr s'"
      by auto
    moreover obtain m where "rounds' = Suc m" "n \<le> m" using Suc.prems(2) by (cases rounds') auto
    ultimately show ?thesis using Suc.IH [of s2 m] Suc.prems(3) True by (simp add: s1')
  qed
qed

text \<open>The stubbed loop leaves nothing to run, and more fuel does not change what it returns.\<close>

lemma stubbed_ends: "run_stubbed fuel fu env fc answer s = Inr s' \<Longrightarrow> \<not> isRunnable s'"
proof (induction fuel arbitrary: s)
  case 0
  then show ?case by (auto simp: run_stubbed.simps [of 0] isRunnable_def split: if_splits)
next
  case (Suc n)
  from Suc.prems show ?case
    by (auto simp: run_stubbed.simps [of "Suc n"] Let_def isRunnable_def [of s'] split: if_splits list.splits
        dest!: Suc.IH [unfolded isRunnable_def])
qed

lemma stubbed_more_fuel:
  "run_stubbed fuel fu env fc answer s = Inr s' \<Longrightarrow> fuel \<le> fuel' \<Longrightarrow>
   run_stubbed fuel' fu env fc answer s = Inr s'"
proof (induction fuel arbitrary: s fuel')
  case 0
  then show ?case by (simp add: run_stubbed.simps [of 0] run_stubbed.simps [of fuel'] split: if_splits)
next
  case (Suc n)
  then obtain m where m: "fuel' = Suc m" "n \<le> m" by (cases fuel') auto
  show ?case
  proof (cases "ECStack s = []")
    case True
    with Suc.prems(1) show ?thesis by (simp add: m run_stubbed.simps [of "Suc n"] run_stubbed.simps [of "Suc m"])
  next
    case False
    with Suc.prems(1) Suc.IH [OF _ m(2)] show ?thesis
      by (auto simp: m(1) run_stubbed.simps [of "Suc n"] run_stubbed.simps [of "Suc m"] Let_def
          split: list.splits if_splits)
  qed
qed

text \<open>One instruction that does not stop the run can be put in front of a session.\<close>

lemma session_fetch:
  assumes "ECStack s \<noteq> []" and "fr_next (last (ECStack s)) = I # is"
    and "runInstruction fu env fc I ((update_back (\<lambda>f. f\<lparr>fr_next := is\<rparr>) s)\<lparr>running := Some I\<rparr>) =
      Inr (False, s2)"
    and "session n n fu env fc answer s2 = Inr s'"
  shows "session (Suc n) (Suc n) fu env fc answer s = Inr s'"
proof -
  from session_run [OF assms(4)] obtain s1 where r1: "run n fu env fc s2 = Inr s1" by blast
  then have r: "run (Suc n) fu env fc s = Inr s1"
    using assms(1-3) by (simp add: run.simps [of "Suc n"] Let_def)
  have "session (Suc n) (Suc n) fu env fc answer s2 = Inr s'"
    using session_more [OF assms(4)] by simp
  then show ?thesis using session_step [OF r] session_step [OF run_more_fuel [OF r1, of "Suc n"]] by simp
qed

lemma session_of_stubbed:
  "run_stubbed fuel fu env fc answer s = Inr s' \<Longrightarrow>
   session fuel fuel fu env fc answer s = Inr s' \<and> ECStack s' = []"
proof (induction fuel arbitrary: s)
  case 0
  then have "ECStack s = []" "s' = s" by (simp_all add: run_stubbed.simps [of 0] split: if_splits)
  then show ?case using session_step [of 0 fu env fc s s 0 answer]
    by (simp add: run.simps [of 0] isRunnable_def)
next
  case (Suc n)
  show ?case
  proof (cases "ECStack s = []")
    case True
    with Suc.prems have "s' = s" by (simp add: run_stubbed.simps [of "Suc n"])
    with True show ?thesis using session_step [of "Suc n" fu env fc s s "Suc n" answer]
      by (simp add: run.simps [of "Suc n"] isRunnable_def)
  next
    case False
    then obtain I "is" where nx: "fr_next (last (ECStack s)) = I # is"
      using Suc.prems by (auto simp: run_stubbed.simps [of "Suc n"] split: list.splits)
    let ?s1 = "(update_back (\<lambda>f. f\<lparr>fr_next := is\<rparr>) s)\<lparr>running := Some I\<rparr>"
    obtain b s2 where st: "runInstruction fu env fc I ?s1 = Inr (b, s2)"
      and rest: "(if b then rbind (answer_call env answer s2) (run_stubbed n fu env fc answer)
        else run_stubbed n fu env fc answer s2) = Inr s'"
      using Suc.prems False nx by (auto simp: run_stubbed.simps [of "Suc n"] Let_def)
    show ?thesis
    proof (cases b)
      case False
      with rest st have r: "run_stubbed n fu env fc answer s2 = Inr s'"
        and st': "runInstruction fu env fc I ?s1 = Inr (False, s2)" by simp_all
      note ih = Suc.IH [OF r]
      from session_fetch [OF \<open>ECStack s \<noteq> []\<close> nx st' conjunct1 [OF ih]] conjunct2 [OF ih]
      show ?thesis by (rule conjI)
    next
      case True
      then obtain s3 where s3: "answer_call env answer s2 = Inr s3"
        "run_stubbed n fu env fc answer s3 = Inr s'" using rest by auto
      have st': "runInstruction fu env fc I ?s1 = Inr (True, s2)" using st True by simp
      then have ne: "ECStack s2 \<noteq> []" using runInstruction_stop [OF st'] by simp
      have "run (Suc n) fu env fc s = Inr s2"
        using False nx st' by (simp add: run.simps [of "Suc n"] Let_def)
      note step = session_step [OF this, of "Suc n" answer]
      note ih = Suc.IH [OF s3(2)]
      have "session n (Suc n) fu env fc answer s3 = Inr s'"
        by (rule session_more [OF conjunct1 [OF ih]]) simp_all
      then show ?thesis using ne s3(1) conjunct2 [OF ih] by (simp add: step isRunnable_def)
    qed
  qed
qed

text \<open>The converse: a run and what follows its stop are one run of the stubbed loop.\<close>

lemma stubbed_fetch:
  assumes "ECStack s \<noteq> []" and "fr_next (last (ECStack s)) = I # is"
    and "runInstruction fu env fc I ((update_back (\<lambda>f. f\<lparr>fr_next := is\<rparr>) s)\<lparr>running := Some I\<rparr>) =
      Inr (b, s2)"
  shows "run_stubbed (Suc n) fu env fc answer s =
    (if b then rbind (answer_call env answer s2) (run_stubbed n fu env fc answer)
     else run_stubbed n fu env fc answer s2)"
  using assms by (simp add: run_stubbed.simps [of "Suc n"] Let_def)

lemma run_fetch:
  assumes "run (Suc n) fu env fc s = Inr s1" and "ECStack s \<noteq> []"
  obtains I "is" b s2 where "fr_next (last (ECStack s)) = I # is"
    and "runInstruction fu env fc I ((update_back (\<lambda>f. f\<lparr>fr_next := is\<rparr>) s)\<lparr>running := Some I\<rparr>) =
      Inr (b, s2)"
    and "(if b then Inr s2 else run n fu env fc s2) = Inr s1"
proof -
  obtain I "is" where nx: "fr_next (last (ECStack s)) = I # is"
    using assms by (auto simp: run.simps [of "Suc n"] split: list.splits)
  let ?s1 = "(update_back (\<lambda>f. f\<lparr>fr_next := is\<rparr>) s)\<lparr>running := Some I\<rparr>"
  obtain b s2 where "runInstruction fu env fc I ?s1 = Inr (b, s2)"
    "(if b then Inr s2 else run n fu env fc s2) = Inr s1"
    using assms nx by (auto simp: run.simps [of "Suc n"] Let_def)
  with nx show ?thesis by (rule that)
qed

lemma stubbed_of_end:
  "run fuel fu env fc s = Inr s1 \<Longrightarrow> ECStack s1 = [] \<Longrightarrow>
   run_stubbed fuel fu env fc answer s = Inr s1"
proof (induction fuel arbitrary: s)
  case 0
  then show ?case by (simp add: run.simps [of 0] run_stubbed.simps [of 0] split: if_splits)
next
  case (Suc n)
  show ?case
  proof (cases "ECStack s = []")
    case True
    with Suc.prems show ?thesis by (simp add: run.simps [of "Suc n"] run_stubbed.simps [of "Suc n"])
  next
    case False
    from run_fetch [OF Suc.prems(1) False] obtain I "is" b s2 where nx: "fr_next (last (ECStack s)) = I # is"
      and st: "runInstruction fu env fc I ((update_back (\<lambda>f. f\<lparr>fr_next := is\<rparr>) s)\<lparr>running := Some I\<rparr>) =
        Inr (b, s2)"
      and rest: "(if b then Inr s2 else run n fu env fc s2) = Inr s1" by blast
    have "\<not> b" using runInstruction_stop [of fu env fc I _ s2] st rest Suc.prems(2) by (cases b) auto
    then show ?thesis using stubbed_fetch [OF False nx st] rest Suc.IH [of s2] Suc.prems(2) by simp
  qed
qed

lemma stubbed_over_stop:
  "run fuel fu env fc s = Inr s1 \<Longrightarrow> ECStack s1 \<noteq> [] \<Longrightarrow> answer_call env answer s1 = Inr s2 \<Longrightarrow>
   run_stubbed k fu env fc answer s2 = Inr s' \<Longrightarrow> run_stubbed (fuel + k) fu env fc answer s = Inr s'"
proof (induction fuel arbitrary: s)
  case 0
  then show ?case by (auto simp: run.simps [of 0] split: if_splits)
next
  case (Suc n)
  have ne: "ECStack s \<noteq> []"
  proof
    assume "ECStack s = []"
    with Suc.prems(1,2) show False by (simp add: run.simps [of "Suc n"])
  qed
  from run_fetch [OF Suc.prems(1) ne] obtain I "is" b s3 where nx: "fr_next (last (ECStack s)) = I # is"
    and st: "runInstruction fu env fc I ((update_back (\<lambda>f. f\<lparr>fr_next := is\<rparr>) s)\<lparr>running := Some I\<rparr>) =
      Inr (b, s3)"
    and rest: "(if b then Inr s3 else run n fu env fc s3) = Inr s1" by blast
  note step = stubbed_fetch [OF ne nx st, of "n + k" answer]
  show ?case
  proof (cases b)
    case True
    with rest Suc.prems(3,4) stubbed_more_fuel [of k fu env fc answer s2 s' "n + k"] step
    show ?thesis by simp
  next
    case False
    with rest Suc.IH [of s3] Suc.prems(2-4) step show ?thesis by simp
  qed
qed

lemma stubbed_of_session:
  "session rounds fuel fu env fc answer s = Inr s' \<Longrightarrow>
   \<exists>k. run_stubbed k fu env fc answer s = Inr s' \<and> \<not> isRunnable s'"
proof (induction rounds arbitrary: s)
  case 0
  from session_run [OF 0] obtain s1 where "run fuel fu env fc s = Inr s1" "\<not> isRunnable s1" "s' = s1"
    by (auto split: if_splits)
  then show ?case using stubbed_of_end [of fuel fu env fc s s1 answer] by (auto simp: isRunnable_def)
next
  case (Suc n)
  from session_run [OF Suc.prems] obtain s1 where s1: "run fuel fu env fc s = Inr s1"
    and r: "if \<not> isRunnable s1 then s' = s1
         else \<exists>m s2. Suc n = Suc m \<and> answer_call env answer s1 = Inr s2 \<and>
           session m fuel fu env fc answer s2 = Inr s'" by blast
  show ?case
  proof (cases "isRunnable s1")
    case False
    with r s1 show ?thesis using stubbed_of_end [OF s1, of answer] by (auto simp: isRunnable_def)
  next
    case True
    with r obtain s2 where s2: "answer_call env answer s1 = Inr s2" "session n fuel fu env fc answer s2 = Inr s'"
      by auto
    from Suc.IH [OF s2(2)] obtain k where "run_stubbed k fu env fc answer s2 = Inr s'" "\<not> isRunnable s'"
      by blast
    then show ?thesis using stubbed_over_stop [OF s1 _ s2(1)] True by (auto simp: isRunnable_def)
  qed
qed

section \<open>Property\<close>

text \<open>
  C17. Stopping is transparent. The client that stops the program at calls, answers each with a value
  and resumes comes to an end with a final state exactly when the program itself ends with
  this state if every call to stop at gets its answer in place, and then nothing is left to run: no
  instruction is lost, repeated or changed by leaving the main loop and entering it again, and an
  interrupted program neither ends where the uninterrupted one does not, nor the other way round. A
  program that ends after \<open>n\<close> instructions needs at most \<open>n\<close> rounds.
\<close>

theorem session_transparent:
  "((\<exists>rounds fuel. session rounds fuel fu env fc answer s = Inr s') \<longleftrightarrow>
      (\<exists>fuel. run_stubbed fuel fu env fc answer s = Inr s' \<and> \<not> isRunnable s')) \<and>
   (run_stubbed n fu env fc answer s = Inr s' \<longrightarrow> session n n fu env fc answer s = Inr s')"
  using stubbed_of_session session_of_stubbed by blast

text \<open>Both calls of the example are stopped at and answered; the third ends the program.\<close>

definition two_stops :: run_state where
  "two_stops = two_calls\<lparr>ECStack :=
     [main_frame\<lparr>fr_next := [call_instr 1 ''log'' [7], call_instr 2 ''arch_swap'' [8], call_instr 3 ''exit'' []]\<rparr>]\<rparr>"

theorem session_transparent_witness:
  "\<exists>s'. session 3 3 0 call_env \<lparr>fc_stop = [''log'', ''arch_swap''], fc_skip = [], fc_print = False\<rparr>
       (\<lambda>F s. default_gval) two_stops = Inr s' \<and> \<not> isRunnable s'"
proof -
  let ?fc = "\<lparr>fc_stop = [''log'', ''arch_swap''], fc_skip = [], fc_print = False\<rparr>"
  have "\<exists>s'. run_stubbed 3 0 call_env ?fc (\<lambda>F s. default_gval) two_stops = Inr s'"
    by (simp add: run_stubbed.simps numeral_3_eq_3 two_stops_def two_calls_def main_frame_def call_instr_def
      runInstruction_def getFunctionWithPtr_def shouldStop_def shouldSkip_def contains_def
      update_back_def answer_call_def getCurrentCallFunctionName_def putReturnValue_def set_value_def
      visitCallBase_def call_env_def startswith_def)
  then obtain s' where "run_stubbed 3 0 call_env ?fc (\<lambda>F s. default_gval) two_stops = Inr s'" by blast
  with session_transparent [of 0 call_env ?fc "\<lambda>F s. default_gval" two_stops s' 3] stubbed_ends [OF this]
  show ?thesis by auto
qed

end
