(* ===== verification/LinkerMap.thy ===== *)
theory LinkerMap
  imports Prelude
begin

text \<open>
  The parser of a linker's map file (\<open>extract-blob/extract-blob-linker-map.cc\<close>,
  \<open>extract-blob/extract-blob.h\<close>): it consumes the text from the front, a window of at most two
  lines at a time, with two regular expressions.

  \<open>std::regex\<close> belongs to the standard library, so its ECMAScript semantics is modelled: a
  backtracking matcher that tries the longest repetition first, anchored at the start of the text,
  since both expressions begin with a caret.
\<close>

section \<open>Regular expressions\<close>

text \<open>
  \<open>RClose s\<close> is not part of an expression: the matcher puts it where a group ends, with the text
  that was left at its start.
\<close>

datatype rx =
    RLit string
  | RStar "char \<Rightarrow> bool"
  | RPlus "char \<Rightarrow> bool"
  | RGroup "rx list"
  | RClose string

fun rx_weight :: "rx \<Rightarrow> nat" where
  "rx_weight (RLit l) = 1"
| "rx_weight (RStar P) = 1"
| "rx_weight (RPlus P) = 2"
| "rx_weight (RGroup rs) = 2 + sum_list (map rx_weight rs)"
| "rx_weight (RClose s) = 1"

text \<open>The captured groups and the text behind the match.\<close>

function rx_match :: "rx list \<Rightarrow> string \<Rightarrow> (string list \<times> string) option" where
  "rx_match [] s = Some ([], s)"
| "rx_match (RClose s0 # k) s =
     map_option (\<lambda>(groups, rest). (take (length s0 - length s) s0 # groups, rest)) (rx_match k s)"
| "rx_match (RLit l # k) s =
     (if take (length l) s = l then rx_match k (drop (length l) s) else None)"
| "rx_match (RGroup rs # k) s = rx_match (rs @ RClose s # k) s"
| "rx_match (RPlus P # k) [] = None"
| "rx_match (RPlus P # k) (c # cs) = (if P c then rx_match (RStar P # k) cs else None)"
| "rx_match (RStar P # k) [] = rx_match k []"
| "rx_match (RStar P # k) (c # cs) =
     (if P c
      then (case rx_match (RStar P # k) cs of Some r \<Rightarrow> Some r | None \<Rightarrow> rx_match k (c # cs))
      else rx_match k (c # cs))"
  by pat_completeness auto
termination
  by (relation "measures [\<lambda>(rs, s). sum_list (map rx_weight rs), \<lambda>(rs, s). length s]") auto

section \<open>The two expressions\<close>

definition rx_digit :: "char \<Rightarrow> bool" where
  "rx_digit c \<longleftrightarrow> c \<in> set ''0123456789''"

definition is_word :: "char \<Rightarrow> bool" where
  "is_word c \<longleftrightarrow> c = CHR ''_'' \<or> rx_digit c \<or>
     (let n = (of_char c :: nat) in (65 \<le> n \<and> n \<le> 90) \<or> (97 \<le> n \<and> n \<le> 122))"

definition is_hex :: "char \<Rightarrow> bool" where
  "is_hex c \<longleftrightarrow> c \<in> set ''0123456789abcdef''"

abbreviation non_word :: "char \<Rightarrow> bool" where
  "non_word c \<equiv> \<not> is_word c"

definition rx_hex :: rx where
  "rx_hex = RGroup [RLit ''0x'', RPlus is_hex]"

definition rx_section :: "rx list" where
  "rx_section = [RGroup [RPlus is_word], RPlus non_word, rx_hex, RPlus non_word, rx_hex]"

definition rx_symbol :: "rx list" where
  "rx_symbol = [RStar non_word, rx_hex, RPlus non_word, RGroup [RPlus is_word], RLit '' = .'']"

section \<open>Sections and symbols\<close>

record symbol =
  sy_name :: string
  sy_addr :: u64

record map_section =
  ms_name :: string
  ms_addr :: u64
  ms_size :: u64
  ms_symbols :: "symbol list"

definition hex_value :: "char \<Rightarrow> nat" where
  "hex_value c = (if rx_digit c then of_char c - 48 else of_char c - 87)"

text \<open>\<open>std::stoul\<close> in base 16 on the text of a hexadecimal group.\<close>

definition stoul16 :: "string \<Rightarrow> u64 res" where
  "stoul16 s =
     (let n = foldl (\<lambda>a c. 16 * a + hex_value c) 0 (drop 2 s)
      in if n < 2 ^ 64 then Inr (word_of_nat n) else Inl (Throw ''out_of_range''))"

fun find_from :: "nat \<Rightarrow> string \<Rightarrow> nat option" where
  "find_from i [] = None"
| "find_from i (c # cs) =
     (case i of
        0 \<Rightarrow> if c = CHR 0x0A then Some 0 else map_option Suc (find_from 0 cs)
      | Suc j \<Rightarrow> map_option Suc (find_from j cs))"

text \<open>The first two lines, or the whole text when it has fewer.\<close>

definition window :: "string \<Rightarrow> string" where
  "window s =
     (case find_from 0 s of
        None \<Rightarrow> s
      | Some e \<Rightarrow>
          (case find_from (e + 1) s of
             None \<Rightarrow> s
           | Some e2 \<Rightarrow> take (e2 + 1) s))"

definition push_symbol :: "symbol \<Rightarrow> map_section list \<Rightarrow> map_section list" where
  "push_symbol y secs =
     (if secs = [] then secs
      else butlast secs @ [(last secs)\<lparr>ms_symbols := ms_symbols (last secs) @ [y]\<rparr>])"

section \<open>The parser\<close>

lemma rx_match_rest: "rx_match rs s = Some (groups, rest) \<Longrightarrow> length rest \<le> length s"
proof (induction rs s arbitrary: groups rest rule: rx_match.induct)
  case (3 l k s)
  then have "length rest \<le> length (drop (length l) s)" by (auto split: if_splits)
  then show ?case by simp
next
  case (8 P k c cs)
  show ?case
  proof (cases "P c")
    case True
    show ?thesis
    proof (cases "rx_match (RStar P # k) cs")
      case None
      with 8 True show ?thesis by simp
    next
      case (Some r)
      with "8.prems" True have "rx_match (RStar P # k) cs = Some (groups, rest)" by simp
      from "8.IH"(1) [OF True this] show ?thesis by simp
    qed
  next
    case False
    with 8 show ?thesis by simp
  qed
qed (force split: if_splits)+

lemma rx_plus_rest:
  assumes "rx_match (RPlus P # k) s = Some (groups, rest)"
  shows "length rest < length s"
proof (cases s)
  case (Cons c cs)
  with assms have "rx_match (RStar P # k) cs = Some (groups, rest)" by (simp split: if_splits)
  from rx_match_rest [OF this] Cons show ?thesis by simp
qed (use assms in simp)

lemma section_shorter:
  assumes "rx_match rx_section s = Some (groups, rest)"
  shows "length rest < length s"
  using assms rx_plus_rest by (simp add: rx_section_def)

lemma rx_star_rest:
  assumes "\<And>cs groups rest. rx_match k cs = Some (groups, rest) \<Longrightarrow> length rest < length cs"
    and "rx_match (RStar P # k) s = Some (groups, rest)"
  shows "length rest < length s"
  using assms(2)
proof (induction s arbitrary: groups)
  case (Cons c cs)
  show ?case
  proof (cases "rx_match k (c # cs) = Some (groups, rest)")
    case False
    with Cons.prems have "rx_match (RStar P # k) cs = Some (groups, rest)"
      by (auto split: if_splits option.splits)
    with Cons.IH show ?thesis by fastforce
  qed (rule assms(1))
qed (use assms(1) in force)

lemma symbol_shorter:
  assumes "rx_match rx_symbol s = Some (groups, rest)"
  shows "length rest < length s"
proof (rule rx_star_rest [OF _ assms [unfolded rx_symbol_def]])
  fix cs groups rest
  assume "rx_match [rx_hex, RPlus non_word, RGroup [RPlus is_word], RLit '' = .''] cs = Some (groups, rest)"
  then obtain g where "rx_match (RPlus is_hex # RClose cs # [RPlus non_word, RGroup [RPlus is_word], RLit '' = .''])
      (drop 2 cs) = Some (g, rest)"
    by (auto simp: rx_hex_def numeral_2_eq_2 split: if_splits)
  from rx_plus_rest [OF this] show "length rest < length cs" by simp
qed

text \<open>
  \<open>map_parse\<close> on the content of the file. \<open>continue\<close> goes to the loop's condition, which holds
  as long as the search for a newline has not failed.
\<close>

function map_loop :: "string \<Rightarrow> map_section list \<Rightarrow> map_section list res" where
  "map_loop s sections =
     (let str = window s in
      case rx_match rx_section str of
        Some (groups, rest) \<Rightarrow>
          rbind (stoul16 (groups ! 1)) (\<lambda>addr.
          rbind (stoul16 (groups ! 2)) (\<lambda>sz.
            map_loop (drop (length str - length rest) s)
              (sections @ [\<lparr>ms_name = groups ! 0, ms_addr = addr, ms_size = sz, ms_symbols = []\<rparr>])))
      | None \<Rightarrow>
          (case rx_match rx_symbol str of
             Some (groups, rest) \<Rightarrow>
               rbind (stoul16 (groups ! 0)) (\<lambda>addr.
                 map_loop (drop (length str - length rest) s)
                   (push_symbol \<lparr>sy_name = groups ! 1, sy_addr = addr\<rparr> sections))
           | None \<Rightarrow>
               (case find_from 0 s of
                  Some pos \<Rightarrow> map_loop (drop (pos + 1) s) sections
                | None \<Rightarrow> Inr sections)))"
  by pat_completeness auto

lemma window_take: "\<exists>n. window s = take n s"
proof -
  have "\<exists>n. s = take n s" by (rule exI [of _ "length s"]) simp
  then show ?thesis by (auto simp: window_def split: option.split)
qed

lemma drop_shorter: "length rest < length (window s) \<Longrightarrow> length (drop (length (window s) - length rest) s) < length s"
  using window_take [of s] by (auto simp: min_def split: if_splits)

lemma find_from_drop: "find_from i s = Some p \<Longrightarrow> length (drop (Suc n) s) < length s"
  by (cases s) (auto simp: less_Suc_eq_le)

termination map_loop
  by (relation "measure (\<lambda>(s, sections). length s)")
    (auto simp del: length_drop intro: drop_shorter section_shorter symbol_shorter find_from_drop)

definition map_parse :: "string \<Rightarrow> map_section list res" where
  "map_parse file_content = map_loop file_content []"

declare map_loop.simps [simp del]

text \<open>The first section with a symbol of the name, and the symbol's offset in it.\<close>

fun map_get_section_of_symbol :: "map_section list \<Rightarrow> string \<Rightarrow> (map_section \<times> u64) option" where
  "map_get_section_of_symbol [] name = None"
| "map_get_section_of_symbol (scn # scns) name =
     (case find (\<lambda>y. sy_name y = name) (ms_symbols scn) of
        Some y \<Rightarrow> Some (scn, sy_addr y - ms_addr scn)
      | None \<Rightarrow> map_get_section_of_symbol scns name)"


section \<open>The expressions need no backtracking\<close>

text \<open>What follows a repetition cannot start with a character the repetition takes, or cannot fail.\<close>

definition decided :: "(char \<Rightarrow> bool) \<Rightarrow> rx list \<Rightarrow> bool" where
  "decided P k \<longleftrightarrow> (\<forall>c cs. P c \<longrightarrow> rx_match k (c # cs) = None) \<or> k = []"

lemma decided_close: "decided P k \<Longrightarrow>
    (\<forall>c cs. P c \<longrightarrow> rx_match (RClose s # k) (c # cs) = None) \<or> (\<forall>cs. rx_match (RClose s # k) cs \<noteq> None)"
  by (auto simp: decided_def)

lemma star_span:
  assumes "(\<forall>c cs. P c \<longrightarrow> rx_match k (c # cs) = None) \<or> (\<forall>cs. rx_match k cs \<noteq> None)"
  shows "rx_match (RStar P # k) s = rx_match k (dropWhile P s)"
proof (induction s)
  case (Cons c cs)
  show ?case
  proof (cases "rx_match k (dropWhile P cs)")
    case None
    with assms have "P c \<Longrightarrow> rx_match k (c # cs) = None" by blast
    with None Cons show ?thesis by simp
  next
    case (Some r)
    with Cons show ?thesis by simp
  qed
qed simp

lemma plus_span:
  assumes "(\<forall>c cs. P c \<longrightarrow> rx_match k (c # cs) = None) \<or> (\<forall>cs. rx_match k cs \<noteq> None)"
  shows "rx_match (RPlus P # k) s =
    (if takeWhile P s = [] then None else rx_match k (dropWhile P s))"
  by (cases s) (simp_all add: star_span [OF assms])

lemma take_while_length: "take (length s - length (dropWhile P s)) s = takeWhile P s"
proof -
  have "length s = length (takeWhile P s) + length (dropWhile P s)"
    by (metis length_append takeWhile_dropWhile_id)
  then show ?thesis by (simp add: takeWhile_eq_take [symmetric])
qed

lemma plus_group:
  assumes "decided P k"
  shows "rx_match (RGroup [RPlus P] # k) s =
    (if takeWhile P s = [] then None
     else map_option (\<lambda>(g, r). (takeWhile P s # g, r)) (rx_match k (dropWhile P s)))"
  using plus_span [OF decided_close [OF assms]] by (simp add: take_while_length)

text \<open>A hexadecimal number: its text and what is behind it.\<close>

definition scan_hex :: "string \<Rightarrow> (string \<times> string) option" where
  "scan_hex s =
     (if take 2 s = ''0x'' \<and> takeWhile is_hex (drop 2 s) \<noteq> []
      then Some (''0x'' @ takeWhile is_hex (drop 2 s), dropWhile is_hex (drop 2 s))
      else None)"

lemma hex_group:
  assumes "decided is_hex k"
  shows "rx_match (rx_hex # k) s =
    (case scan_hex s of
       None \<Rightarrow> None
     | Some (h, r) \<Rightarrow> map_option (\<lambda>(g, r'). (h # g, r')) (rx_match k r))"
proof (cases "take 2 s = ''0x''")
  case True
  then obtain t where s: "s = ''0x'' @ t" by (metis append_take_drop_id)
  have "take (length s - length (dropWhile is_hex t)) s = ''0x'' @ takeWhile is_hex t"
    using take_while_length [of t is_hex] length_dropWhile_le [of is_hex t]
    by (simp add: s Suc_diff_le)
  then show ?thesis using plus_span [OF decided_close [OF assms], of s t]
    by (simp add: s rx_hex_def scan_hex_def)
next
  case False
  then show ?thesis by (simp add: rx_hex_def scan_hex_def numeral_2_eq_2)
qed

text \<open>The scanners: each repetition takes all it can.\<close>

definition scan_section :: "string \<Rightarrow> (string list \<times> string) option" where
  "scan_section s =
     (let r1 = dropWhile is_word s; r2 = dropWhile non_word r1 in
      if takeWhile is_word s = [] \<or> takeWhile non_word r1 = [] then None
      else case scan_hex r2 of
        None \<Rightarrow> None
      | Some (h1, r3) \<Rightarrow>
          if takeWhile non_word r3 = [] then None
          else case scan_hex (dropWhile non_word r3) of
            None \<Rightarrow> None
          | Some (h2, r4) \<Rightarrow> Some ([takeWhile is_word s, h1, h2], r4))"

definition scan_symbol :: "string \<Rightarrow> (string list \<times> string) option" where
  "scan_symbol s =
     (case scan_hex (dropWhile non_word s) of
        None \<Rightarrow> None
      | Some (h, r1) \<Rightarrow>
          let r2 = dropWhile non_word r1; r3 = dropWhile is_word r2 in
          if takeWhile non_word r1 = [] \<or> takeWhile is_word r2 = [] \<or> take (length '' = .'') r3 \<noteq> '' = .'' then None
          else Some ([h, takeWhile is_word r2], drop (length '' = .'') r3))"

lemma hex_is_word: "is_hex c \<Longrightarrow> is_word c"
proof -
  have "list_all is_word ''0123456789abcdef''" by code_simp
  then show "is_hex c \<Longrightarrow> is_word c" unfolding is_hex_def list_all_iff by blast
qed

lemma zero_is_word: "is_word CHR ''0''"
  by (simp add: is_word_def rx_digit_def)

lemma space_is_no_word: "\<not> is_word CHR '' ''"
  by (simp add: is_word_def rx_digit_def)

lemma hex_needs_zero: "c \<noteq> CHR ''0'' \<Longrightarrow> rx_match (rx_hex # k) (c # cs) = None"
  by (simp add: rx_hex_def numeral_2_eq_2)

lemma plus_needs: "\<not> P c \<Longrightarrow> rx_match (RPlus P # k) (c # cs) = None"
  by simp

lemma group_needs: "\<not> P c \<Longrightarrow> rx_match (RGroup [RPlus P] # k) (c # cs) = None"
  by simp

lemma decided_hex_plus: "decided is_hex (RPlus non_word # k)"
  by (simp add: decided_def hex_is_word)

lemma regex_is_scan:
  "rx_match rx_section s = scan_section s" "rx_match rx_symbol s = scan_symbol s"
proof -
  let ?nw = "\<lambda>k. (\<forall>c cs. \<not> is_word c \<longrightarrow> rx_match k (c # cs) = None) \<or> (\<forall>cs. rx_match k cs \<noteq> None)"
  have "rx_match (rx_hex # k) (c # cs) = None" if "\<not> is_word c" for k c cs
  proof -
    have "c \<noteq> CHR ''0''" using that zero_is_word by metis
    then show ?thesis by (rule hex_needs_zero)
  qed
  then have hex: "?nw (rx_hex # k)" for k by simp
  have nil: "decided is_hex []" by (simp add: decided_def)
  have word: "decided is_word (RPlus non_word # k)" for k by (simp add: decided_def)
  have eq: "decided is_word [RLit '' = .'']"
    using space_is_no_word by (auto simp: decided_def)
  have name: "?nw (RGroup [RPlus is_word] # k)" for k by simp
  show "rx_match rx_section s = scan_section s"
    unfolding rx_section_def plus_group [OF word] plus_span [OF hex] hex_group [OF decided_hex_plus]
      hex_group [OF nil]
    by (auto simp: scan_section_def Let_def split: option.split)
  show "rx_match rx_symbol s = scan_symbol s"
    unfolding rx_symbol_def star_span [OF hex] hex_group [OF decided_hex_plus] plus_span [OF name]
      plus_group [OF eq]
    by (auto simp: scan_symbol_def Let_def split: option.split)
qed


section \<open>Printing a map file\<close>

text \<open>
  The lines of a map file that the parser is for: a section with its address and size, and below
  it, indented, the symbols the linker script assigns.
\<close>

definition hex_char :: "nat \<Rightarrow> char" where
  "hex_char d = (if d < 10 then char_of (48 + d) else char_of (87 + d))"

fun hex_digits :: "nat \<Rightarrow> string" where
  "hex_digits n = (if n < 16 then [hex_char n] else hex_digits (n div 16) @ [hex_char (n mod 16)])"

declare hex_digits.simps [simp del]

definition show_hex :: "u64 \<Rightarrow> string" where
  "show_hex a = ''0x'' @ hex_digits (unat a)"

abbreviation newline :: string where
  "newline \<equiv> [CHR 0x0A]"

definition show_symbol :: "symbol \<Rightarrow> string" where
  "show_symbol y = ''                '' @ show_hex (sy_addr y) @ ''                '' @ sy_name y @ '' = .'' @ newline"

definition show_section :: "map_section \<Rightarrow> string" where
  "show_section sec =
     ms_name sec @ '' '' @ show_hex (ms_addr sec) @ '' '' @ show_hex (ms_size sec) @ newline @
     concat (map show_symbol (ms_symbols sec))"

definition show_map :: "map_section list \<Rightarrow> string" where
  "show_map secs = concat (map show_section secs)"

definition name_ok :: "string \<Rightarrow> bool" where
  "name_ok n \<longleftrightarrow> n \<noteq> [] \<and> list_all is_word n"

definition section_ok :: "map_section \<Rightarrow> bool" where
  "section_ok sec \<longleftrightarrow> name_ok (ms_name sec) \<and> list_all (\<lambda>y. name_ok (sy_name y)) (ms_symbols sec)"

section \<open>Hexadecimal numbers\<close>

lemma hex_char_ok: "d < 16 \<Longrightarrow> is_hex (hex_char d) \<and> hex_value (hex_char d) = d"
proof -
  have "list_all (\<lambda>d. is_hex (hex_char d) \<and> hex_value (hex_char d) = d) [0..<16]" by code_simp
  then have "\<forall>d \<in> {0..<16}. is_hex (hex_char d) \<and> hex_value (hex_char d) = d"
    by (simp only: list_all_iff set_upt)
  then show "d < 16 \<Longrightarrow> is_hex (hex_char d) \<and> hex_value (hex_char d) = d" by simp
qed

lemma hex_digits_ok: "hex_digits n \<noteq> [] \<and> list_all is_hex (hex_digits n) \<and>
    foldl (\<lambda>a c. 16 * a + hex_value c) 0 (hex_digits n) = n"
proof (induction n rule: hex_digits.induct)
  case (1 n)
  show ?case
  proof (cases "n < 16")
    case True
    then show ?thesis using hex_char_ok by (simp add: hex_digits.simps [of n])
  next
    case False
    then show ?thesis using 1 hex_char_ok [of "n mod 16"] by (simp add: hex_digits.simps [of n])
  qed
qed

lemma stoul16_show: "stoul16 (show_hex a) = Inr a"
  using hex_digits_ok [of "unat a"] u64_unat_lt [of a] by (simp add: stoul16_def show_hex_def)

lemma span_append:
  assumes "list_all P xs" and "ys = [] \<or> \<not> P (hd ys)"
  shows "takeWhile P (xs @ ys) = xs" and "dropWhile P (xs @ ys) = ys"
  using assms by (induction xs) (cases ys; simp)+

lemma scan_show_hex:
  assumes "r = [] \<or> \<not> is_hex (hd r)"
  shows "scan_hex (show_hex a @ r) = Some (show_hex a, r)"
  using span_append [of is_hex "hex_digits (unat a)" r] assms hex_digits_ok [of "unat a"]
  by (simp add: scan_hex_def show_hex_def)

lemma show_hex_head: "show_hex a \<noteq> []" "hd (show_hex a @ r) = CHR ''0''"
  by (simp_all add: show_hex_def)

lemma no_words [simp]: "\<not> is_word CHR '' ''" "\<not> is_word CHR 0x0A" "is_word CHR ''0''"
    "\<not> is_hex CHR '' ''" "\<not> is_hex CHR 0x0A"
  by (simp_all add: is_word_def rx_digit_def is_hex_def)


section \<open>Scanning printed lines\<close>

abbreviation indent :: string where
  "indent \<equiv> ''                ''"

lemma name_span:
  assumes "name_ok n" and "r = [] \<or> \<not> is_word (hd r)"
  shows "takeWhile is_word (n @ r) = n" and "dropWhile is_word (n @ r) = r"
  using span_append [of is_word n r] assms by (simp_all add: name_ok_def)

lemma scan_section_line:
  assumes "name_ok n"
  shows "scan_section (n @ '' '' @ show_hex a @ '' '' @ show_hex z @ newline @ r) =
    Some ([n, show_hex a, show_hex z], newline @ r)"
proof -
  have gap: "dropWhile non_word ('' '' @ show_hex b @ t) = show_hex b @ t"
    "takeWhile non_word ('' '' @ show_hex b @ t) \<noteq> []" for b t
    by (simp_all add: show_hex_def)
  have n: "n \<noteq> []" using assms by (simp add: name_ok_def)
  have sp: "takeWhile is_word (n @ '' '' @ t) = n" "dropWhile is_word (n @ '' '' @ t) = '' '' @ t" for t
    using name_span [OF assms, of "'' '' @ t"] by simp_all
  have hx: "scan_hex (show_hex b @ '' '' @ t) = Some (show_hex b, '' '' @ t)"
    "scan_hex (show_hex b @ newline @ t) = Some (show_hex b, newline @ t)" for b t
    by (rule scan_show_hex, simp)+
  show ?thesis unfolding scan_section_def Let_def sp gap hx using n gap(2) [of a] gap(2) [of z]
    by (simp del: append.simps add: gap(1) hx(2))
qed

lemma scan_symbol_line:
  assumes "name_ok n"
  shows "scan_symbol (newline @ indent @ show_hex a @ indent @ n @ '' = .'' @ newline @ r) =
    Some ([show_hex a, n], newline @ r)"
proof -
  have head: "is_word (hd n)" "n \<noteq> []" using assms by (auto simp: name_ok_def list_all_iff)
  then have nw: "dropWhile non_word (n @ t) = n @ t" for t by (cases n) auto
  have gap: "dropWhile non_word (newline @ indent @ show_hex a @ t) = show_hex a @ t"
    "dropWhile non_word (indent @ n @ t) = n @ t" "takeWhile non_word (indent @ n @ t) \<noteq> []" for t
    using nw [of t] by (simp_all add: show_hex_def)
  have sp: "takeWhile is_word (n @ '' = .'' @ t) = n" "dropWhile is_word (n @ '' = .'' @ t) = '' = .'' @ t" for t
    using name_span [OF assms, of "'' = .'' @ t"] by simp_all
  have hx: "scan_hex (show_hex a @ indent @ t) = Some (show_hex a, indent @ t)" for t
    by (rule scan_show_hex) simp
  show ?thesis unfolding scan_symbol_def Let_def gap hx option.case prod.case sp using head(2) gap(3)
    by simp
qed

lemma scan_section_newline: "scan_section (newline @ r) = None"
  by (simp add: scan_section_def)

lemma scan_symbol_newline: "scan_symbol newline = None"
  by (simp add: scan_symbol_def scan_hex_def)

text \<open>
  A header is no symbol, not even with a name like a number: behind the number that would be the
  symbol's name there is no equals sign.
\<close>

lemma scan_symbol_section:
  assumes "name_ok n"
  shows "scan_symbol (newline @ n @ '' '' @ show_hex a @ '' '' @ show_hex z @ r) = None"
proof (cases "scan_hex (n @ '' '' @ show_hex a @ '' '' @ show_hex z @ r)")
  let ?u = "show_hex a @ '' '' @ show_hex z @ r"
  have n: "list_all is_word n" "n \<noteq> []" using assms by (simp_all add: name_ok_def)
  have skip: "dropWhile non_word (newline @ n @ '' '' @ ?u) = n @ '' '' @ ?u"
    using n by (cases n) auto
  {
    case None
    then show ?thesis unfolding scan_symbol_def skip by simp
  next
    case (Some hr)
    obtain m where m: "n = ''0x'' @ m"
    proof (cases n)
      case (Cons c cs)
      with Some n show ?thesis
        by (cases cs) (auto simp: scan_hex_def numeral_2_eq_2 intro: that split: if_splits)
    qed (use n in simp)
    then have hr: "snd hr = dropWhile is_hex (m @ '' '' @ ?u)"
      using Some by (auto simp: scan_hex_def split: if_splits)
    have tail: "dropWhile is_hex (m @ '' '' @ ?u) = dropWhile is_hex m @ '' '' @ ?u"
      by (cases "dropWhile is_hex m = []") (simp_all add: dropWhile_append)
    show ?thesis
    proof (cases "dropWhile is_hex m")
      case Nil
      have w: "list_all is_word (show_hex a)"
      proof -
        have "list_all is_word ''0x''" by code_simp
        then show ?thesis using hex_digits_ok [of "unat a"] hex_is_word
          by (auto simp: show_hex_def list_all_iff)
      qed
      have "dropWhile non_word ('' '' @ ?u) = ?u" by (simp add: show_hex_def)
      moreover have "dropWhile is_word ?u = '' '' @ show_hex z @ r"
        using span_append(2) [OF w, of "'' '' @ show_hex z @ r"] by simp
      ultimately show ?thesis
        using Some hr tail Nil unfolding scan_symbol_def skip
        by (cases hr) (simp add: show_hex_def Let_def)
    next
      case (Cons c cs)
      then have "c \<in> set m" by (metis list.set_intros(1) set_dropWhileD)
      then have "is_word c" using n m by (auto simp: list_all_iff)
      with Some hr tail Cons show ?thesis unfolding scan_symbol_def skip
        by (cases hr) (simp add: Let_def)
    qed
  }
qed

section \<open>The window\<close>

abbreviation line_ok :: "string \<Rightarrow> bool" where
  "line_ok l \<equiv> CHR 0x0A \<notin> set l"

lemma find_first: "line_ok l \<Longrightarrow> find_from 0 (l @ newline @ t) = Some (length l)"
  by (induction l) auto

lemma find_second: "find_from (length l) (l @ t) = map_option ((+) (length l)) (find_from 0 t)"
  by (induction l) (auto simp: option.map_comp comp_def option.map_ident)

lemma find_second': "find_from (Suc (length l)) (l @ CHR 0x0A # t) =
    map_option ((+) (Suc (length l))) (find_from 0 t)"
  using find_second [of "l @ newline" t] by simp

lemma window_two:
  assumes "line_ok l" and "line_ok l2"
  shows "window (l @ newline @ l2 @ newline @ t) = l @ newline @ l2 @ newline"
  using find_first [OF assms(1), of "l2 @ newline @ t"] find_first [OF assms(2), of t]
  by (simp add: window_def find_second')

lemma find_none: "line_ok t \<Longrightarrow> find_from 0 t = None"
  by (induction t) auto

lemma window_prefix:
  assumes "line_ok l"
  shows "\<exists>t1 t2. t = t1 @ t2 \<and> window (l @ newline @ t) = l @ newline @ t1"
proof (cases "find_from 0 t")
  case None
  with find_first [OF assms, of t] show ?thesis
    by (intro exI [of _ t] exI [of _ "[]"]) (simp add: window_def find_second')
next
  case (Some e)
  with find_first [OF assms, of t] show ?thesis
    by (intro exI [of _ "take (Suc e) t"] exI [of _ "drop (Suc e) t"])
      (simp add: window_def find_second')
qed

lemma window_newline: "window newline = newline"
  by (simp add: window_def)


section \<open>Reading back a printed map\<close>

lemma step_section:
  assumes "rx_match rx_section (window s) = Some (groups, rest)"
  shows "map_loop s secs =
    rbind (stoul16 (groups ! 1)) (\<lambda>addr. rbind (stoul16 (groups ! 2)) (\<lambda>sz.
      map_loop (drop (length (window s) - length rest) s)
        (secs @ [\<lparr>ms_name = groups ! 0, ms_addr = addr, ms_size = sz, ms_symbols = []\<rparr>])))"
  using assms by (subst map_loop.simps) (simp add: Let_def)

lemma step_symbol:
  assumes "rx_match rx_section (window s) = None" and "rx_match rx_symbol (window s) = Some (groups, rest)"
  shows "map_loop s secs =
    rbind (stoul16 (groups ! 0)) (\<lambda>addr.
      map_loop (drop (length (window s) - length rest) s)
        (push_symbol \<lparr>sy_name = groups ! 1, sy_addr = addr\<rparr> secs))"
  using assms by (subst map_loop.simps) (simp add: Let_def)

lemma step_garbage:
  assumes "rx_match rx_section (window s) = None" and "rx_match rx_symbol (window s) = None"
  shows "map_loop s secs =
    (case find_from 0 s of Some pos \<Rightarrow> map_loop (drop (pos + 1) s) secs | None \<Rightarrow> Inr secs)"
  using assms by (subst map_loop.simps) (simp add: Let_def)

lemma words_no_newline: "list_all is_word n \<Longrightarrow> line_ok n"
  using no_words(2) by (auto simp: list_all_iff)

lemma show_hex_no_newline: "line_ok (show_hex a)"
  using hex_digits_ok [of "unat a"] no_words(5) by (auto simp: show_hex_def list_all_iff)

text \<open>The text left when the header of a section, or a symbol of it, has been read.\<close>

definition left :: "symbol list \<Rightarrow> map_section list \<Rightarrow> string" where
  "left ys secs = newline @ concat (map show_symbol ys) @ show_map secs"

lemma consumed: "w = m @ rest \<Longrightarrow> s = m @ r \<Longrightarrow> drop (length w - length rest) s = r"
  by simp

lemma read_symbol:
  assumes "name_ok (sy_name y)"
  shows "map_loop (left (y # ys) secs) S = map_loop (left ys secs) (push_symbol y S)"
proof -
  let ?line = "indent @ show_hex (sy_addr y) @ indent @ sy_name y @ '' = .''"
  let ?t = "concat (map show_symbol ys) @ show_map secs"
  let ?s = "left (y # ys) secs"
  have s: "?s = [] @ newline @ ?line @ newline @ ?t"
    by (simp add: left_def show_symbol_def)
  have "line_ok ?line" using assms words_no_newline show_hex_no_newline by (auto simp: name_ok_def)
  with window_two [of "[]" ?line ?t] s have w: "window ?s = newline @ ?line @ newline" by simp
  have sec: "rx_match rx_section (window ?s) = None"
    unfolding w regex_is_scan by (rule scan_section_newline)
  have y: "rx_match rx_symbol (window ?s) = Some ([show_hex (sy_addr y), sy_name y], newline @ [])"
    unfolding w regex_is_scan append_assoc using scan_symbol_line [OF assms, of "sy_addr y" "[]"] by simp
  have "drop (length (window ?s) - length (newline @ [])) ?s = left ys secs"
    by (rule consumed [of _ "newline @ ?line"]) (simp add: w, simp add: s, simp add: left_def)
  then show ?thesis unfolding step_symbol [OF sec y] by (cases y) (simp add: stoul16_show)
qed

lemma read_header:
  assumes "section_ok sec"
  shows "map_loop (show_section sec @ show_map secs) S =
    map_loop (left (ms_symbols sec) secs) (S @ [sec\<lparr>ms_symbols := []\<rparr>])"
proof -
  let ?line = "ms_name sec @ '' '' @ show_hex (ms_addr sec) @ '' '' @ show_hex (ms_size sec)"
  let ?t = "concat (map show_symbol (ms_symbols sec)) @ show_map secs"
  let ?s = "show_section sec @ show_map secs"
  have n: "name_ok (ms_name sec)" using assms by (simp add: section_ok_def)
  have s: "?s = ?line @ newline @ ?t" by (simp add: show_section_def)
  have "line_ok ?line" using n words_no_newline show_hex_no_newline by (auto simp: name_ok_def)
  from window_prefix [OF this, of ?t] s obtain t1 t2 where
    t: "?t = t1 @ t2" and w: "window ?s = ?line @ newline @ t1" by auto
  have y: "rx_match rx_section (window ?s) =
      Some ([ms_name sec, show_hex (ms_addr sec), show_hex (ms_size sec)], newline @ t1)"
    unfolding w regex_is_scan append_assoc using scan_section_line [OF n] by simp
  have "drop (length (window ?s) - length (newline @ t1)) ?s = left (ms_symbols sec) secs"
    by (rule consumed [of _ ?line]) (simp add: w, simp add: s left_def)
  then show ?thesis unfolding step_section [OF y] by (cases sec) (simp add: stoul16_show)
qed

lemma read_next_header:
  assumes "section_ok sec"
  shows "map_loop (left [] (sec # secs)) S = map_loop (show_section sec @ show_map secs) S"
proof -
  let ?line = "ms_name sec @ '' '' @ show_hex (ms_addr sec) @ '' '' @ show_hex (ms_size sec)"
  let ?t = "concat (map show_symbol (ms_symbols sec)) @ show_map secs"
  let ?s = "left [] (sec # secs)"
  have n: "name_ok (ms_name sec)" using assms by (simp add: section_ok_def)
  have s: "?s = [] @ newline @ ?line @ newline @ ?t"
    by (simp add: left_def show_map_def show_section_def)
  have "line_ok ?line" using n words_no_newline show_hex_no_newline by (auto simp: name_ok_def)
  with window_two [of "[]" ?line ?t] s have w: "window ?s = newline @ ?line @ newline" by simp
  have none: "rx_match rx_section (window ?s) = None" "rx_match rx_symbol (window ?s) = None"
    unfolding w regex_is_scan append_assoc
    by (rule scan_section_newline) (rule scan_symbol_section [OF n])
  have "find_from 0 ?s = Some 0" by (simp add: left_def)
  then show ?thesis by (simp add: step_garbage [OF none]) (simp add: left_def show_map_def)
qed

lemma read_end: "map_loop (left [] []) S = Inr S"
proof -
  have s: "left [] [] = newline" by (simp add: left_def show_map_def)
  have none: "rx_match rx_section (window newline) = None" "rx_match rx_symbol (window newline) = None"
    unfolding window_newline regex_is_scan using scan_section_newline [of "[]"] scan_symbol_newline
    by simp_all
  have empty: "rx_match rx_section (window []) = None" "rx_match rx_symbol (window []) = None"
    by (simp_all add: window_def regex_is_scan scan_section_def scan_symbol_def scan_hex_def)
  show ?thesis unfolding s by (simp add: step_garbage [OF none] step_garbage [OF empty])
qed

lemma read_symbols:
  assumes "list_all (\<lambda>y. name_ok (sy_name y)) ys"
  shows "map_loop (left ys secs) (S @ [sec\<lparr>ms_symbols := zs\<rparr>]) =
    map_loop (left [] secs) (S @ [sec\<lparr>ms_symbols := zs @ ys\<rparr>])"
  using assms
proof (induction ys arbitrary: zs)
  case (Cons y ys)
  then show ?case using Cons.IH [of "zs @ [y]"] by (simp add: read_symbol push_symbol_def)
qed simp

lemma read_sections:
  assumes "list_all section_ok (sec # secs)"
  shows "map_loop (show_map (sec # secs)) S = Inr (S @ sec # secs)"
  using assms
proof (induction secs arbitrary: sec S)
  case Nil
  then have "section_ok sec" by simp
  from read_header [OF this, of "[]" S] show ?case
    using read_symbols [where ys = "ms_symbols sec" and secs = "[]" and S = S and sec = sec and zs = "[]"] Nil
    by (simp add: show_map_def section_ok_def read_end)
next
  case (Cons sec2 secs)
  then have "section_ok sec" "section_ok sec2" by simp_all
  from read_header [OF this(1), of "sec2 # secs" S] read_next_header [OF this(2), of secs] show ?case
    using read_symbols [where ys = "ms_symbols sec" and secs = "sec2 # secs" and S = S and sec = sec
      and zs = "[]"] Cons
    by (simp add: show_map_def section_ok_def)
qed


lemma map_file_roundtrip_aux:
  assumes "list_all section_ok secs"
  shows "map_parse (show_map secs) = Inr secs"
proof (cases secs)
  case Nil
  have "map_loop [] [] = Inr []"
    by (subst map_loop.simps)
      (simp add: window_def regex_is_scan scan_section_def scan_symbol_def scan_hex_def)
  with Nil show ?thesis by (simp add: map_parse_def show_map_def)
next
  case (Cons sec rest)
  with assms read_sections [of sec rest "[]"] show ?thesis by (simp add: map_parse_def)
qed

section \<open>Properties\<close>

text \<open>
  C24. The expressions of the parser. Under the backtracking semantics of the regular expressions,
  searching for a section header or for a symbol gives on every text what a scanner gives that
  takes the longest run of characters at each repetition and never goes back.
\<close>

theorem regex_needs_no_backtracking:
  "rx_match rx_section s = scan_section s \<and> rx_match rx_symbol s = scan_symbol s"
  using regex_is_scan by simp

text \<open>
  C25. Reading a map file. When every section and symbol has a name of word characters, parsing
  the printed map gives back the sections with their addresses and sizes, each with its symbols,
  in order.
\<close>

theorem map_file_roundtrip:
  assumes "list_all section_ok secs"
  shows "map_parse (show_map secs) = Inr secs"
  by (rule map_file_roundtrip_aux [OF assms])

definition two_sections :: "map_section list" where
  "two_sections =
     [\<lparr>ms_name = ''datas'', ms_addr = 0x8049000, ms_size = 0x40,
        ms_symbols = [\<lparr>sy_name = ''__data_start'', sy_addr = 0x8049000\<rparr>,
          \<lparr>sy_name = ''__data_end'', sy_addr = 0x8049040\<rparr>]\<rparr>,
      \<lparr>ms_name = ''initlevel'', ms_addr = 0x8049040, ms_size = 0x30,
        ms_symbols = [\<lparr>sy_name = ''__init_start'', sy_addr = 0x8049040\<rparr>,
          \<lparr>sy_name = ''__init_end'', sy_addr = 0x8049070\<rparr>,
          \<lparr>sy_name = ''__device_end'', sy_addr = 0x8049080\<rparr>]\<rparr>]"

lemma two_sections_ok: "list_all section_ok two_sections"
  by code_simp

theorem map_file_roundtrip_witness: "map_parse (show_map two_sections) = Inr two_sections"
  by (rule map_file_roundtrip [OF two_sections_ok])

end
