(* ===== verification/BlobExtract.thy ===== *)
theory BlobExtract
  imports LinkerMap Sections
begin

text \<open>
  The extraction of an ELF file's sections as blobs (\<open>extract-blob/extract-blob.cc\<close>): the sections
  that hold the symbols of interest become constant byte arrays of a module, and each symbol
  becomes a global variable that points into one of them.

  The ELF library and the file system are inputs: the sections of the ELF file, in file order and
  without the null section, as \<open>elf_nextscn\<close> walks them, and the content of the map file. The order in which
  an \<open>unordered_set\<close> is walked is the argument \<open>ord\<close>.
\<close>

section \<open>ELF sections\<close>

text \<open>The data of a section comes in chunks; a chunk without a buffer is \<open>None\<close>.\<close>

record elf_scn =
  sh_name :: string
  sh_type :: nat
  sh_addr :: u64
  sh_size :: u64
  scn_data :: "u8 list option list"

fun ee_get_section :: "elf_scn list \<Rightarrow> string option \<Rightarrow> nat \<Rightarrow> 32 word \<Rightarrow> elf_scn option" where
  "ee_get_section [] section_name type addr = None"
| "ee_get_section (scn # scns) section_name type addr =
     (if section_name = Some (sh_name scn) then Some scn
      else if sh_type scn = type then Some scn
      else if addr \<noteq> 0 \<and> ucast addr \<ge> sh_addr scn \<and>
        ucast addr < sh_addr scn + sh_size scn then Some scn
      else ee_get_section scns section_name type addr)"

definition section_to_llvm_data :: "elf_scn list \<Rightarrow> string \<Rightarrow> u8 list" where
  "section_to_llvm_data ee section =
     (case ee_get_section ee (Some section) 0 0 of
        None \<Rightarrow> []
      | Some scn \<Rightarrow> concat (map (\<lambda>d. case d of None \<Rightarrow> [] | Some bs \<Rightarrow> bs) (scn_data scn)))"

section \<open>The module of blobs\<close>

text \<open>
  \<open>BGep\<close>: the base variable, the size of the array type the address computation is in, and its
  two indices.
\<close>

datatype blob_init = BNone | BData "u8 list" | BGep string u64 u64 u64

record blob_gv =
  bg_name :: string
  bg_init :: blob_init
  bg_dso_local :: bool
  bg_constant :: bool

type_synonym blob_module = "blob_gv list"

text \<open>The size of a variable's type if it is an array of bytes; the others are pointers.\<close>

definition bytes_of_blob :: "blob_gv \<Rightarrow> nat option" where
  "bytes_of_blob g = (case bg_init g of BData bs \<Rightarrow> Some (length bs) | _ \<Rightarrow> None)"

definition bm_find :: "blob_module \<Rightarrow> string \<Rightarrow> blob_gv option" where
  "bm_find M n = find (\<lambda>g. bg_name g = n) M"

fun bm_update :: "string \<Rightarrow> (blob_gv \<Rightarrow> blob_gv) \<Rightarrow> blob_module \<Rightarrow> blob_module" where
  "bm_update n f [] = []"
| "bm_update n f (g # gs) = (if bg_name g = n then f g # gs else g # bm_update n f gs)"

definition getOrInsertGlobal :: "string \<Rightarrow> blob_module \<Rightarrow> blob_module" where
  "getOrInsertGlobal n M =
     (if bm_find M n = None
      then M @ [\<lparr>bg_name = n, bg_init = BNone, bg_dso_local = False, bg_constant = False\<rparr>]
      else M)"

section \<open>Extraction\<close>

definition external_symbols :: "string list" where
  "external_symbols =
     [''__native_PRE_BOOT_1_tasks_start'', ''__native_PRE_BOOT_2_tasks_start'',
      ''__native_PRE_BOOT_3_tasks_start'', ''__native_FIRST_SLEEP_tasks_start'',
      ''__native_ON_EXIT_tasks_start'', ''__native_tasks_end'', ''__bss_start'', ''__bss_end'',
      ''__init_PRE_KERNEL_1_start'', ''__init_PRE_KERNEL_2_start'', ''__init_POST_KERNEL_start'',
      ''__init_APPLICATION_start'', ''__init_end'', ''__deferred_init_list_start'',
      ''__deferred_init_list_end'', ''__init_EARLY_start'', ''__static_thread_data_list_start'',
      ''__static_thread_data_list_end'', ''_device_list_start'', ''_device_list_end'',
      ''__device_init_status_start'', ''__device_start'', ''__device_end'']"

text \<open>The last place a text is found at.\<close>

fun rfind :: "string \<Rightarrow> string \<Rightarrow> nat option" where
  "rfind [] p = (if p = [] then Some 0 else None)"
| "rfind (c # cs) p =
     (case rfind cs p of
        Some i \<Rightarrow> Some (Suc i)
      | None \<Rightarrow> if take (length p) (c # cs) = p then Some 0 else None)"

definition map_filename :: "string \<Rightarrow> string option" where
  "map_filename InputFilename =
     map_option (\<lambda>found. take found InputFilename @ ''.map'') (rfind InputFilename ''.elf'')"

fun symbol_sections :: "map_section list \<Rightarrow> string list \<Rightarrow> string list" where
  "symbol_sections scns [] = []"
| "symbol_sections scns (y # ys) =
     (case map_get_section_of_symbol scns y of
        Some (scn, off) \<Rightarrow> if ms_name scn \<noteq> [] then List.insert (ms_name scn) (symbol_sections scns ys)
                         else symbol_sections scns ys
      | None \<Rightarrow> symbol_sections scns ys)"

fun place_blobs ::
    "(blob_module \<Rightarrow> string \<Rightarrow> string) \<Rightarrow> elf_scn list \<Rightarrow> string list \<Rightarrow> blob_module \<Rightarrow> blob_module" where
  "place_blobs uniq ee [] M = M"
| "place_blobs uniq ee (section # sections) M =
     place_blobs uniq ee sections
       (M @ [\<lparr>bg_name = uniq M section, bg_init = BData (section_to_llvm_data ee section),
              bg_dso_local = True, bg_constant = True\<rparr>])"

text \<open>
  \<open>getInBoundsGetElementPtr\<close> asserts that the variable it starts from has the type of the addressed array,
  here as many bytes as the map file gives the section, and \<open>setInitializer\<close> that the symbol is a
  pointer, not one of the arrays.
\<close>

definition place_symbol :: "map_section list \<Rightarrow> string \<Rightarrow> blob_module \<Rightarrow> blob_module res" where
  "place_symbol scns y M =
     (case map_get_section_of_symbol scns y of
        None \<Rightarrow> Inr M
      | Some (scn, off) \<Rightarrow>
          if off > ms_size scn then Inr M
          else
            let (o0, o1) = (if off = ms_size scn then (1, 0) else (0, off))
            in case bm_find M (ms_name scn) of
                 None \<Rightarrow> Inr M
               | Some base \<Rightarrow>
                   if bytes_of_blob base \<noteq> Some (unat (ms_size scn)) then Inl AssertFail
                   else
                     let M1 = getOrInsertGlobal y M in
                     if map_option bytes_of_blob (bm_find M1 y) \<noteq> Some None then Inl AssertFail
                     else Inr (bm_update y
                       (\<lambda>g. g\<lparr>bg_init := BGep (ms_name scn) (ms_size scn) o0 o1, bg_dso_local := True\<rparr>) M1))"

fun place_symbols :: "map_section list \<Rightarrow> string list \<Rightarrow> blob_module \<Rightarrow> blob_module res" where
  "place_symbols scns [] M = Inr M"
| "place_symbols scns (y # ys) M = rbind (place_symbol scns y M) (place_symbols scns ys)"

definition extract_blob ::
    "(string list \<Rightarrow> string list) \<Rightarrow> (blob_module \<Rightarrow> string \<Rightarrow> string) \<Rightarrow> (string \<Rightarrow> string) \<Rightarrow>
     elf_scn list \<Rightarrow> string \<Rightarrow> blob_module \<Rightarrow> (bool \<times> blob_module) res" where
  "extract_blob ord uniq getFileContent ee InputFilename M =
     (case map_filename InputFilename of
        None \<Rightarrow> Inr (False, M)
      | Some f \<Rightarrow>
          rbind (map_parse (getFileContent f)) (\<lambda>map_sections.
            let sections = ord (symbol_sections map_sections external_symbols);
                M1 = place_blobs uniq ee sections M
            in rbind (place_symbols map_sections external_symbols M1) (\<lambda>M'. Inr (True, M'))))"

text \<open>
  What \<open>main\<close> does instead: it links the parsed file into the module and collects the linker
  script sections there. A file that does not parse gives a null pointer.
\<close>

definition collectSections ::
    "(lmod \<Rightarrow> string \<Rightarrow> string) \<Rightarrow> (lmod \<Rightarrow> lmod \<Rightarrow> lmod) \<Rightarrow> (string \<Rightarrow> lmod option) \<Rightarrow> lmod \<Rightarrow> string \<Rightarrow>
     lmod res" where
  "collectSections uniq linkModules parseIRFile M InputFilename =
     (case parseIRFile InputFilename of
        None \<Rightarrow> Inl NullDeref
      | Some InputModule \<Rightarrow> collectLinkerScriptSections uniq (linkModules M InputModule))"

text \<open>
  \<open>main\<close>: the exit code, and what is printed to which file. The target's data layout is looked up by its name and
  its failure ignored; \<open>can_create\<close> says which files can be created.
\<close>

definition setDataLayout :: "(string \<Rightarrow> (lmod \<Rightarrow> lmod) option) \<Rightarrow> lmod \<Rightarrow> string \<Rightarrow> bool \<times> lmod" where
  "setDataLayout lookupTarget M arch =
     (case lookupTarget arch of None \<Rightarrow> (False, M) | Some dataLayout \<Rightarrow> (True, dataLayout M))"

definition extract_main ::
    "(string \<Rightarrow> bool) \<Rightarrow> (string \<Rightarrow> (lmod \<Rightarrow> lmod) option) \<Rightarrow> (lmod \<Rightarrow> string \<Rightarrow> string) \<Rightarrow>
     (lmod \<Rightarrow> lmod \<Rightarrow> lmod) \<Rightarrow> (string \<Rightarrow> lmod option) \<Rightarrow> string \<Rightarrow> string \<Rightarrow> string \<Rightarrow>
     (int \<times> (string \<times> lmod) list) res" where
  "extract_main can_create lookupTarget uniq linkModules parseIRFile InputFilename OutputFilename Arch =
     (if OutputFilename \<noteq> ''-'' \<and> \<not> can_create OutputFilename then Inr (-1, [])
      else
        let M = snd (setDataLayout lookupTarget \<lparr>m_globals = [], m_aliases = []\<rparr> Arch) in
        rbind (collectSections uniq linkModules parseIRFile M InputFilename) (\<lambda>M'.
          Inr (0, [(OutputFilename, M')])))"

section \<open>Facts\<close>

lemma bm_find_update:
  assumes "\<And>g. bg_name (f g) = bg_name g"
  shows "bm_find (bm_update n f M) m = (if m = n then map_option f (bm_find M n) else bm_find M m)"
  by (induction M) (auto simp: bm_find_def assms)

lemma bm_find_append: "bm_find (M @ [g]) n =
    (case bm_find M n of Some h \<Rightarrow> Some h | None \<Rightarrow> if bg_name g = n then Some g else None)"
  by (induction M) (auto simp: bm_find_def)

lemma bm_find_insert_global: "n \<noteq> y \<Longrightarrow> bm_find (getOrInsertGlobal y M) n = bm_find M n"
  "\<exists>g. bm_find (getOrInsertGlobal y M) y = Some g"
  by (auto simp: getOrInsertGlobal_def bm_find_append split: option.split)

lemma place_symbol_other:
  "place_symbol scns y M = Inr M' \<Longrightarrow> n \<noteq> y \<Longrightarrow> bm_find M' n = bm_find M n"
  by (auto simp: place_symbol_def Let_def bm_find_update bm_find_insert_global split: option.splits if_splits)

lemma bm_find_inserted: "bm_find M y = None \<Longrightarrow>
   bm_find (getOrInsertGlobal y M) y =
     Some \<lparr>bg_name = y, bg_init = BNone, bg_dso_local = False, bg_constant = False\<rparr>"
  by (simp add: getOrInsertGlobal_def bm_find_append)

lemma place_symbol_hit:
  assumes "map_get_section_of_symbol scns y = Some (scn, off)" and "off \<le> ms_size scn"
    and "bm_find M (ms_name scn) = Some b" and "bytes_of_blob b = Some (unat (ms_size scn))" and "bm_find M y = None"
  shows "\<exists>M' g. place_symbol scns y M = Inr M' \<and> bm_find M' y = Some g \<and> bg_dso_local g \<and>
    bg_init g = (if off = ms_size scn then BGep (ms_name scn) (ms_size scn) 1 0
                 else BGep (ms_name scn) (ms_size scn) 0 off)"
  using assms bm_find_inserted [OF assms(5)]
  by (auto simp: place_symbol_def Let_def bm_find_update bytes_of_blob_def)

lemma place_symbol_miss:
  assumes "case map_get_section_of_symbol scns y of
      None \<Rightarrow> True | Some (scn, off) \<Rightarrow> off > ms_size scn \<or> bm_find M (ms_name scn) = None"
  shows "place_symbol scns y M = Inr M"
  using assms by (auto simp: place_symbol_def Let_def split: option.splits)

lemma place_symbol_mismatch:
  assumes "map_get_section_of_symbol scns y = Some (scn, off)" and "off \<le> ms_size scn"
    and "bm_find M (ms_name scn) = Some b" and "bytes_of_blob b \<noteq> Some (unat (ms_size scn))"
  shows "place_symbol scns y M = Inl AssertFail"
  using assms by (simp add: place_symbol_def Let_def)

lemma symbol_sections_set: "set (symbol_sections scns ys) =
    {ms_name scn |y scn off. y \<in> set ys \<and> map_get_section_of_symbol scns y = Some (scn, off) \<and>
       ms_name scn \<noteq> []}"
  by (induction ys) (auto split: option.split)

lemma symbol_sections_distinct: "distinct (symbol_sections scns ys)"
  by (induction ys) (auto split: option.split)

lemma place_blobs_find:
  assumes "\<forall>M n. n \<notin> bg_name ` set M \<longrightarrow> uniq M n = n" and "distinct sections"
    and "\<forall>n \<in> set sections. n \<notin> bg_name ` set M"
  shows "bm_find (place_blobs uniq ee sections M) n =
    (if n \<in> set sections
     then Some \<lparr>bg_name = n, bg_init = BData (section_to_llvm_data ee n), bg_dso_local = True,
                bg_constant = True\<rparr>
     else bm_find M n)"
  using assms(2,3)
proof (induction sections arbitrary: M)
  case (Cons nm sections)
  let ?g = "\<lparr>bg_name = nm, bg_init = BData (section_to_llvm_data ee nm),
    bg_dso_local = True, bg_constant = True\<rparr>"
  have u: "uniq M nm = nm" using assms(1) Cons.prems(2) by simp
  have "bm_find M nm = None" using Cons.prems(2) by (auto simp: bm_find_def find_None_iff)
  moreover have "bm_find (place_blobs uniq ee sections (M @ [?g])) n =
      (if n \<in> set sections
       then Some \<lparr>bg_name = n, bg_init = BData (section_to_llvm_data ee n), bg_dso_local = True,
                bg_constant = True\<rparr>
       else bm_find (M @ [?g]) n)"
    using Cons.prems by (intro Cons.IH) auto
  ultimately show ?case using Cons.prems(1)
    by (auto simp: u bm_find_append split: option.split)
qed simp

lemma external_symbols_distinct: "distinct external_symbols"
  by code_simp

section \<open>Properties\<close>

text \<open>
  Whether the section the map puts a symbol into has as many bytes in the ELF file as the map says, and what a
  symbol is after the extraction: a pointer to its place among the bytes of its section.
\<close>

definition symbol_fits :: "elf_scn list \<Rightarrow> map_section list \<Rightarrow> string \<Rightarrow> bool" where
  "symbol_fits ee scns y \<longleftrightarrow>
     (case map_get_section_of_symbol scns y of
        None \<Rightarrow> True
      | Some (scn, off) \<Rightarrow> off > ms_size scn \<or> ms_name scn = [] \<or>
          length (section_to_llvm_data ee (ms_name scn)) = unat (ms_size scn))"

definition symbol_placed :: "elf_scn list \<Rightarrow> map_section list \<Rightarrow> blob_module \<Rightarrow> string \<Rightarrow> bool" where
  "symbol_placed ee scns M y \<longleftrightarrow>
     (case map_get_section_of_symbol scns y of
        None \<Rightarrow> bm_find M y = None
      | Some (scn, off) \<Rightarrow>
          if off > ms_size scn \<or> ms_name scn = [] then bm_find M y = None
          else \<exists>g b bs o0 o1. bm_find M (ms_name scn) = Some b \<and> bg_constant b \<and> bg_init b = BData bs \<and>
            bs = section_to_llvm_data ee (ms_name scn) \<and> bm_find M y = Some g \<and>
            bg_init g = BGep (ms_name scn) (word_of_nat (length bs)) o0 o1 \<and>
            unat o0 * length bs + unat o1 = unat off \<and> unat off \<le> length bs)"

lemma symbol_placed_cong:
  "bm_find M' y = bm_find M y \<Longrightarrow>
   (\<And>scn off. map_get_section_of_symbol scns y = Some (scn, off) \<Longrightarrow> bm_find M' (ms_name scn) = bm_find M (ms_name scn)) \<Longrightarrow>
   symbol_placed ee scns M' y = symbol_placed ee scns M y"
  by (auto simp: symbol_placed_def split: option.split)

text \<open>One symbol, in a module that has the blobs.\<close>

lemma place_symbol_cases:
  assumes "\<And>scn off. map_get_section_of_symbol scns y = Some (scn, off) \<Longrightarrow>
      ms_name scn \<noteq> y \<and> bm_find M (ms_name scn) =
        (if ms_name scn = [] then None
         else Some \<lparr>bg_name = ms_name scn, bg_init = BData (section_to_llvm_data ee (ms_name scn)),
                    bg_dso_local = True, bg_constant = True\<rparr>)"
    and "bm_find M y = None"
  shows "if symbol_fits ee scns y then \<exists>M'. place_symbol scns y M = Inr M' \<and> symbol_placed ee scns M' y
    else place_symbol scns y M = Inl AssertFail"
proof (cases "map_get_section_of_symbol scns y")
  case None
  then show ?thesis using place_symbol_miss [where scns = scns and y = y and M = M] assms(2) by (simp add: symbol_fits_def symbol_placed_def)
next
  case (Some x)
  then obtain scn off where y: "map_get_section_of_symbol scns y = Some (scn, off)" by (cases x) auto
  let ?bs = "section_to_llvm_data ee (ms_name scn)"
  show ?thesis
  proof (cases "off > ms_size scn \<or> ms_name scn = []")
    case True
    then show ?thesis using place_symbol_miss [where scns = scns and y = y and M = M] assms y
      by (auto simp: symbol_fits_def symbol_placed_def)
  next
    case False
    then obtain b where b: "bm_find M (ms_name scn) = Some b" "bytes_of_blob b = Some (length ?bs)"
      "bg_constant b" "bg_init b = BData ?bs"
      using assms(1) [OF y] by (auto simp: bytes_of_blob_def)
    have le: "off \<le> ms_size scn" using False by (simp add: not_less)
    show ?thesis
    proof (cases "length ?bs = unat (ms_size scn)")
      case True
      with place_symbol_hit [OF y le b(1) _ assms(2)] b(2) obtain M' g where
        M': "place_symbol scns y M = Inr M'" "bm_find M' y = Some g"
        "bg_init g = (if off = ms_size scn then BGep (ms_name scn) (ms_size scn) 1 0
                 else BGep (ms_name scn) (ms_size scn) 0 off)" by auto
      have "bm_find M' (ms_name scn) = Some b"
        using place_symbol_other [OF M'(1)] assms(1) [OF y] b(1) by simp
      then have "symbol_placed ee scns M' y"
        using M' b True False le y
        by (cases "off = ms_size scn") (auto simp: symbol_placed_def word_le_nat_alt)
      with M'(1) True False y show ?thesis by (auto simp: symbol_fits_def)
    next
      case no: False
      with place_symbol_mismatch [OF y le b(1)] b(2) False y show ?thesis by (simp add: symbol_fits_def)
    qed
  qed
qed

lemma place_symbols_cases:
  assumes "\<And>y scn off. y \<in> set ys \<Longrightarrow> map_get_section_of_symbol scns y = Some (scn, off) \<Longrightarrow>
      ms_name scn \<notin> set ys \<and> bm_find M (ms_name scn) =
        (if ms_name scn = [] then None
         else Some \<lparr>bg_name = ms_name scn, bg_init = BData (section_to_llvm_data ee (ms_name scn)),
                    bg_dso_local = True, bg_constant = True\<rparr>)"
    and "\<forall>y \<in> set ys. bm_find M y = None" and "distinct ys"
  shows "if \<forall>y \<in> set ys. symbol_fits ee scns y
    then \<exists>M'. place_symbols scns ys M = Inr M' \<and> (\<forall>n. n \<notin> set ys \<longrightarrow> bm_find M' n = bm_find M n) \<and>
      (\<forall>y \<in> set ys. symbol_placed ee scns M' y)
    else place_symbols scns ys M = Inl AssertFail"
  using assms
proof (induction ys arbitrary: M)
  case (Cons y ys)
  have one: "if symbol_fits ee scns y then \<exists>M'. place_symbol scns y M = Inr M' \<and> symbol_placed ee scns M' y
    else place_symbol scns y M = Inl AssertFail"
    by (rule place_symbol_cases) (use Cons.prems in force)+
  show ?case
  proof (cases "symbol_fits ee scns y")
    case True
    with one obtain M1 where M1: "place_symbol scns y M = Inr M1" "symbol_placed ee scns M1 y" by auto
    note other = place_symbol_other [OF M1(1)]
    have "if \<forall>y \<in> set ys. symbol_fits ee scns y
      then \<exists>M'. place_symbols scns ys M1 = Inr M' \<and> (\<forall>n. n \<notin> set ys \<longrightarrow> bm_find M' n = bm_find M1 n) \<and>
        (\<forall>y \<in> set ys. symbol_placed ee scns M' y)
      else place_symbols scns ys M1 = Inl AssertFail"
    proof (rule Cons.IH)
      show "ms_name scn \<notin> set ys \<and> bm_find M1 (ms_name scn) =
        (if ms_name scn = [] then None
         else Some \<lparr>bg_name = ms_name scn, bg_init = BData (section_to_llvm_data ee (ms_name scn)),
                    bg_dso_local = True, bg_constant = True\<rparr>)"
        if "z \<in> set ys" "map_get_section_of_symbol scns z = Some (scn, off)" for z scn off
        using Cons.prems(1) [of z scn off] that other [of "ms_name scn"] by simp
      show "\<forall>z \<in> set ys. bm_find M1 z = None"
      proof
        fix z
        assume "z \<in> set ys"
        then show "bm_find M1 z = None" using Cons.prems(2,3) other [of z] by auto
      qed
    qed (use Cons.prems(3) in simp)
    moreover have "symbol_placed ee scns M' y"
      if "\<forall>n. n \<notin> set ys \<longrightarrow> bm_find M' n = bm_find M1 n" for M'
      using M1(2) that Cons.prems(1) [of y] Cons.prems(3) symbol_placed_cong [of M' y M1 scns ee] by auto
    ultimately show ?thesis using M1(1) True other by auto
  qed (use one in simp)
qed simp

text \<open>
  C26. The extracted blobs. From an empty module, when no section has the name of a symbol: if every section that
  holds a symbol of interest has exactly as many bytes in the ELF file as the map file says, the
  extraction succeeds, and each symbol that the map puts into a named section, not behind its end,
  is a pointer into the constant with the bytes of the ELF section of that name, at exactly
  its distance from the section's start, within the bytes or one past them; a
  symbol that the map does not have, or puts outside its section, is not in the module. If one
  section has another number of bytes, as one without contents in the file has, or one that
  the file does not have, LLVM's assertion ends the program.
\<close>

theorem blob_symbols_point_into_sections:
  assumes "map_filename file = Some f" and "map_parse (content f) = Inr scns"
    and "\<forall>xs. set (ord xs) = set xs \<and> (distinct xs \<longrightarrow> distinct (ord xs))"
    and "\<forall>M n. n \<notin> bg_name ` set M \<longrightarrow> uniq M n = n"
    and "\<forall>y scn off. map_get_section_of_symbol scns y = Some (scn, off) \<longrightarrow>
      ms_name scn \<notin> set external_symbols"
  shows "if \<forall>y \<in> set external_symbols. symbol_fits ee scns y
    then \<exists>M'. extract_blob ord uniq content ee file [] = Inr (True, M') \<and>
      (\<forall>y \<in> set external_symbols. symbol_placed ee scns M' y)
    else extract_blob ord uniq content ee file [] = Inl AssertFail"
proof -
  let ?secs = "ord (symbol_sections scns external_symbols)"
  let ?M1 = "place_blobs uniq ee ?secs []"
  have d: "distinct ?secs" using assms(3) symbol_sections_distinct by blast
  have set: "set ?secs = set (symbol_sections scns external_symbols)" using assms(3) by blast
  have fresh: "\<forall>n \<in> set ?secs. n \<notin> bg_name ` set ([] :: blob_module)" by simp
  note blobs = place_blobs_find [OF assms(4) d fresh, where ee = ee, unfolded set symbol_sections_set]
  have none: "bm_find [] n = None" for n by (simp add: bm_find_def)
  have "if \<forall>y \<in> set external_symbols. symbol_fits ee scns y
    then \<exists>M'. place_symbols scns external_symbols ?M1 = Inr M' \<and>
      (\<forall>n. n \<notin> set external_symbols \<longrightarrow> bm_find M' n = bm_find ?M1 n) \<and>
      (\<forall>y \<in> set external_symbols. symbol_placed ee scns M' y)
    else place_symbols scns external_symbols ?M1 = Inl AssertFail"
  proof (rule place_symbols_cases)
    show "ms_name scn \<notin> set external_symbols \<and> bm_find ?M1 (ms_name scn) =
      (if ms_name scn = [] then None
       else Some \<lparr>bg_name = ms_name scn, bg_init = BData (section_to_llvm_data ee (ms_name scn)),
                  bg_dso_local = True, bg_constant = True\<rparr>)"
      if "y \<in> set external_symbols" "map_get_section_of_symbol scns y = Some (scn, off)" for y scn off
    proof
      show "ms_name scn \<notin> set external_symbols" using assms(5) that(2) by blast
      show "bm_find ?M1 (ms_name scn) =
        (if ms_name scn = [] then None
         else Some \<lparr>bg_name = ms_name scn, bg_init = BData (section_to_llvm_data ee (ms_name scn)),
                    bg_dso_local = True, bg_constant = True\<rparr>)"
        using that by (auto simp: blobs none)
    qed
    show "\<forall>y \<in> set external_symbols. bm_find ?M1 y = None"
    proof
      fix y
      assume "y \<in> set external_symbols"
      then have "\<not> (\<exists>z scn off. map_get_section_of_symbol scns z = Some (scn, off) \<and> ms_name scn = y)"
        using assms(5) by blast
      then show "bm_find ?M1 y = None" by (auto simp: blobs none)
    qed
  qed (rule external_symbols_distinct)
  then show ?thesis by (auto simp: extract_blob_def assms(1,2) split: if_splits)
qed

definition elf_example :: "elf_scn list" where
  "elf_example = [\<lparr>sh_name = ''initlevel'', sh_type = 1, sh_addr = 0x8049040, sh_size = 0x30,
     scn_data = [Some (replicate 0x30 7)]\<rparr>]"

text \<open>
  The map file of \<open>LinkerMap\<close>, with a symbol at the end of its section and one behind it; the same without
  the section's contents.
\<close>

theorem blob_symbols_point_into_sections_witness:
  "(\<exists>M' g. extract_blob id (\<lambda>M n. n) (\<lambda>f. show_map two_sections) elf_example ''zephyr.elf'' [] =
       Inr (True, M') \<and> bm_find M' ''__init_end'' = Some g \<and>
     (\<exists>o0 o1. bg_init g = BGep ''initlevel'' 0x30 o0 o1 \<and> unat o0 * 0x30 + unat o1 = 0x30)) \<and>
   extract_blob id (\<lambda>M n. n) (\<lambda>f. show_map two_sections) [] ''zephyr.elf'' [] = Inl AssertFail"
proof -
  have f: "map_filename ''zephyr.elf'' = Some ''zephyr.map''" by code_simp
  have parse: "map_parse (show_map two_sections) = Inr two_sections"
    using map_file_roundtrip_aux [OF two_sections_ok] by simp
  have no: "\<forall>y scn off. map_get_section_of_symbol two_sections y = Some (scn, off) \<longrightarrow>
      ms_name scn \<notin> set external_symbols"
    by (auto simp: two_sections_def external_symbols_def split: if_splits)
  have y: "''__init_end'' \<in> set external_symbols" by (simp add: external_symbols_def)
  obtain scn where at: "map_get_section_of_symbol two_sections ''__init_end'' = Some (scn, 0x30)"
    and s: "ms_size scn = 0x30" "ms_name scn = ''initlevel''"
    by (simp add: two_sections_def)
  note ext = blob_symbols_point_into_sections [OF f _ _ _ no, of "\<lambda>f. show_map two_sections" id "\<lambda>M n. n"]
  have "list_all (symbol_fits elf_example two_sections) external_symbols" by code_simp
  then have "\<exists>M'. extract_blob id (\<lambda>M n. n) (\<lambda>f. show_map two_sections) elf_example ''zephyr.elf'' [] =
      Inr (True, M') \<and> symbol_placed elf_example two_sections M' ''__init_end''"
    using ext [of elf_example] y by (auto simp: parse list_all_iff)
  then obtain M' g b o0 o1 where
    "extract_blob id (\<lambda>M n. n) (\<lambda>f. show_map two_sections) elf_example ''zephyr.elf'' [] = Inr (True, M')"
    "bm_find M' ''__init_end'' = Some g" "bg_init g = BGep ''initlevel'' 0x30 o0 o1"
    "unat o0 * 0x30 + unat o1 = 0x30"
    by (auto simp: symbol_placed_def at s section_to_llvm_data_def elf_example_def)
  moreover have "\<not> symbol_fits [] two_sections ''__init_end''"
    by (simp add: symbol_fits_def at s section_to_llvm_data_def)
  then have "extract_blob id (\<lambda>M n. n) (\<lambda>f. show_map two_sections) [] ''zephyr.elf'' [] = Inl AssertFail"
    using ext [of "[]"] y by (simp add: parse) metis
  ultimately show ?thesis by blast
qed

end
