(* ===== verification/MarkedSearch.thy ===== *)
theory MarkedSearch
  imports Prelude
begin

text \<open>
  Depth-first searches that mark the names they have seen, as the structure generator
  (\<open>generator-struct/generator-struct.cc\<close>) runs two of them over the debug information: one that
  generates types and one that draws them. The locale \<open>marked_search\<close> is what they share;
  \<open>StructGen\<close> interprets it twice.
\<close>

section \<open>Loops\<close>

fun each :: "('x \<Rightarrow> 's \<Rightarrow> 's res) \<Rightarrow> 'x list \<Rightarrow> 's \<Rightarrow> 's res" where
  "each f [] s = Inr s"
| "each f (x # xs) s = rbind (f x s) (each f xs)"

lemma each_append: "each f (xs @ ys) s = rbind (each f xs s) (each f ys)"
proof (induction xs arbitrary: s)
  case (Cons x xs)
  then show ?case by (cases "f x s") simp_all
qed simp

lemma each_filter:
  "each (\<lambda>x s. if P x then f (h x) s else Inr s) xs = each f (map h (filter P xs))"
proof (induction xs)
  case (Cons x xs)
  show ?case by (rule ext) (simp add: Cons)
qed (rule ext, simp)

lemma each_cong_list: "(\<And>x s. x \<in> set xs \<Longrightarrow> f x s = h x s) \<Longrightarrow> each f xs = each h xs"
proof (induction xs)
  case (Cons x xs)
  have "each f xs = each h xs" by (rule Cons.IH) (simp add: Cons.prems)
  then show ?case by (intro ext) (simp add: Cons.prems)
qed (rule ext, simp)

lemma each_Inl: "each f xs st = Inl e \<Longrightarrow> (\<And>x s. x \<in> set xs \<Longrightarrow> f x s = Inl e \<Longrightarrow> P) \<Longrightarrow> P"
proof (induction xs arbitrary: st)
  case (Cons x xs)
  then show ?case by (cases "f x st") auto
qed simp

section \<open>Searches with marks\<close>

text \<open>
  Both \<open>generate_struct\<close> and \<open>print_dot\<close> search the graph depth first and mark the names they have
  seen; a node without a name is not marked. \<open>leads\<close> reaches the next nodes through unmarked ones.
\<close>

inductive leads :: "(nat \<Rightarrow> string) \<Rightarrow> (nat \<Rightarrow> nat list) \<Rightarrow> nat \<Rightarrow> nat \<Rightarrow> bool" for name targets where
  leads_to: "y \<in> set (targets x) \<Longrightarrow> leads name targets x y"
| leads_via: "t \<in> set (targets x) \<Longrightarrow> name t = [] \<Longrightarrow> leads name targets t y \<Longrightarrow> leads name targets x y"

inductive_cases leadsE: "leads name targets x y"

locale marked_search =
  fixes ok :: bool
    and go :: "nat \<Rightarrow> nat \<Rightarrow> 's \<Rightarrow> 's res"
    and marks :: "'s \<Rightarrow> string set"
    and name :: "nat \<Rightarrow> string"
    and targets :: "nat \<Rightarrow> nat list"
    and enter :: "nat \<Rightarrow> 's \<Rightarrow> 's"
    and leave :: "nat \<Rightarrow> nat \<Rightarrow> 's \<Rightarrow> 's"
    and finish :: "nat \<Rightarrow> 's \<Rightarrow> 's res"
  assumes go_0: "go 0 d st = Inl OutOfFuel"
    and go_Suc: "ok \<Longrightarrow> go (Suc n) d st =
      (if name d \<in> marks st then Inr st
       else rbind (each (\<lambda>t s. rbind (go n t s) (\<lambda>s'. Inr (leave d t s'))) (targets d) (enter d st)) (finish d))"
    and marks_enter: "marks (enter d st) = (if name d = [] then marks st else insert (name d) (marks st))"
    and marks_leave: "marks (leave d t st) = marks st"
    and marks_finish: "finish d st = Inr st' \<Longrightarrow> marks st' = marks st"
begin

definition visit :: "nat \<Rightarrow> nat \<Rightarrow> nat \<Rightarrow> 's \<Rightarrow> 's res" where
  "visit n d = (\<lambda>t s. rbind (go n t s) (\<lambda>s'. Inr (leave d t s')))"

lemma go_step: "ok \<Longrightarrow> go (Suc n) d st =
    (if name d \<in> marks st then Inr st else rbind (each (visit n d) (targets d) (enter d st)) (finish d))"
  unfolding visit_def by (rule go_Suc)

lemma visit_marks: "visit n d t s = Inr s' \<Longrightarrow> \<exists>s1. go n t s = Inr s1 \<and> marks s' = marks s1"
  by (auto simp: visit_def marks_leave)

lemma each_grows:
  assumes "\<And>t s s'. visit n d t s = Inr s' \<Longrightarrow> marks s \<subseteq> marks s'"
  shows "each (visit n d) ts s = Inr s' \<Longrightarrow> marks s \<subseteq> marks s'"
proof (induction ts arbitrary: s)
  case (Cons t ts)
  then obtain s1 where s1: "visit n d t s = Inr s1" "each (visit n d) ts s1 = Inr s'" by auto
  show ?case using assms [OF s1(1)] Cons.IH [OF s1(2)] by blast
qed simp

lemma grows: "ok \<Longrightarrow> go n d st = Inr st' \<Longrightarrow> marks st \<subseteq> marks st'"
proof (induction n arbitrary: d st st')
  case 0
  then show ?case by (simp add: go_0)
next
  case (Suc n)
  have v: "visit n d t s = Inr s' \<Longrightarrow> marks s \<subseteq> marks s'" for t s s'
  proof -
    assume "visit n d t s = Inr s'"
    then obtain s1 where "go n t s = Inr s1" "marks s' = marks s1" using visit_marks by blast
    with Suc.IH [OF Suc.prems(1) this(1)] show ?thesis by simp
  qed
  show ?case
  proof (cases "name d \<in> marks st")
    case True
    with Suc.prems show ?thesis by (simp add: go_step)
  next
    case False
    then obtain s1 where s1: "each (visit n d) (targets d) (enter d st) = Inr s1" "finish d s1 = Inr st'"
      using Suc.prems by (auto simp: go_step)
    have "marks st \<subseteq> marks (enter d st)" by (simp add: marks_enter subset_insertI)
    moreover have "marks (enter d st) \<subseteq> marks s1" by (rule each_grows [OF _ s1(1)]) (rule v)
    ultimately show ?thesis using marks_finish [OF s1(2)] by simp
  qed
qed

text \<open>Fuel: a part for each name that is not marked yet, and the rank of a node without name.\<close>

definition need :: "string list \<Rightarrow> (nat \<Rightarrow> nat) \<Rightarrow> nat \<Rightarrow> nat \<Rightarrow> string set \<Rightarrow> nat" where
  "need ns rank R d M =
     card (set ns - M) * (R + 3) + (if name d = [] then rank d + 2 else 1)"

lemma need_mono: "M \<subseteq> M' \<Longrightarrow> need ns rank R d M' \<le> need ns rank R d M"
  unfolding need_def by (intro add_mono mult_right_mono card_mono) auto

lemma need_le:
  assumes "rank d \<le> R"
  shows "need ns rank R d M \<le> length ns * (R + 3) + R + 2"
proof -
  have "card (set ns - M) \<le> length ns"
    using card_length [of ns] card_mono [of "set ns" "set ns - M"] by simp
  then have a: "card (set ns - M) * (R + 3) \<le> length ns * (R + 3)" by (rule mult_right_mono) simp
  have b: "(if name d = [] then rank d + 2 else 1) \<le> R + 2" using assms by simp
  show ?thesis unfolding need_def using add_mono [OF a b] by (simp only: add.assoc)
qed

lemma need_target:
  assumes "\<And>d. rank d \<le> R" and "\<And>d. name d \<in> set ns" and "name d \<notin> M"
    and "name t = [] \<Longrightarrow> rank t < rank d \<or> name d \<noteq> []"
  shows "need ns rank R t (if name d = [] then M else insert (name d) M) < need ns rank R d M"
proof (cases "name d = []")
  case True
  with assms(4) show ?thesis by (auto simp: need_def)
next
  case False
  let ?c = "card (set ns - insert (name d) M)"
  have "set ns - insert (name d) M = (set ns - M) - {name d}" by auto
  moreover have "name d \<in> set ns - M" using assms(2,3) by simp
  ultimately have c: "card (set ns - M) = Suc ?c"
    by (metis card.remove finite_Diff finite_set)
  have "need ns rank R t (insert (name d) M) \<le> ?c * (R + 3) + (R + 2)"
    using assms(1) [of t] by (simp add: need_def)
  moreover have "need ns rank R d M = ?c * (R + 3) + (R + 3) + 1"
    using False by (simp add: need_def c)
  ultimately show ?thesis using False by simp
qed

lemma enough:
  assumes ok and "\<And>d. rank d \<le> R" and "\<And>d. name d \<in> set ns"
    and "\<And>d t. t \<in> set (targets d) \<Longrightarrow> name t = [] \<Longrightarrow> rank t < rank d \<or> name d \<noteq> []"
    and fin: "\<And>d s. finish d s \<noteq> Inl OutOfFuel"
  shows "need ns rank R d (marks st) \<le> fuel \<Longrightarrow> go fuel d st \<noteq> Inl OutOfFuel"
proof (induction fuel arbitrary: d st)
  case 0
  then show ?case by (simp add: need_def split: if_splits)
next
  case (Suc n)
  show ?case
  proof (cases "name d \<in> marks st")
    case True
    with assms(1) show ?thesis by (simp add: go_step)
  next
    case False
    have "each (visit n d) ts s \<noteq> Inl OutOfFuel"
      if "set ts \<subseteq> set (targets d)" "marks (enter d st) \<subseteq> marks s" for ts s
      using that
    proof (induction ts arbitrary: s)
      case (Cons t ts)
      have "need ns rank R t (marks (enter d st)) < need ns rank R d (marks st)"
        unfolding marks_enter using assms(2,3) False
        by (rule need_target) (use assms(4) Cons.prems(1) in auto)
      moreover have "need ns rank R t (marks s) \<le> need ns rank R t (marks (enter d st))"
        using Cons.prems(2) by (rule need_mono)
      ultimately have "go n t s \<noteq> Inl OutOfFuel" using Suc.prems by (intro Suc.IH) linarith
      then show ?case
      proof (cases "visit n d t s")
        case (Inl e)
        with \<open>go n t s \<noteq> Inl OutOfFuel\<close> show ?thesis by (cases "go n t s") (auto simp: visit_def)
      next
        case (Inr s1)
        obtain s2 where "go n t s = Inr s2" "marks s1 = marks s2" using visit_marks [OF Inr] by blast
        then have "marks s \<subseteq> marks s1" using grows [OF assms(1)] by metis
        with Cons Inr show ?thesis by auto
      qed
    qed simp
    then have "each (visit n d) (targets d) (enter d st) \<noteq> Inl OutOfFuel" by blast
    then show ?thesis using False assms(1) fin
      by (cases "each (visit n d) (targets d) (enter d st)") (auto simp: go_step)
  qed
qed

text \<open>A search fails only by its fuel and where \<open>finish\<close> fails.\<close>

lemma fails:
  assumes ok and "\<And>d s e. finish d s = Inl e \<Longrightarrow> P e" and "P OutOfFuel"
  shows "go n d st = Inl e \<Longrightarrow> P e"
proof (induction n arbitrary: d st)
  case 0
  with assms(3) show ?case by (simp add: go_0)
next
  case (Suc n)
  show ?case
  proof (cases "each (visit n d) (targets d) (enter d st)")
    case (Inl e')
    then have "each (visit n d) (targets d) (enter d st) = Inl e"
      using Suc.prems assms(1) by (auto simp: go_step split: if_splits)
    then show ?thesis
    proof (rule each_Inl)
      fix t s
      assume "visit n d t s = Inl e"
      then have "go n t s = Inl e" by (cases "go n t s") (auto simp: visit_def)
      then show ?thesis by (rule Suc.IH)
    qed
  next
    case (Inr s1)
    then have "finish d s1 = Inl e" using Suc.prems assms(1) by (auto simp: go_step split: if_splits)
    then show ?thesis by (rule assms(2))
  qed
qed

text \<open>What a search leaves behind is closed.\<close>

definition covered :: "string set \<Rightarrow> nat \<Rightarrow> bool" where
  "covered M x \<longleftrightarrow> (\<forall>y. leads name targets x y \<longrightarrow> name y \<noteq> [] \<longrightarrow> name y \<in> M)"

definition seen :: "string set \<Rightarrow> nat \<Rightarrow> bool" where
  "seen M x \<longleftrightarrow> (if name x = [] then covered M x else name x \<in> M)"

lemma covered_mono: "covered M x \<Longrightarrow> M \<subseteq> M' \<Longrightarrow> covered M' x"
  by (auto simp: covered_def)

lemma seen_mono: "seen M x \<Longrightarrow> M \<subseteq> M' \<Longrightarrow> seen M' x"
  using covered_mono by (auto simp: seen_def split: if_splits)

lemma covered_targets: "(\<And>t. t \<in> set (targets x) \<Longrightarrow> seen M t) \<Longrightarrow> covered M x"
  unfolding covered_def
proof (intro allI impI)
  fix y
  assume t: "\<And>t. t \<in> set (targets x) \<Longrightarrow> seen M t" and l: "leads name targets x y" and y: "name y \<noteq> []"
  from l show "name y \<in> M"
  proof (rule leadsE)
    assume "y \<in> set (targets x)"
    from t [OF this] y show ?thesis by (simp add: seen_def)
  next
    fix u
    assume u: "u \<in> set (targets x)" "name u = []" "leads name targets u y"
    from t [OF u(1)] u(2,3) y show ?thesis by (simp add: seen_def covered_def)
  qed
qed

text \<open>\<open>S\<close> holds the nodes the search can come to; their names must be different.\<close>

definition distinct_names :: "nat set \<Rightarrow> bool" where
  "distinct_names S \<longleftrightarrow> (\<forall>x \<in> S. set (targets x) \<subseteq> S \<and> (\<forall>y \<in> S. name x = name y \<longrightarrow> name x = [] \<or> x = y))"

lemma closes_each:
  assumes ok
    and rec: "\<And>d st st'. go n d st = Inr st' \<Longrightarrow> d \<in> S \<Longrightarrow> [] \<notin> marks st \<Longrightarrow>
      seen (marks st') d \<and> [] \<notin> marks st' \<and>
      (\<forall>x \<in> S. name x \<in> marks st' - marks st \<longrightarrow> covered (marks st') x)"
  shows "each (visit n d) ts s = Inr s' \<Longrightarrow> set ts \<subseteq> S \<Longrightarrow> [] \<notin> marks s \<Longrightarrow>
    marks s \<subseteq> marks s' \<and> [] \<notin> marks s' \<and> (\<forall>t \<in> set ts. seen (marks s') t) \<and>
    (\<forall>x \<in> S. name x \<in> marks s' - marks s \<longrightarrow> covered (marks s') x)"
proof (induction ts arbitrary: s)
  case (Cons t ts)
  then obtain s2 where s2: "visit n d t s = Inr s2" "each (visit n d) ts s2 = Inr s'" by auto
  then obtain s3 where s3: "go n t s = Inr s3" "marks s2 = marks s3" using visit_marks by blast
  have "t \<in> S" "set ts \<subseteq> S" using Cons.prems(2) by auto
  from rec [OF s3(1) this(1) Cons.prems(3)] have a: "seen (marks s2) t" "[] \<notin> marks s2"
    "\<forall>x \<in> S. name x \<in> marks s2 - marks s \<longrightarrow> covered (marks s2) x" by (simp_all add: s3(2))
  from Cons.IH [OF s2(2) \<open>set ts \<subseteq> S\<close> a(2)] have b: "marks s2 \<subseteq> marks s'" "[] \<notin> marks s'"
    "\<forall>t \<in> set ts. seen (marks s') t"
    "\<forall>x \<in> S. name x \<in> marks s' - marks s2 \<longrightarrow> covered (marks s') x" by simp_all
  have g: "marks s \<subseteq> marks s2" using grows [OF assms(1) s3(1)] s3(2) by simp
  show ?case using a b g seen_mono covered_mono by (metis Diff_iff dual_order.trans set_ConsD)
qed simp

lemma closes:
  assumes ok and S: "distinct_names S"
  shows "go n d st = Inr st' \<Longrightarrow> d \<in> S \<Longrightarrow> [] \<notin> marks st \<Longrightarrow>
    seen (marks st') d \<and> [] \<notin> marks st' \<and>
    (\<forall>x \<in> S. name x \<in> marks st' - marks st \<longrightarrow> covered (marks st') x)"
proof (induction n arbitrary: d st st')
  case 0
  then show ?case by (simp add: go_0)
next
  case (Suc n)
  show ?case
  proof (cases "name d \<in> marks st")
    case True
    with Suc.prems assms(1) show ?thesis by (auto simp: go_step seen_def)
  next
    case False
    then obtain s1 where s1: "each (visit n d) (targets d) (enter d st) = Inr s1" "finish d s1 = Inr st'"
      using Suc.prems assms(1) by (auto simp: go_step)
    have m: "marks st' = marks s1" using marks_finish [OF s1(2)] .
    have "[] \<notin> marks (enter d st)" "set (targets d) \<subseteq> S"
      using Suc.prems(2,3) S by (auto simp: marks_enter distinct_names_def)
    from closes_each [OF assms(1) Suc.IH s1(1) this(2,1)] have l: "marks (enter d st) \<subseteq> marks st'" "[] \<notin> marks st'"
      "\<forall>t \<in> set (targets d). seen (marks st') t"
      "\<forall>x \<in> S. name x \<in> marks st' - marks (enter d st) \<longrightarrow> covered (marks st') x"
      by (simp_all add: m)
    have c: "covered (marks st') d" using l(3) covered_targets by blast
    then have "seen (marks st') d" using l(1) by (auto simp: seen_def marks_enter)
    moreover have "covered (marks st') x" if "x \<in> S" "name x \<in> marks st' - marks st" for x
    proof (cases "x = d")
      case False
      have "name x \<noteq> []" using that l(2) by auto
      then have "name x \<notin> marks (enter d st)"
        using that False Suc.prems(2) S by (auto simp: marks_enter distinct_names_def split: if_splits)
      with that l(4) show ?thesis by blast
    qed (use c in simp)
    ultimately show ?thesis using l(2) by blast
  qed
qed

text \<open>From a search that starts without marks, everything reachable that has a name is marked.\<close>

lemma reaches_all:
  assumes ok and S: "distinct_names S" "d \<in> S"
    and "go n d st = Inr st'" and "marks st = {}"
    and "(\<lambda>x y. y \<in> set (targets x))\<^sup>*\<^sup>* d y"
  shows "seen (marks st') y"
proof -
  have c: "seen (marks st') d" "[] \<notin> marks st'"
    "\<And>x. x \<in> S \<Longrightarrow> name x \<in> marks st' \<Longrightarrow> covered (marks st') x"
    using closes [OF assms(1,2,4,3)] assms(5) by auto
  from assms(6) have "y \<in> S \<and> seen (marks st') y"
  proof (induction rule: rtranclp_induct)
    case base
    then show ?case using c S by simp
  next
    case (step y z)
    have y: "y \<in> S" "seen (marks st') y" using step.IH by simp_all
    then have "covered (marks st') y" using c by (cases "name y = []") (simp_all add: seen_def)
    then have "seen (marks st') z" using step.hyps(2)
      by (auto simp: seen_def covered_def intro: leads_to leads_via)
    moreover have "z \<in> S" using y(1) step.hyps(2) S(1) by (auto simp: distinct_names_def)
    ultimately show ?case by simp
  qed
  then show ?thesis ..
qed

end

section \<open>Searches that write\<close>

text \<open>The search also writes something about a node with a name when it has finished it.\<close>

locale written_search = marked_search ok go marks name targets enter leave finish
  for ok :: bool
    and go :: "nat \<Rightarrow> nat \<Rightarrow> 's \<Rightarrow> 's res"
    and marks :: "'s \<Rightarrow> string set"
    and name :: "nat \<Rightarrow> string"
    and targets :: "nat \<Rightarrow> nat list"
    and enter :: "nat \<Rightarrow> 's \<Rightarrow> 's"
    and leave :: "nat \<Rightarrow> nat \<Rightarrow> 's \<Rightarrow> 's"
    and finish :: "nat \<Rightarrow> 's \<Rightarrow> 's res" +
  fixes written :: "'s \<Rightarrow> nat \<Rightarrow> bool"
  assumes written_enter: "written st x \<Longrightarrow> written (enter d st) x"
    and written_leave: "written st x \<Longrightarrow> written (leave d t st) x"
    and written_finish: "finish d st = Inr st' \<Longrightarrow> written st x \<Longrightarrow> written st' x"
    and finish_writes: "finish d st = Inr st' \<Longrightarrow> name d \<noteq> [] \<Longrightarrow> written st' d"
begin

lemma keeps_each:
  assumes "\<And>t s s'. go n t s = Inr s' \<Longrightarrow> written s x \<Longrightarrow> written s' x"
  shows "each (visit n d) ts s = Inr s' \<Longrightarrow> written s x \<Longrightarrow> written s' x"
proof (induction ts arbitrary: s)
  case (Cons t ts)
  from Cons.prems(1) obtain s1 where s1: "visit n d t s = Inr s1" "each (visit n d) ts s1 = Inr s'" by auto
  from s1(1) obtain s2 where "go n t s = Inr s2" "s1 = leave d t s2" by (auto simp: visit_def)
  then have "written s1 x" using assms Cons.prems(2) written_leave by blast
  with Cons.IH s1(2) show ?case by blast
qed simp

lemma keeps: "ok \<Longrightarrow> go n d st = Inr st' \<Longrightarrow> written st x \<Longrightarrow> written st' x"
proof (induction n arbitrary: d st st')
  case 0
  then show ?case by (simp add: go_0)
next
  case (Suc n)
  show ?case
  proof (cases "name d \<in> marks st")
    case True
    with Suc.prems show ?thesis by (simp add: go_step)
  next
    case False
    then obtain s1 where s1: "each (visit n d) (targets d) (enter d st) = Inr s1" "finish d s1 = Inr st'"
      using Suc.prems by (auto simp: go_step)
    have "written s1 x"
      using Suc.IH [OF Suc.prems(1)] s1(1) written_enter [OF Suc.prems(3)] by (rule keeps_each)
    with s1(2) show ?thesis by (rule written_finish)
  qed
qed

lemma writes:
  assumes ok and S: "distinct_names S"
  shows "go n d st = Inr st' \<Longrightarrow> d \<in> S \<Longrightarrow> [] \<notin> marks st \<Longrightarrow> x \<in> S \<Longrightarrow>
    name x \<in> marks st' - marks st \<Longrightarrow> written st' x"
proof (induction n arbitrary: d st st')
  case 0
  then show ?case by (simp add: go_0)
next
  case (Suc n)
  have fresh: "name d \<notin> marks st" using Suc.prems(1,5) assms(1) by (auto simp: go_step)
  then obtain s1 where s1: "each (visit n d) (targets d) (enter d st) = Inr s1" "finish d s1 = Inr st'"
    using Suc.prems(1) assms(1) by (auto simp: go_step)
  have x: "name x \<noteq> []"
    using closes [OF assms Suc.prems(1-3)] Suc.prems(5) by auto
  have loop: "each (visit n d) ts s = Inr s' \<Longrightarrow> set ts \<subseteq> S \<Longrightarrow> [] \<notin> marks s \<Longrightarrow>
      name x \<in> marks s' - marks s \<Longrightarrow> written s' x" for ts s s'
  proof (induction ts arbitrary: s)
    case (Cons t ts)
    then obtain s2 where s2: "visit n d t s = Inr s2" "each (visit n d) ts s2 = Inr s'" by auto
    then obtain s3 where s3: "go n t s = Inr s3" "s2 = leave d t s3" by (auto simp: visit_def)
    have t: "t \<in> S" "set ts \<subseteq> S" using Cons.prems(2) by auto
    have m: "marks s2 = marks s3" "[] \<notin> marks s3"
      using closes [OF assms s3(1) t(1) Cons.prems(3)] by (simp_all add: s3(2) marks_leave)
    show ?case
    proof (cases "name x \<in> marks s2")
      case True
      then have "written s3 x" using Suc.IH [OF s3(1) t(1) Cons.prems(3) Suc.prems(4)] Cons.prems(4) m by simp
      then have "written s2 x" unfolding s3(2) by (rule written_leave)
      with keeps [OF assms(1)] s2(2) show ?thesis by (rule keeps_each)
    next
      case False
      with Cons.IH [OF s2(2) t(2)] m Cons.prems(4) show ?thesis by simp
    qed
  qed simp
  show ?case
  proof (cases "x = d")
    case True
    with finish_writes [OF s1(2)] x show ?thesis by simp
  next
    case False
    have "set (targets d) \<subseteq> S" "[] \<notin> marks (enter d st)" "name x \<notin> marks (enter d st)"
      using S Suc.prems x False by (auto simp: distinct_names_def marks_enter split: if_splits)
    with loop [OF s1(1)] Suc.prems(5) marks_finish [OF s1(2)] have "written s1 x" by simp
    with s1(2) show ?thesis by (rule written_finish)
  qed
qed

end

end
