(* ===== verification/StructGen.thy ===== *)
theory StructGen
  imports FieldInfo MarkedSearch
begin

text \<open>
  The generator of Python data classes (\<open>generator-struct/generator-struct.cc\<close>): for every
  structure type of a module, the types its members need are generated first, depth first, and then
  a class with a field for each member is printed.

  The debug information is the graph of \<open>DebugInfo\<close>. What LLVM prints of a node, of a node's address,
  of a tag and of a structure type are functions of \<open>gen_env\<close>; so is whether colours are
  enabled. The two global lists \<open>done\<close> and \<open>done2\<close> and the output are the state.
\<close>

section \<open>Environment and state\<close>

record gen_env =
  ge_graph :: di_graph
  ge_color :: bool
  ge_show :: "nat \<Rightarrow> string"
  ge_ptr :: "nat \<Rightarrow> string"
  ge_tag :: "nat \<Rightarrow> string"
  ge_struct :: "string \<Rightarrow> string option"
  ge_chain :: nat

record gen_state =
  gs_out :: string
  gs_done :: "string list"
  gs_done2 :: "string list"

definition put :: "string \<Rightarrow> gen_state \<Rightarrow> gen_state" where
  "put s st = st\<lparr>gs_out := gs_out st @ s\<rparr>"

definition nl :: string where "nl = [CHR 0x0A]"

definition quote :: string where "quote = [CHR 0x22]"

definition c_black :: string where "c_black = CHR 0x1B # ''[1;30m''"
definition c_red :: string where "c_red = CHR 0x1B # ''[1;31m''"
definition c_green :: string where "c_green = CHR 0x1B # ''[1;32m''"
definition c_yellow :: string where "c_yellow = CHR 0x1B # ''[1;33m''"
definition c_reset :: string where "c_reset = CHR 0x1B # ''[0m''"

definition color :: "gen_env \<Rightarrow> string \<Rightarrow> string" where
  "color env c = (if ge_color env then c else '''')"

text \<open>The loop of \<open>underscorify\<close> replaces the first dot until there is none.\<close>

fun dot_at :: "string \<Rightarrow> nat option" where
  "dot_at [] = None"
| "dot_at (c # cs) = (if c = CHR ''.'' then Some 0 else map_option Suc (dot_at cs))"

lemma dot_at_Some: "dot_at s = Some n \<Longrightarrow> n < length s \<and> s ! n = CHR ''.''"
  by (induction s arbitrary: n) (auto split: if_splits)

lemma replace_dot_count:
  "n < length s \<Longrightarrow> s ! n = CHR ''.'' \<Longrightarrow>
   length (filter (\<lambda>c. c = CHR ''.'') (s[n := CHR ''_''])) < length (filter (\<lambda>c. c = CHR ''.'') s)"
proof (induction s arbitrary: n)
  case (Cons c s)
  then show ?case by (cases n) auto
qed simp

function underscorify :: "string \<Rightarrow> string" where
  "underscorify str =
     (case dot_at str of None \<Rightarrow> str | Some n \<Rightarrow> underscorify (str[n := CHR ''_'']))"
  by pat_completeness auto
termination
  by (relation "measure (\<lambda>s. length (filter (\<lambda>c. c = CHR ''.'') s))")
    (auto dest: dot_at_Some intro: replace_dot_count)

declare underscorify.simps [simp del]

section \<open>Resolving\<close>

datatype gen_tag = BaseType | Tagged di_tag

definition gen_tag_of :: "di_node \<Rightarrow> gen_tag" where
  "gen_tag_of n = (if isBasic n then BaseType else Tagged (getTag n))"

fun resolveUntil :: "nat \<Rightarrow> di_graph \<Rightarrow> nat option \<Rightarrow> gen_tag list \<Rightarrow> nat option res" where
  "resolveUntil fuel g None kinds = Inr None"
| "resolveUntil fuel g (Some DITy) kinds =
     (if gen_tag_of (g DITy) \<in> set kinds then Inr (Some DITy)
      else if isDerived (g DITy)
      then (case fuel of
              0 \<Rightarrow> Inl OutOfFuel
            | Suc n \<Rightarrow> resolveUntil n g (getBaseType (g DITy)) kinds)
      else Inr None)"

declare resolveUntil.simps(2) [simp del]

definition resolve_kinds :: "gen_tag list" where
  "resolve_kinds =
     [BaseType, Tagged TagStructure, Tagged TagUnion, Tagged TagArray, Tagged TagPointer, Tagged TagTypedef]"

definition resolve :: "gen_env \<Rightarrow> nat option \<Rightarrow> nat option res" where
  "resolve env DITy = resolveUntil (ge_chain env) (ge_graph env) DITy resolve_kinds"

text \<open>
  \<open>generate\<close> is \<open>generate_struct\<close>, which calls this function. Structures and unions are composite
  nodes, but the code asks for derived ones in their case.
\<close>

definition isDIType :: "di_node \<Rightarrow> bool" where
  "isDIType n \<longleftrightarrow> n \<noteq> DINoType"

definition resolve2 ::
    "(nat option \<Rightarrow> gen_state \<Rightarrow> gen_state res) \<Rightarrow> gen_env \<Rightarrow> nat \<Rightarrow> gen_state \<Rightarrow> gen_state res" where
  "resolve2 generate env DITy st =
     (let g = ge_graph env in
      rbind (resolve env (Some DITy)) (\<lambda>R.
      rbind
        (case R of
           None \<Rightarrow> Inr st
         | Some r \<Rightarrow>
             rbind (if isComposite (g DITy)
                    then each (\<lambda>e st.
                           if isDIType (g e)
                           then rbind (resolve env (Some e)) (\<lambda>ER.
                             if ER \<noteq> None \<and> isDerived (g e) then generate (getBaseType (g e)) st else Inr st)
                           else Inr st) (getElements (g DITy)) st
                    else Inr st) (\<lambda>st1.
             case gen_tag_of (g r) of
               Tagged TagTypedef \<Rightarrow>
                 if isDerived (g r)
                 then rbind (resolve env (getBaseType (g r))) (\<lambda>b. generate b st1) else Inr st1
             | Tagged TagUnion \<Rightarrow> if isDerived (g r) then generate (getBaseType (g r)) st1 else Inr st1
             | Tagged TagStructure \<Rightarrow> if isDerived (g r) then generate (getBaseType (g r)) st1 else Inr st1
             | Tagged TagArray \<Rightarrow>
                 if isComposite (g r) \<and> getBaseType (g r) \<noteq> None then generate (getBaseType (g r)) st1
                 else Inr st1
             | Tagged TagPointer \<Rightarrow>
                 if isDerived (g r) \<and> getBaseType (g r) \<noteq> None then generate (getBaseType (g r)) st1
                 else Inr st1
             | _ \<Rightarrow> Inr st1))
        (\<lambda>st2. Inr (put nl st2))))"

section \<open>Printing a class\<close>

definition toPythonType :: "di_node \<Rightarrow> string" where
  "toPythonType n =
     (if isBasic n
      then (if take 8 (getName n) = ''unsigned'' then ''U'' else '''') @ ''Int'' @ to_string (getSizeInBits n)
      else '''')"

text \<open>The two lines that open a class, which \<open>print\<close> writes with the colours in different places.\<close>

definition ptr_field :: "string \<Rightarrow> string" where
  "ptr_field name = ''    __ptr__: PTR = field(default_factory=lambda: PTR('' @ name @ ''))''"

definition class_header :: "gen_env \<Rightarrow> string \<Rightarrow> string" where
  "class_header env name =
     color env c_red @ ''@dataclass'' @ nl @ ''class '' @ name @ ''(StructPointerTrait):'' @ nl @
     ptr_field name @ color env c_reset @ nl"

definition typedef_header :: "gen_env \<Rightarrow> string \<Rightarrow> string" where
  "typedef_header env name =
     color env c_red @ ''@dataclass'' @ nl @ color env c_red @ ''class '' @ name @
     ''(StructPointerTrait):'' @ color env c_reset @ nl @ ptr_field name @ nl"

text \<open>A field of a basic type, and one of a class.\<close>

definition basic_field :: "gen_env \<Rightarrow> string \<Rightarrow> string \<Rightarrow> di_node \<Rightarrow> string" where
  "basic_field env c name b =
     color env c @ ''    '' @ name @ '': '' @ toPythonType b @ '' = 0'' @ nl @ color env c_reset"

definition class_field :: "gen_env \<Rightarrow> string \<Rightarrow> string \<Rightarrow> string \<Rightarrow> string" where
  "class_field env c name cls =
     color env c @ ''    '' @ name @ '': '' @ cls @ '' = field(default_factory='' @ cls @ '')'' @ nl @
     color env c_reset"

definition basic_or_class :: "gen_env \<Rightarrow> string \<Rightarrow> string \<Rightarrow> string \<Rightarrow> nat option \<Rightarrow> string" where
  "basic_or_class env c name cls b =
     (case b of Some n \<Rightarrow> basic_field env c name (ge_graph env n) | None \<Rightarrow> class_field env c name cls)"

text \<open>The cases of an array and of a pointer; \<open>name\<close> is that of the member.\<close>

definition print_array :: "gen_env \<Rightarrow> string \<Rightarrow> nat \<Rightarrow> gen_state \<Rightarrow> gen_state res" where
  "print_array env name DIDTy st =
     (let g = ge_graph env in
      if \<not> isComposite (g DIDTy) \<or> getBaseType (g DIDTy) = None then Inr st
      else rbind (resolve env (getBaseType (g DIDTy))) (\<lambda>P.
        case P of
          None \<Rightarrow> Inr st
        | Some p \<Rightarrow>
            rbind (if getTag (g p) = TagPointer \<and> isComposite (g p)
                   then rbind (resolve env (getBaseType (g p))) (\<lambda>q.
                     case q of None \<Rightarrow> Inl NullDeref | Some p' \<Rightarrow> Inr p')
                   else Inr p) (\<lambda>PTRDITy.
            if getSizeInBits (g PTRDITy) = 0 then Inl DivideByZero
            else
              let n = to_string (getSizeInBits (g DIDTy) div getSizeInBits (g PTRDITy));
                  el = getName (g PTRDITy)
              in Inr (put (color env c_green @ ''    '' @ name @ '': '' @
                   (if el = ''char''
                    then ''Annotated(str, ArraySize('' @ n @ '')) = field(default_factory=str)''
                    else ''Annotated(list['' @ el @ ''], ArraySize('' @ n @
                      '')) = field(default_factory=lambda: ['' @ el @ ''()] * '' @ n @ '')'') @
                   color env c_reset @ nl) st))))"

definition print_pointer :: "gen_env \<Rightarrow> string \<Rightarrow> nat \<Rightarrow> gen_state \<Rightarrow> (bool \<times> gen_state) res" where
  "print_pointer env name r st =
     (let g = ge_graph env in
      if \<not> isDerived (g r) \<or> getBaseType (g r) = None then Inr (False, st)
      else rbind (resolve env (getBaseType (g r))) (\<lambda>P.
        case P of
          None \<Rightarrow> Inr (False, st)
        | Some p \<Rightarrow>
            Inr (True, put (color env c_green @ ''    '' @ name @ '': PTR = field(default_factory=lambda: PTR('' @
              getName (g p) @ ''))'' @ color env c_reset @ nl) st)))"

text \<open>
  The case of a typedef, with the recursive call as \<open>rec\<close>: a field, an alias, or a class for an unnamed
  type.
\<close>

definition print_typedef ::
    "(nat \<Rightarrow> bool \<Rightarrow> gen_state \<Rightarrow> gen_state res) \<Rightarrow> gen_env \<Rightarrow> nat \<Rightarrow> nat \<Rightarrow> bool \<Rightarrow> gen_state \<Rightarrow>
     gen_state res" where
  "print_typedef rec env DITy r start st =
     (let g = ge_graph env; name = getName (g DITy); tname = getName (g r) in
      if \<not> isDerived (g r) then Inr st
      else rbind (resolve env (getBaseType (g r))) (\<lambda>A.
        case A of
          None \<Rightarrow> Inr st
        | Some a \<Rightarrow>
            if \<not> start
            then rbind (toBasicType (ge_chain env) g (Some a)) (\<lambda>B.
                   Inr (put (basic_or_class env c_yellow name tname B) st))
            else if getName (g a) \<noteq> ''''
            then rbind (toBasicType (ge_chain env) g (Some a)) (\<lambda>B.
                   Inr (put (case B of
                       Some b \<Rightarrow> color env c_yellow @ name @ ''='' @ toPythonType (g b) @
                         color env c_reset @ nl
                     | None \<Rightarrow> color env c_yellow @ tname @ ''='' @ getName (g a) @ nl @
                         color env c_reset) st))
            else rec a False (put (typedef_header env name) st)))"

definition blank :: "gen_state res \<Rightarrow> gen_state res" where
  "blank r = rbind r (\<lambda>st. Inr (put (nl @ nl) st))"

text \<open>The members of a composite type, and the field or class of a type that resolves to \<open>r\<close>.\<close>

definition print_members ::
    "(nat \<Rightarrow> bool \<Rightarrow> gen_state \<Rightarrow> gen_state res) \<Rightarrow> gen_env \<Rightarrow> nat \<Rightarrow> bool \<Rightarrow> gen_state \<Rightarrow>
     gen_state res" where
  "print_members rec env DITy start =
     (let g = ge_graph env in
      each (\<lambda>e st. if isDIType (g e) \<and> isDerived (g e) then rec e start st else Inr st)
        (getElements (g DITy)))"

definition print_resolved ::
    "(nat \<Rightarrow> bool \<Rightarrow> gen_state \<Rightarrow> gen_state res) \<Rightarrow> gen_env \<Rightarrow> nat \<Rightarrow> nat \<Rightarrow> bool \<Rightarrow> gen_state \<Rightarrow>
     gen_state res" where
  "print_resolved rec env DITy r start st =
     (let g = ge_graph env; name = getName (g DITy) in
      case gen_tag_of (g r) of
        BaseType \<Rightarrow>
          blank (Inr (if start then st
            else put (color env c_green @ ''    '' @ name @ '': '' @ toPythonType (g r) @ '' = 0'' @
                   color env c_reset @ nl) st))
      | Tagged TagTypedef \<Rightarrow> blank (print_typedef rec env DITy r start st)
      | Tagged TagArray \<Rightarrow> blank (print_array env name r st)
      | Tagged TagPointer \<Rightarrow>
          rbind (print_pointer env name r st) (\<lambda>(ret, st1). if ret then Inr st1 else blank (Inr st1))
      | Tagged t \<Rightarrow>
          if t \<in> {TagUnion, TagStructure}
          then blank
            (if getName (g r) = ''''
             then rbind (if isDerived (g r) then rec r start st else Inr st)
                    (\<lambda>st1. if isComposite (g r) then rec r start st1 else Inr st1)
             else rbind (toBasicType (ge_chain env) g (Some r)) (\<lambda>B.
                    Inr (put (basic_or_class env c_green name (getName (g r)) B) st)))
          else blank (Inr st))"

definition opens_class :: "gen_env \<Rightarrow> nat \<Rightarrow> bool \<Rightarrow> bool" where
  "opens_class env DITy start \<longleftrightarrow>
     getTag (ge_graph env DITy) \<in> {TagUnion, TagStructure} \<and> getName (ge_graph env DITy) \<noteq> '''' \<and> start"

fun print :: "nat \<Rightarrow> gen_env \<Rightarrow> nat \<Rightarrow> bool \<Rightarrow> gen_state \<Rightarrow> gen_state res" where
  "print 0 env DITy start st = Inl OutOfFuel"
| "print (Suc fuel) env DITy start st =
     (let opens = opens_class env DITy start;
          st1 = (if opens then put (class_header env (getName (ge_graph env DITy))) st else st);
          start1 = (start \<and> \<not> opens)
      in rbind (resolve env (Some DITy)) (\<lambda>R.
         case R of
           None \<Rightarrow> blank (Inr st1)
         | Some r \<Rightarrow>
             if isComposite (ge_graph env DITy)
             then print_members (print fuel env) env DITy start1 st1
             else print_resolved (print fuel env) env DITy r start1
                    (put (color env c_black @ ''    # '' @ ge_show env r @ color env c_reset @ nl) st1)))"

declare print.simps(2) [simp del]

section \<open>The graph in dot format\<close>

definition dot_edge :: "gen_env \<Rightarrow> nat \<Rightarrow> nat \<Rightarrow> string" where
  "dot_edge env a b = quote @ ge_ptr env a @ quote @ '' -> '' @ quote @ ge_ptr env b @ quote @ nl"

fun print_dot :: "nat \<Rightarrow> gen_env \<Rightarrow> nat \<Rightarrow> gen_state \<Rightarrow> gen_state res" where
  "print_dot 0 env d st = Inl OutOfFuel"
| "print_dot (Suc fuel) env d st =
     (let g = ge_graph env; name = getName (g d);
          follow = (\<lambda>e st'. rbind (print_dot fuel env e st') (\<lambda>st''. Inr (put (dot_edge env d e) st'')))
      in if name \<in> set (gs_done2 st) then Inr st
         else
           let st1 = (if name \<noteq> '''' then st\<lparr>gs_done2 := gs_done2 st @ [name]\<rparr> else st);
               st2 = put (quote @ ge_ptr env d @ quote @ ''[label='' @ quote @ ge_tag env d @
                       [CHR 0x5C, CHR ''n''] @ name @ quote @ '']'' @ nl) st1
           in rbind
                (if isComposite (g d)
                 then rbind (case (if getTag (g d) = TagArray then getBaseType (g d) else None) of
                               None \<Rightarrow> Inr st2 | Some b \<Rightarrow> follow b st2)
                        (each (\<lambda>e st'. if isDIType (g e) then follow e st' else Inr st') (getElements (g d)))
                 else Inr st2)
                (\<lambda>st3. case (if isDerived (g d) then getBaseType (g d) else None) of
                          None \<Rightarrow> Inr st3 | Some b \<Rightarrow> follow b st3))"

declare print_dot.simps(2) [simp del]

section \<open>Generating a type and what it needs\<close>

text \<open>\<open>pf\<close> is the fuel of the two printers.\<close>

definition emit_type :: "nat \<Rightarrow> gen_env \<Rightarrow> nat \<Rightarrow> gen_state \<Rightarrow> gen_state res" where
  "emit_type pf env d st =
     (let name = getName (ge_graph env d); q3 = quote @ quote @ quote @ nl in
      rbind (print_dot pf env d (put (color env c_black @ q3 @ ''digraph{ '' @ nl) st)) (\<lambda>st1.
        print pf env d True
          (put (''} '' @ nl @ q3 @ ''# '' @ ge_show env d @ nl @
             (case ge_struct env (''struct.'' @ name) of None \<Rightarrow> '''' | Some ST \<Rightarrow> ''# '' @ ST @ nl) @
             color env c_reset) st1)))"

fun generate_struct :: "nat \<Rightarrow> nat \<Rightarrow> gen_env \<Rightarrow> nat option \<Rightarrow> gen_state \<Rightarrow> gen_state res" where
  "generate_struct fuel pf env None st = Inr st"
| "generate_struct 0 pf env (Some d) st = Inl OutOfFuel"
| "generate_struct (Suc fuel) pf env (Some d) st =
     (let name = getName (ge_graph env d) in
      if name \<in> set (gs_done st) then Inr st
      else rbind (resolve2 (generate_struct fuel pf env) env d
                    (if name \<noteq> '''' then st\<lparr>gs_done := gs_done st @ [name]\<rparr> else st)) (\<lambda>st2.
           if name \<noteq> '''' then emit_type pf env d st2 else Inr st2))"

declare generate_struct.simps(3) [simp del]

fun findStructDebugInfo2 :: "di_graph \<Rightarrow> nat list \<Rightarrow> string \<Rightarrow> nat option" where
  "findStructDebugInfo2 g [] name = None"
| "findStructDebugInfo2 g (Ty # Tys) name =
     (if getName (g Ty) = name \<and> getTag (g Ty) \<in> {TagStructure, TagUnion, TagTypedef} \<and>
        (isDerived (g Ty) \<or> isComposite (g Ty)) then Some Ty
      else findStructDebugInfo2 g Tys name)"

definition generate_struct_named ::
    "nat \<Rightarrow> nat \<Rightarrow> gen_env \<Rightarrow> nat list \<Rightarrow> string \<Rightarrow> gen_state \<Rightarrow> gen_state res" where
  "generate_struct_named fuel pf env types name st =
     generate_struct fuel pf env (findStructDebugInfo2 (ge_graph env) types name) st"

definition allow_list :: "string \<Rightarrow> bool" where
  "allow_list name \<longleftrightarrow>
     name \<in> set [''_dnode'', ''k_sem'', ''k_timer'', ''_timeout'', ''k_timeout_t'', ''k_spinlock'',
       ''_thread_base'', ''_wait_q_t'', ''k_mutex'', ''k_msgq'', ''k_thread'', ''z_kernel'', ''_cpu'',
       ''_ready_q'', ''k_work_q'', ''k_fifo'', ''k_queue'', ''k_work'']"

definition block_list :: "string \<Rightarrow> bool" where
  "block_list name \<longleftrightarrow>
     name \<in> set [''log_msg'', ''log_msg_ptr'', ''mpsc_pbuf_buffer_config.160'', ''mpsc_pbuf_generic'']"

text \<open>\<open>StringRef::split\<close>: what is before and behind the first dot.\<close>

definition split_dot :: "string \<Rightarrow> string \<times> string" where
  "split_dot s = (case dot_at s of None \<Rightarrow> (s, '''') | Some n \<Rightarrow> (take n s, drop (Suc n) s))"

text \<open>\<open>header\<close> is the text the file starts with; \<open>structs\<close> the names of the identified structure types.\<close>

definition generate ::
    "nat \<Rightarrow> nat \<Rightarrow> gen_env \<Rightarrow> nat list \<Rightarrow> string \<Rightarrow> string list \<Rightarrow> gen_state res" where
  "generate fuel pf env types header structs =
     each (\<lambda>ST st.
       let name = snd (split_dot ST)
       in if block_list name then Inr st else generate_struct_named fuel pf env types name st)
       structs \<lparr>gs_out = header, gs_done = [], gs_done2 = []\<rparr>"

text \<open>
  \<open>main\<close>: the exit code, and what is printed to which file. The output is created before the input is read, and a
  file that does not parse gives a null pointer.
\<close>

definition gen_main ::
    "(string \<Rightarrow> bool) \<Rightarrow> (string \<Rightarrow> (gen_env \<times> nat list \<times> string list) option) \<Rightarrow> nat \<Rightarrow> nat \<Rightarrow> string \<Rightarrow>
     string \<Rightarrow> string \<Rightarrow> (int \<times> (string \<times> string) list) res" where
  "gen_main can_create parseIRFile fuel pf header InputFilename OutputFilename =
     (if OutputFilename \<noteq> ''-'' \<and> \<not> can_create OutputFilename then Inr (-1, [])
      else case parseIRFile InputFilename of
        None \<Rightarrow> Inl NullDeref
      | Some (env, types, structs) \<Rightarrow>
          rbind (generate fuel pf env types header structs) (\<lambda>st. Inr (0, [(OutputFilename, gs_out st)])))"

section \<open>The two searches\<close>

text \<open>The chains of qualifiers, typedefs and pointers end within the fuel for them.\<close>

definition resolves_ok :: "gen_env \<Rightarrow> bool" where
  "resolves_ok env \<longleftrightarrow>
     (\<forall>d. resolve env d \<noteq> Inl OutOfFuel) \<and> (\<forall>d. toBasicType (ge_chain env) (ge_graph env) d \<noteq> Inl OutOfFuel)"

definition resolved :: "gen_env \<Rightarrow> nat option \<Rightarrow> nat option" where
  "resolved env d = (case resolve env d of Inr r \<Rightarrow> r | Inl e \<Rightarrow> None)"

lemma resolveUntil_Inl: "resolveUntil n g d ks = Inl e \<Longrightarrow> e = OutOfFuel"
  by (induction n g d ks rule: resolveUntil.induct)
    (auto simp: resolveUntil.simps(2) split: if_splits nat.splits)

lemma resolve_eq: "resolves_ok env \<Longrightarrow> resolve env d = Inr (resolved env d)"
  using resolveUntil_Inl [of "ge_chain env" "ge_graph env" d resolve_kinds]
  by (cases "resolve env d") (auto simp: resolves_ok_def resolved_def resolve_def)

text \<open>The types a type needs: those of its members, and the one it stands for or points to.\<close>

definition opt_list :: "nat option \<Rightarrow> nat list" where
  "opt_list b = (case b of None \<Rightarrow> [] | Some x \<Rightarrow> [x])"

lemma opt_list_simps [simp]: "opt_list None = []" "opt_list (Some x) = [x]"
  by (simp_all add: opt_list_def)

definition member_types :: "gen_env \<Rightarrow> nat \<Rightarrow> nat option list" where
  "member_types env d =
     (let g = ge_graph env in
      if isComposite (g d)
      then map (\<lambda>e. getBaseType (g e))
        (filter (\<lambda>e. isDIType (g e) \<and> resolved env (Some e) \<noteq> None \<and> isDerived (g e)) (getElements (g d)))
      else [])"

definition own_types :: "gen_env \<Rightarrow> nat \<Rightarrow> nat option list" where
  "own_types env r =
     (let g = ge_graph env in
      case gen_tag_of (g r) of
        Tagged TagTypedef \<Rightarrow> if isDerived (g r) then [resolved env (getBaseType (g r))] else []
      | Tagged TagUnion \<Rightarrow> if isDerived (g r) then [getBaseType (g r)] else []
      | Tagged TagStructure \<Rightarrow> if isDerived (g r) then [getBaseType (g r)] else []
      | Tagged TagArray \<Rightarrow> if isComposite (g r) then [getBaseType (g r)] else []
      | Tagged TagPointer \<Rightarrow> if isDerived (g r) then [getBaseType (g r)] else []
      | _ \<Rightarrow> [])"

definition needs :: "gen_env \<Rightarrow> nat \<Rightarrow> nat list" where
  "needs env d =
     (case resolved env (Some d) of
        None \<Rightarrow> []
      | Some r \<Rightarrow> concat (map opt_list (member_types env d @ own_types env r)))"

lemma each_opt:
  "(\<And>s. gen None s = Inr s) \<Longrightarrow> each gen bs = each (\<lambda>t. gen (Some t)) (concat (map opt_list bs))"
proof (induction bs)
  case (Cons b bs)
  then have ih: "each gen bs = each (\<lambda>t. gen (Some t)) (concat (map opt_list bs))" by blast
  show ?case by (rule ext) (cases b, simp_all add: Cons.prems ih)
qed (rule ext, simp)

lemma each_none: "(\<And>s. gen None s = Inr s) \<Longrightarrow> each gen (if b = None then [] else [b]) s = gen b s"
  by (cases b; cases "gen b s") simp_all

lemma resolve2_eq:
  assumes "resolves_ok env" and "\<And>s. gen None s = Inr s"
  shows "resolve2 gen env d st =
    rbind (each (\<lambda>t. gen (Some t)) (needs env d) st) (\<lambda>st'. Inr (put nl st'))"
proof (cases "resolved env (Some d)")
  case None
  then show ?thesis by (simp add: resolve2_def resolve_eq [OF assms(1)] needs_def)
next
  case (Some r)
  let ?g = "ge_graph env"
  have m: "(if isComposite (?g d)
      then each (\<lambda>e st. if isDIType (?g e)
             then rbind (resolve env (Some e)) (\<lambda>ER.
               if ER \<noteq> None \<and> isDerived (?g e) then gen (getBaseType (?g e)) st else Inr st)
             else Inr st) (getElements (?g d)) st
      else Inr st) = each gen (member_types env d) st"
  proof -
    have "(\<lambda>e st. if isDIType (?g e)
             then rbind (resolve env (Some e)) (\<lambda>ER.
               if ER \<noteq> None \<and> isDerived (?g e) then gen (getBaseType (?g e)) st else Inr st)
             else Inr st) =
        (\<lambda>e st. if isDIType (?g e) \<and> resolved env (Some e) \<noteq> None \<and> isDerived (?g e)
           then gen (getBaseType (?g e)) st else Inr st)"
      by (intro ext) (simp add: resolve_eq [OF assms(1)])
    then show ?thesis
      by (simp add: member_types_def Let_def del: not_None_eq)
        (simp only: each_filter [where P = "\<lambda>e. isDIType (?g e) \<and> resolved env (Some e) \<noteq> None \<and> isDerived (?g e)"
          and f = gen and h = "\<lambda>e. getBaseType (?g e)"] simp_thms)
  qed
  have one: "each gen [b] s = gen b s" for b s by (cases "gen b s") simp_all
  have o: "(case gen_tag_of (?g r) of
               Tagged TagTypedef \<Rightarrow>
                 if isDerived (?g r)
                 then rbind (resolve env (getBaseType (?g r))) (\<lambda>b. gen b s) else Inr s
             | Tagged TagUnion \<Rightarrow> if isDerived (?g r) then gen (getBaseType (?g r)) s else Inr s
             | Tagged TagStructure \<Rightarrow> if isDerived (?g r) then gen (getBaseType (?g r)) s else Inr s
             | Tagged TagArray \<Rightarrow>
                 if isComposite (?g r) \<and> getBaseType (?g r) \<noteq> None then gen (getBaseType (?g r)) s
                 else Inr s
             | Tagged TagPointer \<Rightarrow>
                 if isDerived (?g r) \<and> getBaseType (?g r) \<noteq> None then gen (getBaseType (?g r)) s
                 else Inr s
             | _ \<Rightarrow> Inr s) = each gen (own_types env r) s" for s
    by (simp add: own_types_def Let_def one resolve_eq [OF assms(1)] assms(2) del: each.simps(2)
        split: gen_tag.split di_tag.split)
  have "resolve2 gen env d st =
      rbind (rbind (each gen (member_types env d) st) (each gen (own_types env r))) (\<lambda>st'. Inr (put nl st'))"
    unfolding resolve2_def Let_def m resolve_eq [OF assms(1), of "Some d"] Some rbind_Inr option.case o ..
  also have "\<dots> = rbind (each gen (member_types env d @ own_types env r) st) (\<lambda>st'. Inr (put nl st'))"
    by (simp only: each_append)
  finally show ?thesis by (simp add: needs_def Some each_opt [of gen, OF assms(2)])
qed

text \<open>The printers leave the list of generated types alone and only append to the output.\<close>

definition grown :: "gen_state \<Rightarrow> gen_state \<Rightarrow> bool" where
  "grown st st' \<longleftrightarrow> gs_done st' = gs_done st \<and> (\<exists>w. gs_out st' = gs_out st @ w)"

lemma grown_refl [simp]: "grown st st"
  by (simp add: grown_def)

lemma grown_trans: "grown st st1 \<Longrightarrow> grown st1 st2 \<Longrightarrow> grown st st2"
  by (auto simp: grown_def)

lemma grown_put: "grown st (put x st)"
  by (simp add: grown_def put_def)

lemma grown_put_r [intro!]: "grown st st' \<Longrightarrow> grown st (put x st')"
  by (rule grown_trans [OF _ grown_put])

lemma grown_put_l [dest!]: "grown (put x st) st' \<Longrightarrow> grown st st'"
  by (rule grown_trans [OF grown_put])

lemma grown_done2 [simp]: "grown (st\<lparr>gs_done2 := ds\<rparr>) st' = grown st st'"
  "grown st (st'\<lparr>gs_done2 := ds\<rparr>) = grown st st'"
  by (simp_all add: grown_def)

lemma grown_each:
  assumes "\<And>x s s'. x \<in> set xs \<Longrightarrow> f x s = Inr s' \<Longrightarrow> grown s s'"
  shows "each f xs st = Inr st' \<Longrightarrow> grown st st'"
  using assms
proof (induction xs arbitrary: st)
  case (Cons x xs)
  then obtain s1 where s1: "f x st = Inr s1" "each f xs s1 = Inr st'" by auto
  have "grown st s1" using Cons.prems(2) [OF _ s1(1)] by simp
  moreover have "grown s1 st'" using Cons.prems(2) by (intro Cons.IH [OF s1(2)]) auto
  ultimately show ?case by (rule grown_trans)
qed simp

lemma print_array_grown: "print_array env name r st = Inr st' \<Longrightarrow> grown st st'"
  by (auto simp: print_array_def Let_def split: if_splits option.splits)

lemma print_pointer_grown: "print_pointer env name r st = Inr (b, st') \<Longrightarrow> grown st st'"
  by (auto simp: print_pointer_def Let_def split: if_splits option.splits)

lemma print_typedef_grown:
  assumes "\<And>a b s s'. rec a b s = Inr s' \<Longrightarrow> grown s s'"
    and "print_typedef rec env d r start st = Inr st'"
  shows "grown st st'"
  using assms(2)
  by (auto simp: print_typedef_def Let_def split: if_splits option.splits dest!: assms(1))

lemma blank_grown: "(\<And>s. r = Inr s \<Longrightarrow> grown st s) \<Longrightarrow> blank r = Inr st' \<Longrightarrow> grown st st'"
  by (auto simp: blank_def)

lemma print_resolved_grown:
  assumes "\<And>a b s s'. rec a b s = Inr s' \<Longrightarrow> grown s s'"
    and "print_resolved rec env d r start st = Inr st'"
  shows "grown st st'"
proof (cases "gen_tag_of (ge_graph env r)")
  case BaseType
  then show ?thesis using assms(2) by (auto simp: print_resolved_def Let_def blank_def)
next
  case (Tagged t)
  note pr = assms(2) [unfolded print_resolved_def Let_def Tagged]
  show ?thesis
  proof (cases t)
    case TagTypedef
    with pr have "blank (print_typedef rec env d r start st) = Inr st'" by simp
    then show ?thesis by (rule blank_grown [rotated]) (rule print_typedef_grown [OF assms(1)])
  next
    case TagArray
    with pr have "blank (print_array env (getName (ge_graph env d)) r st) = Inr st'" by simp
    then show ?thesis by (rule blank_grown [rotated]) (rule print_array_grown)
  next
    case TagPointer
    with pr show ?thesis
      by (auto simp: blank_def dest!: print_pointer_grown split: if_splits)
  next
    case TagUnion
    with pr show ?thesis
      by (auto simp: blank_def split: if_splits dest!: assms(1) elim: grown_trans)
  next
    case TagStructure
    with pr show ?thesis
      by (auto simp: blank_def split: if_splits dest!: assms(1) elim: grown_trans)
  qed (use pr in \<open>auto simp: blank_def\<close>)
qed

text \<open>What \<open>print\<close> writes starts with the header of the class it opens.\<close>

definition opened :: "gen_env \<Rightarrow> nat \<Rightarrow> bool \<Rightarrow> gen_state \<Rightarrow> gen_state" where
  "opened env d start st =
     (if opens_class env d start then put (class_header env (getName (ge_graph env d))) st else st)"

lemma grown_opened: "grown st (opened env d start st)"
  by (simp add: opened_def grown_put)

lemma print_grown: "print fuel env d start st = Inr st' \<Longrightarrow> grown (opened env d start st) st'"
proof (induction fuel arbitrary: d start st st')
  case (Suc n)
  have rec: "print n env d b s = Inr s' \<Longrightarrow> grown s s'" for d b s s'
    using Suc.IH grown_opened by (rule grown_trans [rotated])
  have m: "print_members (print n env) env d b s = Inr s' \<Longrightarrow> grown s s'" for b s s'
    unfolding print_members_def Let_def by (erule grown_each [rotated]) (auto split: if_splits dest: rec)
  have q: "print_resolved (print n env) env d r b (put x s) = Inr s' \<Longrightarrow> grown s s'" for r b x s s'
    by (rule grown_put_l) (rule print_resolved_grown [OF rec])
  let ?s = "opened env d start st"
  from Suc.prems obtain R where R: "resolve env (Some d) = Inr R"
    by (auto simp: print.simps(2) Let_def)
  show ?case
  proof (cases R)
    case None
    then show ?thesis using Suc.prems R
      by (auto simp: print.simps(2) Let_def blank_def opened_def [symmetric])
  next
    case (Some r)
    then show ?thesis using Suc.prems R
      by (auto simp: print.simps(2) Let_def opened_def [symmetric] dest: m q split: if_splits)
  qed
qed simp

lemma print_dot_grown: "print_dot fuel env d st = Inr st' \<Longrightarrow> grown st st'"
proof (induction fuel arbitrary: d st st')
  case (Suc n)
  have f: "rbind (print_dot n env e s) (\<lambda>s'. Inr (put (dot_edge env d e) s')) = Inr s' \<Longrightarrow> grown s s'"
    for e s s' by (auto dest: Suc.IH)
  have ea: "each (\<lambda>e st'. if isDIType (ge_graph env e)
      then rbind (print_dot n env e st') (\<lambda>s'. Inr (put (dot_edge env d e) s')) else Inr st') es s = Inr s' \<Longrightarrow>
    grown s s'" for es s s'
    by (erule grown_each [rotated]) (auto split: if_splits dest: Suc.IH)
  show ?case using Suc.prems
    by (auto simp: print_dot.simps(2) Let_def split: if_splits option.splits dest!: Suc.IH ea
        ; meson grown_trans grown_put_l grown_put_r)
qed simp

text \<open>\<open>print_dot\<close> follows the array's element type, the elements and the base type.\<close>

definition dot_targets :: "gen_env \<Rightarrow> nat \<Rightarrow> nat list" where
  "dot_targets env d =
     (let g = ge_graph env in
      (if isComposite (g d)
       then (if getTag (g d) = TagArray then opt_list (getBaseType (g d)) else []) @
         filter (\<lambda>e. isDIType (g e)) (getElements (g d))
       else []) @
      (if isDerived (g d) then opt_list (getBaseType (g d)) else []))"

definition dot_node :: "gen_env \<Rightarrow> nat \<Rightarrow> gen_state \<Rightarrow> gen_state" where
  "dot_node env d st =
     (let name = getName (ge_graph env d) in
      put (quote @ ge_ptr env d @ quote @ ''[label='' @ quote @ ge_tag env d @
           [CHR 0x5C, CHR ''n''] @ name @ quote @ '']'' @ nl)
        (if name \<noteq> '''' then st\<lparr>gs_done2 := gs_done2 st @ [name]\<rparr> else st))"

lemma each_opt_list: "each f (opt_list b) s = (case b of None \<Rightarrow> Inr s | Some x \<Rightarrow> f x s)"
  by (cases b; simp; cases "f (the b) s"; simp)

lemma rbind_Inr_id: "rbind m Inr = m"
  by (cases m) simp_all

lemma print_dot_Suc:
  "print_dot (Suc n) env d st =
    (if getName (ge_graph env d) \<in> set (gs_done2 st) then Inr st
     else each (\<lambda>t s. rbind (print_dot n env t s) (\<lambda>s'. Inr (put (dot_edge env d t) s')))
       (dot_targets env d) (dot_node env d st))"
proof -
  let ?g = "ge_graph env" and ?f = "\<lambda>t s. rbind (print_dot n env t s) (\<lambda>s'. Inr (put (dot_edge env d t) s'))"
  have e: "each (\<lambda>e s. if isDIType (?g e) then ?f e s else Inr s) es = each ?f (filter (\<lambda>e. isDIType (?g e)) es)"
    for es using each_filter [of "\<lambda>e. isDIType (?g e)" ?f "\<lambda>e. e" es] by (simp only: list.map_ident)
  show ?thesis
    unfolding print_dot.simps(2) dot_targets_def dot_node_def Let_def e
    by (cases "?g d") (auto simp: each_append each_opt_list rbind_Inr_id split: option.splits)
qed

text \<open>The two searches are marked searches.\<close>

definition enter_type :: "gen_env \<Rightarrow> nat \<Rightarrow> gen_state \<Rightarrow> gen_state" where
  "enter_type env d st =
     (if getName (ge_graph env d) \<noteq> '''' then st\<lparr>gs_done := gs_done st @ [getName (ge_graph env d)]\<rparr> else st)"

definition finish_type :: "nat \<Rightarrow> gen_env \<Rightarrow> nat \<Rightarrow> gen_state \<Rightarrow> gen_state res" where
  "finish_type pf env d st =
     (if getName (ge_graph env d) \<noteq> '''' then emit_type pf env d (put nl st) else Inr (put nl st))"

lemma generate_struct_Suc:
  assumes "resolves_ok env"
  shows "generate_struct (Suc n) pf env (Some d) st =
    (if getName (ge_graph env d) \<in> set (gs_done st) then Inr st
     else rbind (each (\<lambda>t. generate_struct n pf env (Some t)) (needs env d) (enter_type env d st))
       (finish_type pf env d))"
proof -
  have "rbind (rbind m (\<lambda>st'. Inr (put nl st'))) f = rbind m (\<lambda>st'. f (put nl st'))"
    for m and f :: "gen_state \<Rightarrow> gen_state res" by (cases m) simp_all
  then show ?thesis
    by (simp add: generate_struct.simps(3) Let_def resolve2_eq [OF assms] enter_type_def
        finish_type_def [abs_def])
qed

lemma emit_type_done: "emit_type pf env d st = Inr st' \<Longrightarrow> gs_done st' = gs_done st"
  by (auto simp: emit_type_def Let_def grown_def opened_def put_def dest!: print_grown print_dot_grown
      split: if_splits)

interpretation dot: marked_search True "\<lambda>n d. print_dot n env d" "\<lambda>st. set (gs_done2 st)"
  "\<lambda>d. getName (ge_graph env d)" "dot_targets env" "dot_node env"
  "\<lambda>d t. put (dot_edge env d t)" "\<lambda>d st. Inr st"
  for env
proof unfold_locales
  show "print_dot 0 env d st = Inl OutOfFuel" for d st by simp
  show "set (gs_done2 (dot_node env d st)) =
    (if getName (ge_graph env d) = [] then set (gs_done2 st)
     else insert (getName (ge_graph env d)) (set (gs_done2 st)))" for d st
    by (simp add: dot_node_def Let_def put_def)
  show "set (gs_done2 (put (dot_edge env d t) st)) = set (gs_done2 st)" for d t st
    by (simp add: put_def)
qed (simp_all add: print_dot_Suc rbind_Inr_id)

text \<open>The comment and the first lines of the class that a type with a name gets.\<close>

definition type_text :: "gen_env \<Rightarrow> nat \<Rightarrow> string" where
  "type_text env d =
     ''# '' @ ge_show env d @ nl @
     (case ge_struct env (''struct.'' @ getName (ge_graph env d)) of None \<Rightarrow> '''' | Some ST \<Rightarrow> ''# '' @ ST @ nl) @
     color env c_reset @
     (if opens_class env d True then class_header env (getName (ge_graph env d)) else '''')"

definition written :: "gen_env \<Rightarrow> gen_state \<Rightarrow> nat \<Rightarrow> bool" where
  "written env st d \<longleftrightarrow> (\<exists>a b. gs_out st = a @ type_text env d @ b)"

lemma written_append: "written env st d \<Longrightarrow> gs_out st' = gs_out st @ w \<Longrightarrow> written env st' d"
  unfolding written_def by (metis append.assoc)

lemma emit_type_out:
  assumes "emit_type pf env d st = Inr st'"
  shows "written env st' d" "\<exists>w. gs_out st' = gs_out st @ w"
proof -
  let ?q = "quote @ quote @ quote @ nl"
  let ?t = "''# '' @ ge_show env d @ nl @
      (case ge_struct env (''struct.'' @ getName (ge_graph env d)) of None \<Rightarrow> '''' | Some ST \<Rightarrow> ''# '' @ ST @ nl) @
      color env c_reset"
  obtain s1 where s1: "print_dot pf env d (put (color env c_black @ ?q @ ''digraph{ '' @ nl) st) = Inr s1"
      "print pf env d True (put (''} '' @ nl @ ?q @ ?t) s1) = Inr st'"
    using assms by (auto simp: emit_type_def Let_def)
  obtain v where v: "gs_out s1 = gs_out st @ v"
    using print_dot_grown [OF s1(1)] by (auto simp: grown_def put_def)
  obtain w where w: "gs_out st' = gs_out (opened env d True (put (''} '' @ nl @ ?q @ ?t) s1)) @ w"
    using print_grown [OF s1(2)] by (auto simp: grown_def)
  have "gs_out st' = (gs_out st @ v @ ''} '' @ nl @ ?q) @ type_text env d @ w"
    unfolding w type_text_def opened_def by (simp add: put_def v)
  then show "written env st' d" unfolding written_def by blast
  show "\<exists>w. gs_out st' = gs_out st @ w" unfolding w by (simp add: opened_def put_def v)
qed

interpretation gen: written_search "resolves_ok env" "\<lambda>n d. generate_struct n pf env (Some d)"
  "\<lambda>st. set (gs_done st)" "\<lambda>d. getName (ge_graph env d)" "needs env" "enter_type env"
  "\<lambda>d t st. st" "finish_type pf env" "written env"
  for env pf
proof unfold_locales
  show "generate_struct 0 pf env (Some d) st = Inl OutOfFuel" for d st by simp
  show "set (gs_done (enter_type env d st)) =
    (if getName (ge_graph env d) = [] then set (gs_done st)
     else insert (getName (ge_graph env d)) (set (gs_done st)))" for d st
    by (simp add: enter_type_def)
  show "written env st x \<Longrightarrow> written env (enter_type env d st) x" for d st x
    by (simp add: enter_type_def written_def)
  show "set (gs_done st') = set (gs_done st)" if "finish_type pf env d st = Inr st'" for d st st'
    using that emit_type_done [of pf env d "put nl st" st']
    by (auto simp: finish_type_def put_def split: if_splits)
  show "written env st' x" if "finish_type pf env d st = Inr st'" "written env st x" for d st st' x
  proof -
    have "\<exists>w. gs_out st' = gs_out st @ w"
      using that(1) emit_type_out(2) [of pf env d "put nl st" st']
      by (auto simp: finish_type_def put_def split: if_splits)
    with that(2) show ?thesis using written_append by blast
  qed
  show "written env st' d" if "finish_type pf env d st = Inr st'" "getName (ge_graph env d) \<noteq> []" for d st st'
    using that emit_type_out(1) by (auto simp: finish_type_def)
qed (simp_all add: generate_struct_Suc rbind_Inr_id)

section \<open>Fuel\<close>

text \<open>The types \<open>print\<close> calls itself for.\<close>

definition print_calls :: "gen_env \<Rightarrow> nat \<Rightarrow> nat list" where
  "print_calls env d =
     (let g = ge_graph env in
      if isComposite (g d) then filter (\<lambda>e. isDIType (g e) \<and> isDerived (g e)) (getElements (g d))
      else
        (case resolved env (Some d) of
           None \<Rightarrow> []
         | Some r \<Rightarrow>
             (case gen_tag_of (g r) of
                Tagged TagTypedef \<Rightarrow>
                  if isDerived (g r)
                  then filter (\<lambda>a. getName (g a) = '''') (opt_list (resolved env (getBaseType (g r)))) else []
              | Tagged TagUnion \<Rightarrow> if getName (g r) = '''' then [r] else []
              | Tagged TagStructure \<Rightarrow> if getName (g r) = '''' then [r] else []
              | _ \<Rightarrow> [])))"

text \<open>The printer divides by the size of an array's elements.\<close>

definition arrays_sized :: "gen_env \<Rightarrow> bool" where
  "arrays_sized env \<longleftrightarrow>
     (\<forall>d p. isComposite (ge_graph env d) \<and> getTag (ge_graph env d) = TagArray \<and>
        resolved env (getBaseType (ge_graph env d)) = Some p \<longrightarrow>
        \<not> (getTag (ge_graph env p) = TagPointer \<and> isComposite (ge_graph env p)) \<and>
        getSizeInBits (ge_graph env p) \<noteq> 0)"

text \<open>There is enough fuel; and there is no other error if \<open>a\<close>.\<close>

definition fed :: "bool \<Rightarrow> 'a res \<Rightarrow> bool" where
  "fed a r \<longleftrightarrow> r \<noteq> Inl OutOfFuel \<and> (a \<longrightarrow> \<not> isl r)"

lemma fed_simps [simp]: "fed a (Inr x)" "fed a (Inl e) \<longleftrightarrow> e \<noteq> OutOfFuel \<and> \<not> a"
  by (auto simp: fed_def)

lemma fed_rbind: "fed a m \<Longrightarrow> (\<And>x. m = Inr x \<Longrightarrow> fed a (f x)) \<Longrightarrow> fed a (rbind m f)"
  by (cases m) auto

lemma fed_blank: "fed a r \<Longrightarrow> fed a (blank r)"
  by (simp add: blank_def fed_rbind)

lemma fed_each: "(\<And>x s. x \<in> set xs \<Longrightarrow> fed a (f x s)) \<Longrightarrow> fed a (each f xs s)"
proof (induction xs arbitrary: s)
  case (Cons x xs)
  show ?case by (simp, rule fed_rbind) (simp_all add: Cons)
qed simp

lemma toBasicType_Inl: "toBasicType n g d = Inl e \<Longrightarrow> e = OutOfFuel"
  by (induction n g d rule: toBasicType.induct) (auto split: if_splits option.splits)

lemma fed_basic: "resolves_ok env \<Longrightarrow> fed a (toBasicType (ge_chain env) (ge_graph env) d)"
  using toBasicType_Inl [of "ge_chain env" "ge_graph env" d]
  by (cases "toBasicType (ge_chain env) (ge_graph env) d") (auto simp: resolves_ok_def)

lemma arrays_sizedD:
  assumes "arrays_sized env" and "isComposite (ge_graph env d)" and "getTag (ge_graph env d) = TagArray"
    and "getBaseType (ge_graph env d) = Some y" and "resolved env (Some y) = Some p"
  shows "\<not> (getTag (ge_graph env p) = TagPointer \<and> isComposite (ge_graph env p))"
    and "getSizeInBits (ge_graph env p) \<noteq> 0"
  using assms unfolding arrays_sized_def by (metis, metis)

lemma fed_array:
  assumes "resolves_ok env" and "a \<Longrightarrow> arrays_sized env" and "getTag (ge_graph env r) = TagArray"
  shows "fed a (print_array env name r st)"
proof (cases a)
  case False
  then show ?thesis
    by (auto simp: print_array_def Let_def resolve_eq [OF assms(1)] split: option.split if_split
        intro!: fed_rbind)
next
  case True
  note D = arrays_sizedD [OF assms(2) _ assms(3), OF True]
  show ?thesis
  proof (cases "isComposite (ge_graph env r) \<and> getBaseType (ge_graph env r) \<noteq> None")
    case True
    then obtain y where y: "isComposite (ge_graph env r)" "getBaseType (ge_graph env r) = Some y" by blast
    then show ?thesis using D [OF y]
      by (cases "resolved env (Some y)") (auto simp: print_array_def Let_def resolve_eq [OF assms(1)])
  qed (auto simp: print_array_def Let_def)
qed

lemma fed_pointer: "resolves_ok env \<Longrightarrow> fed a (print_pointer env name r st)"
  by (simp add: print_pointer_def Let_def resolve_eq split: option.split)

lemma fed_typedef:
  assumes "resolves_ok env"
    and "\<And>t b s. resolved env (getBaseType (ge_graph env r)) = Some t \<Longrightarrow> isDerived (ge_graph env r) \<Longrightarrow>
      getName (ge_graph env t) = [] \<Longrightarrow> fed a (rec t b s)"
  shows "fed a (print_typedef rec env d r start st)"
  using assms(2)
  by (auto simp: print_typedef_def Let_def resolve_eq [OF assms(1)] split: option.split if_split
      intro!: fed_rbind fed_basic [OF assms(1)])

lemma fed_resolved:
  assumes "resolves_ok env" and arr: "a \<Longrightarrow> arrays_sized env" and "resolved env (Some d) = Some r" and "\<not> isComposite (ge_graph env d)"
    and rec: "\<And>t b s. t \<in> set (print_calls env d) \<Longrightarrow> fed a (rec t b s)"
  shows "fed a (print_resolved rec env d r start st)"
proof (cases "gen_tag_of (ge_graph env r)")
  case BaseType
  then show ?thesis by (simp add: print_resolved_def Let_def fed_blank)
next
  case (Tagged t)
  have calls: "print_calls env d = (case t of
        TagTypedef \<Rightarrow> if isDerived (ge_graph env r)
          then filter (\<lambda>a. getName (ge_graph env a) = '''') (opt_list (resolved env (getBaseType (ge_graph env r))))
          else []
      | TagUnion \<Rightarrow> if getName (ge_graph env r) = '''' then [r] else []
      | TagStructure \<Rightarrow> if getName (ge_graph env r) = '''' then [r] else []
      | _ \<Rightarrow> [])"
    by (simp add: print_calls_def Let_def assms(3,4) Tagged split: di_tag.split)
  have su: "fed a (rbind (if isDerived (ge_graph env r) then rec r start st else Inr st)
      (\<lambda>st1. if isComposite (ge_graph env r) then rec r start st1 else Inr st1))"
    if "getName (ge_graph env r) = []" "t \<in> {TagUnion, TagStructure}"
    using that rec [of r] by (intro fed_rbind) (auto simp: calls split: if_splits)
  show ?thesis
  proof (cases t)
    case TagTypedef
    have "fed a (print_typedef rec env d r start st)"
      using rec by (intro fed_typedef [OF assms(1)]) (auto simp: calls TagTypedef)
    then show ?thesis by (simp add: print_resolved_def Let_def Tagged TagTypedef fed_blank)
  next
    case TagPointer
    have "fed a (print_pointer env (getName (ge_graph env d)) r st)" by (rule fed_pointer [OF assms(1)])
    then show ?thesis
      by (auto simp: print_resolved_def Let_def Tagged TagPointer intro!: fed_rbind fed_blank split: if_split)
  next
    case TagArray
    have "fed a (print_array env (getName (ge_graph env d)) r st)"
      using Tagged TagArray by (intro fed_array [OF assms(1) arr]) (auto simp: gen_tag_of_def split: if_splits)
    then show ?thesis by (simp add: print_resolved_def Let_def Tagged TagArray fed_blank)
  next
    case TagUnion
    then show ?thesis using su
      by (auto simp: print_resolved_def Let_def Tagged intro!: fed_blank fed_rbind [OF fed_basic [OF assms(1)]])
  next
    case TagStructure
    then show ?thesis using su
      by (auto simp: print_resolved_def Let_def Tagged intro!: fed_blank fed_rbind [OF fed_basic [OF assms(1)]])
  qed (simp_all add: print_resolved_def Let_def Tagged fed_blank)
qed

lemma print_enough:
  assumes "resolves_ok env" and arr: "a \<Longrightarrow> arrays_sized env" and "\<And>d t. t \<in> set (print_calls env d) \<Longrightarrow> rank t < rank d"
  shows "rank d < fuel \<Longrightarrow> fed a (print fuel env d start st)"
proof (induction fuel arbitrary: d start st)
  case (Suc n)
  have rec: "fed a (print n env t b s)" if "t \<in> set (print_calls env d)" for t b s
    using assms(3) [OF that] Suc.prems by (intro Suc.IH) simp
  have m: "fed a (print_members (print n env) env d b s)" if "isComposite (ge_graph env d)" for b s
    unfolding print_members_def Let_def
    by (rule fed_each) (use rec that in \<open>auto simp: print_calls_def Let_def\<close>)
  show ?case
    using m fed_resolved [OF assms(1) arr, where d = d and rec = "print n env"] rec
    by (auto simp: print.simps(2) Let_def resolve_eq [OF assms(1)] intro: fed_blank
        split: option.split if_split)
qed simp

text \<open>
  The graphs the generator returns for. \<open>ns\<close> has all names; a node without a name has a rank above
  those of the unnamed nodes it leads to, and so has one \<open>print\<close> calls itself from: C has no way to
  nest types without end except through a name.
\<close>

definition gen_ok :: "gen_env \<Rightarrow> string list \<Rightarrow> (nat \<Rightarrow> nat) \<Rightarrow> nat \<Rightarrow> bool" where
  "gen_ok env ns rank R \<longleftrightarrow>
     resolves_ok env \<and> (\<forall>d. rank d \<le> R \<and> getName (ge_graph env d) \<in> set ns) \<and>
     (\<forall>d. \<forall>t \<in> set (needs env d) \<union> set (dot_targets env d).
        getName (ge_graph env t) = [] \<longrightarrow> getName (ge_graph env d) \<noteq> [] \<or> rank t < rank d) \<and>
     (\<forall>d. \<forall>t \<in> set (print_calls env d). rank t < rank d)"

definition gen_fuel :: "string list \<Rightarrow> nat \<Rightarrow> nat" where
  "gen_fuel ns R = length ns * (R + 3) + R + 2"

lemma fed_dot:
  assumes "gen_ok env ns rank R" and "gen_fuel ns R \<le> pf"
  shows "fed a (print_dot pf env d st)"
proof -
  have "print_dot pf env d st \<noteq> Inl OutOfFuel"
  proof (rule dot.enough [where rank = rank and R = R and ns = ns])
    show "dot.need env ns rank R d (set (gs_done2 st)) \<le> pf"
      using assms dot.need_le [of rank d R env ns "set (gs_done2 st)"] by (auto simp: gen_ok_def gen_fuel_def)
  qed (use assms(1) in \<open>auto simp: gen_ok_def\<close>)
  moreover have "e = OutOfFuel" if "print_dot pf env d st = Inl e" for e
    by (rule dot.fails [where P = "\<lambda>e. e = OutOfFuel", OF _ _ _ that]) simp_all
  ultimately show ?thesis by (cases "print_dot pf env d st") auto
qed


lemma fed_emit:
  assumes "gen_ok env ns rank R" and "gen_fuel ns R \<le> pf" and "a \<Longrightarrow> arrays_sized env"
  shows "fed a (emit_type pf env d st)"
proof -
  have "rank d \<le> R" using assms(1) by (simp add: gen_ok_def)
  then have "rank d < pf" using assms(2) by (simp add: gen_fuel_def)
  then have "fed a (print pf env d True s)" for s
    using assms(1,3) by (intro print_enough [where rank = rank]) (auto simp: gen_ok_def)
  then show ?thesis by (auto simp: emit_type_def Let_def intro!: fed_rbind fed_dot [OF assms(1,2)])
qed

lemma fed_generate_struct:
  assumes "gen_ok env ns rank R" and "gen_fuel ns R \<le> pf" and "gen_fuel ns R \<le> fuel"
    and "a \<Longrightarrow> arrays_sized env"
  shows "fed a (generate_struct fuel pf env d st)"
proof (cases d)
  case (Some d')
  have fin: "fed a (finish_type pf env d s)" for d s
    using fed_emit [OF assms(1,2,4)] by (simp add: finish_type_def)
  have "generate_struct fuel pf env (Some d') st \<noteq> Inl OutOfFuel"
  proof (rule gen.enough [where rank = rank and R = R and ns = ns])
    show "gen.need env ns rank R d' (set (gs_done st)) \<le> fuel"
      using assms gen.need_le [of rank d' R env ns "set (gs_done st)"] by (auto simp: gen_ok_def gen_fuel_def)
    show "finish_type pf env d s \<noteq> Inl OutOfFuel" for d s
      using fin [of d s] by (simp add: fed_def)
  qed (use assms(1) in \<open>auto simp: gen_ok_def\<close>)
  moreover have "e = OutOfFuel" if "generate_struct fuel pf env (Some d') st = Inl e" "a" for e
  proof (rule gen.fails [where P = "\<lambda>e. e = OutOfFuel", OF _ _ _ that(1)])
    show "resolves_ok env" using assms(1) by (simp add: gen_ok_def)
    show "e = OutOfFuel" if "finish_type pf env d s = Inl e" for d s e
      using fin [of d s] that \<open>a\<close> by simp
  qed simp
  ultimately show ?thesis using Some by (cases "generate_struct fuel pf env (Some d') st") auto
qed simp

section \<open>What the generator does\<close>





definition is_class :: "di_node \<Rightarrow> bool" where
  "is_class n \<longleftrightarrow> isComposite n \<and> getTag n \<in> {TagStructure, TagUnion}"


















text \<open>
  C19. The generator returns. On debug information in which only types with a name close cycles and
  whose arrays have elements of known size, the generator of all structures of a module produces its
  output: with fuel linear in the number of names, neither the search for the types, nor the
  drawing of their graph, nor the printing of nested classes runs out of it, whatever the cycles
  between the types; and the program prints this output, all at once, and exits with 0.
\<close>

theorem generator_returns:
  assumes "gen_ok env ns rank R" and "arrays_sized env" and "gen_fuel ns R \<le> pf" and "gen_fuel ns R \<le> fuel"
  shows "\<exists>st'. generate fuel pf env types header structs = Inr st' \<and>
    (\<forall>can_create parse input out. parse input = Some (env, types, structs) \<longrightarrow> out = ''-'' \<or> can_create out \<longrightarrow>
       gen_main can_create parse fuel pf header input out = Inr (0, [(out, gs_out st')]))"
proof -
  have "fed True (generate fuel pf env types header structs)"
    unfolding generate_def Let_def generate_struct_named_def
    by (rule fed_each) (simp add: fed_generate_struct [OF assms(1,3,4)] assms(2))
  then obtain st' where "generate fuel pf env types header structs = Inr st'"
    by (cases "generate fuel pf env types header structs") auto
  then show ?thesis by (intro exI [of _ st']) (auto simp: gen_main_def)
qed




text \<open>
  A structure behind a qualifier is left out. Generating \<open>const struct n\<close> generates nothing: the qualifier
  resolves to the structure, but only a derived node has its base type generated. A field that points to
  it refers to the class all the same.
\<close>

theorem const_struct_missed:
  assumes "ge_graph env q = DIDerived TagOther '''' (Some s) 0" and "is_class (ge_graph env s)"
    and "ge_graph env p = DIDerived TagPointer '''' (Some q) bits"
    and "0 < ge_chain env" and "'''' \<notin> set (gs_done st)"
  shows "generate_struct (Suc fuel) pf env (Some q) st = Inr (put nl st)"
    and "print_pointer env name p st = Inr (True, put (color env c_green @ ''    '' @ name @
      '': PTR = field(default_factory=lambda: PTR('' @ getName (ge_graph env s) @ ''))'' @ color env c_reset @ nl) st)"
proof -
  obtain c where c: "ge_chain env = Suc c" using assms(4) by (cases "ge_chain env") auto
  obtain t n b es sz where s: "ge_graph env s = DIComposite t n b es sz" "t \<in> {TagStructure, TagUnion}"
    using assms(2) by (cases "ge_graph env s") (auto simp: is_class_def)
  have r: "resolve env (Some q) = Inr (Some s)"
    using s by (auto simp: resolve_def c resolveUntil.simps(2) resolve_kinds_def gen_tag_of_def assms(1))
  show "generate_struct (Suc fuel) pf env (Some q) st = Inr (put nl st)"
    using s assms(5) by (auto simp: generate_struct.simps(3) resolve2_def r assms(1) gen_tag_of_def)
  show "print_pointer env name p st = Inr (True, put (color env c_green @ ''    '' @ name @
      '': PTR = field(default_factory=lambda: PTR('' @ getName (ge_graph env s) @ ''))'' @ color env c_reset @ nl) st)"
    by (simp add: print_pointer_def Let_def assms(3) r)
qed



text \<open>
  An array of a typedef. A \<open>DIDerivedType\<close> for a typedef has no size of its own, so for a member that is an
  array of a typedef the printer divides the size of the array by zero.
\<close>

theorem array_of_typedef_divides_by_zero:
  assumes "ge_graph env e = DIDerived TagMember m (Some a) bits"
    and "ge_graph env a = DIComposite TagArray an (Some t) es asize"
    and "ge_graph env t = DIDerived TagTypedef tn tb 0" and "0 < ge_chain env"
  shows "print (Suc fuel) env e False st = Inl DivideByZero"
proof -
  obtain c where c: "ge_chain env = Suc c" using assms(4) by (cases "ge_chain env") auto
  have "resolve env (Some a) = Inr (Some a)" "resolve env (Some t) = Inr (Some t)"
    "resolve env (Some e) = Inr (Some a)"
    by (simp_all add: resolve_def c resolveUntil.simps(2) resolve_kinds_def gen_tag_of_def assms(1-3))
  then show ?thesis
    by (simp add: print.simps(2) Let_def opens_class_def assms(1-3) print_resolved_def gen_tag_of_def
        print_array_def blank_def)
qed

section \<open>An example\<close>

text \<open>
  A structure \<open>node\<close> with a pointer to a \<open>peer\<close> that points back, a value and an unnamed union; a
  typedef for an unnamed structure; and \<open>self\<close>, a typedef of a structure of that name with an array
  of the typedef.
\<close>

definition ex_nodes :: "di_node list" where
  "ex_nodes =
     [DIBasic ''char'' 8,
      DIComposite TagStructure ''node'' None [2, 3, 5] 24,
      DIDerived TagMember ''link'' (Some 4) 8,
      DIDerived TagMember ''val'' (Some 0) 8,
      DIDerived TagPointer [] (Some 6) 8,
      DIDerived TagMember ''u'' (Some 7) 8,
      DIComposite TagStructure ''peer'' None [8] 8,
      DIComposite TagUnion [] None [3] 8,
      DIDerived TagMember ''back'' (Some 9) 8,
      DIDerived TagPointer [] (Some 1) 8,
      DIDerived TagTypedef ''self'' (Some 11) 0,
      DIComposite TagStructure ''self'' None [12] 16,
      DIDerived TagMember ''arr'' (Some 13) 16,
      DIComposite TagArray [] (Some 14) [15] 16,
      DIDerived TagTypedef ''byte'' (Some 0) 8]"

definition ex_graph :: di_graph where
  "ex_graph d = (if d < 15 then ex_nodes ! d else DINoType)"

definition ex_env :: gen_env where
  "ex_env = \<lparr>ge_graph = ex_graph, ge_color = False, ge_show = (\<lambda>_. ''!''), ge_ptr = (\<lambda>_. ''0''),
     ge_tag = (\<lambda>_. ''T''), ge_struct = (\<lambda>_. None), ge_chain = 3\<rparr>"

definition ex_rank :: "nat \<Rightarrow> nat" where
  "ex_rank d = (if d < 15 then [0, 3, 0, 0, 0, 2, 1, 1, 0, 0, 1, 1, 0, 0, 0] ! d else 0)"

definition ex_names :: "string list" where
  "ex_names = [] # map getName ex_nodes"

lemma ex_beyond:
  assumes "15 \<le> d"
  shows "resolve ex_env (Some d) = Inr None" "toBasicType (ge_chain ex_env) (ge_graph ex_env) (Some d) = Inr None"
    "needs ex_env d = []" "dot_targets ex_env d = []" "print_calls ex_env d = []" "ge_graph ex_env d = DINoType"
proof -
  have g: "ge_graph ex_env d = DINoType" using assms by (simp add: ex_env_def ex_graph_def)
  show r: "resolve ex_env (Some d) = Inr None"
    by (simp add: resolve_def resolveUntil.simps(2) resolve_kinds_def gen_tag_of_def g)
  show "toBasicType (ge_chain ex_env) (ge_graph ex_env) (Some d) = Inr None"
    using g by (simp add: ex_env_def numeral_3_eq_3)
  show "needs ex_env d = []" "dot_targets ex_env d = []" "print_calls ex_env d = []" "ge_graph ex_env d = DINoType"
    by (simp_all add: needs_def resolved_def r dot_targets_def print_calls_def g)
qed

definition ex_fed :: "nat option \<Rightarrow> bool" where
  "ex_fed d \<longleftrightarrow> (case resolve ex_env d of Inl e \<Rightarrow> False | Inr r \<Rightarrow> True) \<and>
     (case toBasicType (ge_chain ex_env) (ge_graph ex_env) d of Inl e \<Rightarrow> False | Inr r \<Rightarrow> True)"

lemma ex_resolves: "resolves_ok ex_env"
proof -
  have "list_all (\<lambda>d. ex_fed (Some d)) [0..<15]" by code_simp
  then have "ex_fed (Some d)" for d
    using ex_beyond [of d] by (cases "d < 15") (simp_all add: list_all_iff ex_fed_def)
  moreover have "ex_fed None" by code_simp
  ultimately have "ex_fed d" for d by (cases d) simp_all
  then have "resolve ex_env d \<noteq> Inl OutOfFuel \<and>
      toBasicType (ge_chain ex_env) (ge_graph ex_env) d \<noteq> Inl OutOfFuel" for d
    by (metis ex_fed_def sum.simps(5))
  then show ?thesis by (simp add: resolves_ok_def)
qed

lemma ex_ok: "gen_ok ex_env ex_names ex_rank 3"
proof -
  have "list_all (\<lambda>d. ex_rank d \<le> 3 \<and> getName (ge_graph ex_env d) \<in> set ex_names \<and>
      list_all (\<lambda>t. getName (ge_graph ex_env t) = [] \<longrightarrow> getName (ge_graph ex_env d) \<noteq> [] \<or> ex_rank t < ex_rank d)
        (needs ex_env d @ dot_targets ex_env d) \<and>
      list_all (\<lambda>t. ex_rank t < ex_rank d) (print_calls ex_env d)) [0..<15]" by code_simp
  then have a: "ex_rank d \<le> 3 \<and> getName (ge_graph ex_env d) \<in> set ex_names \<and>
      (\<forall>t \<in> set (needs ex_env d) \<union> set (dot_targets ex_env d).
        getName (ge_graph ex_env t) = [] \<longrightarrow> getName (ge_graph ex_env d) \<noteq> [] \<or> ex_rank t < ex_rank d) \<and>
      (\<forall>t \<in> set (print_calls ex_env d). ex_rank t < ex_rank d)" if "d < 15" for d
    using that by (simp add: list_all_iff ball_Un)
  have b: "ex_rank d \<le> 3 \<and> getName (ge_graph ex_env d) \<in> set ex_names" if "15 \<le> d" for d
    using that ex_beyond [OF that] by (simp add: ex_rank_def ex_names_def)
  show ?thesis
    unfolding gen_ok_def using ex_resolves a b ex_beyond by (metis empty_iff linorder_not_le list.set(1) Un_iff)
qed

definition ex_sized_at :: "nat \<Rightarrow> bool" where
  "ex_sized_at d \<longleftrightarrow>
     (if isComposite (ge_graph ex_env d) then
        (if getTag (ge_graph ex_env d) = TagArray then
           (case resolved ex_env (getBaseType (ge_graph ex_env d)) of
              None \<Rightarrow> True
            | Some p \<Rightarrow> \<not> isComposite (ge_graph ex_env p) \<and> getSizeInBits (ge_graph ex_env p) \<noteq> 0)
         else True)
      else True)"

lemma ex_sized: "arrays_sized ex_env"
proof -
  have "list_all ex_sized_at [0..<15]" by code_simp
  then have "ex_sized_at d" if "d < 15" for d using that unfolding list_all_iff by simp
  moreover have "ex_sized_at d" if "\<not> d < 15" for d
    using that by (simp add: ex_sized_at_def ex_beyond(6))
  ultimately have at: "ex_sized_at d" for d by blast
  show ?thesis
    unfolding arrays_sized_def
  proof (intro allI impI)
    fix d p
    assume "isComposite (ge_graph ex_env d) \<and> getTag (ge_graph ex_env d) = TagArray \<and>
      resolved ex_env (getBaseType (ge_graph ex_env d)) = Some p"
    with at [of d] show "\<not> (getTag (ge_graph ex_env p) = TagPointer \<and> isComposite (ge_graph ex_env p)) \<and>
      getSizeInBits (ge_graph ex_env p) \<noteq> 0" by (simp add: ex_sized_at_def)
  qed
qed

lemma ex_fuel: "gen_fuel ex_names 3 = 101"
  by code_simp

theorem generator_returns_witness:
  "\<exists>text. gen_main (\<lambda>f. False) (\<lambda>f. Some (ex_env, [1, 10, 11], [''struct.node'', ''struct.self''])) 101 101 ''#''
     ''a.ll'' ''-'' = Inr (0, [(''-'', text)])"
  using generator_returns [OF ex_ok ex_sized, of 101 101 "[1, 10, 11]" "''#''" "[''struct.node'', ''struct.self'']"]
  by (auto simp: ex_fuel)


theorem array_of_typedef_divides_by_zero_witness:
  "print 1 (ex_env\<lparr>ge_graph := ex_graph(14 := DIDerived TagTypedef ''byte'' (Some 0) 0)\<rparr>) 12 False
     \<lparr>gs_out = [], gs_done = [], gs_done2 = []\<rparr> = Inl DivideByZero"
proof -
  let ?env = "ex_env\<lparr>ge_graph := ex_graph(14 := DIDerived TagTypedef ''byte'' (Some 0) 0)\<rparr>"
  have "ge_graph ?env 12 = DIDerived TagMember ''arr'' (Some 13) 16"
    "ge_graph ?env 13 = DIComposite TagArray [] (Some 14) [15] 16"
    "ge_graph ?env 14 = DIDerived TagTypedef ''byte'' (Some 0) 0" "0 < ge_chain ?env"
    by code_simp+
  from array_of_typedef_divides_by_zero [OF this, of 0] show ?thesis by simp
qed

text \<open>A structure with a member of type \<open>const struct foo *\<close>: only the structure itself is generated.\<close>

definition const_env :: gen_env where
  "const_env = ex_env\<lparr>ge_graph := (\<lambda>d. if d < 6 then
     [DIComposite TagStructure ''holder'' None [1] 8, DIDerived TagMember ''p'' (Some 2) 8,
      DIDerived TagPointer [] (Some 3) 8, DIDerived TagOther [] (Some 4) 0,
      DIComposite TagStructure ''foo'' None [5] 8, DIDerived TagMember ''v'' None 8] ! d else DINoType)\<rparr>"

theorem const_struct_missed_witness:
  "generate_struct 1 1 const_env (Some 3) \<lparr>gs_out = [], gs_done = [''holder''], gs_done2 = []\<rparr> =
     Inr \<lparr>gs_out = nl, gs_done = [''holder''], gs_done2 = []\<rparr> \<and>
   (case generate_struct 9 9 const_env (Some 0) \<lparr>gs_out = [], gs_done = [], gs_done2 = []\<rparr> of
      Inl e \<Rightarrow> False | Inr st \<Rightarrow> gs_done st = [''holder''])"
proof -
  have g: "ge_graph const_env 3 = DIDerived TagOther '''' (Some 4) 0" "is_class (ge_graph const_env 4)"
    "ge_graph const_env 2 = DIDerived TagPointer '''' (Some 3) 8" "0 < ge_chain const_env" by code_simp+
  have "case generate_struct 9 9 const_env (Some 0) \<lparr>gs_out = [], gs_done = [], gs_done2 = []\<rparr> of
      Inl e \<Rightarrow> False | Inr st \<Rightarrow> gs_done st = [''holder'']" by code_simp
  then show ?thesis using const_struct_missed(1) [OF g] by (simp add: put_def)
qed


end
