(* ===== verification/Reuse.thy ===== *)
theory Reuse
  imports FlowControl StructAccess InterpSetup
begin

text \<open>
  Using one interpreter again and again, as the main program does (\<open>libirx/irinterpreter2.cc\<close>):
  allocate a structure, run a function, reset. What is shown here puts the allocator, the run of
  a program and the reset together.
\<close>

section \<open>The loop of the main program\<close>

text \<open>
  One round; the printed address is its result. The state an exception in \<open>runFunction\<close> leaves is
  not modelled, so the model ends there.
\<close>

definition main_round ::
    "nat \<Rightarrow> nat \<Rightarrow> irm_env \<Rightarrow> run_env \<Rightarrow> safe_malloc \<Rightarrow> flow_control \<Rightarrow>
     irm_caches \<times> iglobal list \<times> run_state \<Rightarrow> (u64 \<times> irm_caches \<times> iglobal list \<times> run_state) res" where
  "main_round fuel fu e env sm fc = (\<lambda>(c, gs, s).
     rbind (structAlloc e (re_ends env) sm ''struct.k_thread'' (c, s)) (\<lambda>(k_thread, c1, s1).
     rbind (runFunction fuel fu env fc ''sys_clock_driver_init'' [] s1) (\<lambda>(ok, st).
       case st of
         None \<Rightarrow> Inl (Throw ''exception in runFunction'')
       | Some s2 \<Rightarrow>
           rbind (resetExtraAllocations env gs s2) (\<lambda>(gs', s3).
             Inr (ia_vvptr k_thread, c1, gs', s3)))))"

fun main_loop ::
    "nat \<Rightarrow> nat \<Rightarrow> nat \<Rightarrow> irm_env \<Rightarrow> run_env \<Rightarrow> safe_malloc \<Rightarrow> flow_control \<Rightarrow>
     irm_caches \<times> iglobal list \<times> run_state \<Rightarrow> (u64 list \<times> irm_caches \<times> iglobal list \<times> run_state) res" where
  "main_loop 0 fuel fu e env sm fc st = Inr ([], st)"
| "main_loop (Suc i) fuel fu e env sm fc st =
     rbind (main_round fuel fu e env sm fc st) (\<lambda>(v, st1).
     rbind (main_loop i fuel fu e env sm fc st1) (\<lambda>(vs, st2). Inr (v # vs, st2)))"

section \<open>Running a program leaves the allocations alone\<close>

text \<open>
  LLVM's own execution of an instruction and its call of a function know nothing of the allocator, and
  do not move a global.
\<close>

definition same_allocs :: "run_state \<Rightarrow> run_state \<Rightarrow> bool" where
  "same_allocs s s' \<longleftrightarrow> allocator s' = allocator s \<and> tracked s' = tracked s \<and> gaddr s' = gaddr s"

definition keeps_allocs :: "run_env \<Rightarrow> bool" where
  "keeps_allocs env \<longleftrightarrow>
     (\<forall>I s s'. visit env I s = Inr s' \<longrightarrow> same_allocs s s') \<and>
     (\<forall>n args s s'. callFunction env n args s = Inr s' \<longrightarrow> same_allocs s s')"

lemma keeps_allocsD:
  assumes "keeps_allocs env"
  shows "visit env I s = Inr s' \<Longrightarrow> same_allocs s s'"
    and "callFunction env n args s = Inr s' \<Longrightarrow> same_allocs s s'"
  using assms by (auto simp: keeps_allocs_def)

lemma same_allocs_refl [simp]: "same_allocs s s"
  by (simp add: same_allocs_def)

lemma same_allocs_trans: "same_allocs s s1 \<Longrightarrow> same_allocs s1 s2 \<Longrightarrow> same_allocs s s2"
  by (simp add: same_allocs_def)

lemma same_allocs_simps [simp]:
  "same_allocs s (update_back f s') = same_allocs s s'"
  "same_allocs (update_back f s) s' = same_allocs s s'"
  "same_allocs s (s'\<lparr>constants := cs\<rparr>) = same_allocs s s'"
  "same_allocs (s\<lparr>constants := cs\<rparr>) s' = same_allocs s s'"
  "same_allocs s (s'\<lparr>imem := m\<rparr>) = same_allocs s s'"
  "same_allocs (s\<lparr>running := r\<rparr>) s' = same_allocs s s'"
  by (simp_all add: same_allocs_def update_back_def)

lemma visit_store_keeps: "visit_store env I s = Inr s' \<Longrightarrow> same_allocs s s'"
  by (auto simp: visit_store_def visitStoreInst_def)

lemma visit_load_keeps: "visit_load env I s = Inr s' \<Longrightarrow> same_allocs s s'"
  by (auto simp: visit_load_def)

lemma visitCallBase_keeps:
  assumes "keeps_allocs env"
  shows "visitCallBase env I s = Inr s' \<Longrightarrow> same_allocs s s'"
  by (auto simp: visitCallBase_def Let_def split: if_splits option.splits call_ty.splits
      dest!: keeps_allocsD(1) [OF assms])

lemma runInstruction_keeps:
  assumes "keeps_allocs env"
  shows "runInstruction fu env fc I s = Inr (b, s') \<Longrightarrow> same_allocs s s'"
  by (auto simp: runInstruction_def Let_def split: if_splits opcode.splits option.splits prod.splits
      dest!: keeps_allocsD(1) [OF assms] visit_load_keeps visit_store_keeps visitCallBase_keeps [OF assms])

lemma run_keeps:
  assumes "keeps_allocs env"
  shows "run fuel fu env fc s = Inr s' \<Longrightarrow> same_allocs s s'"
proof (induction fuel arbitrary: s)
  case 0
  then show ?case by (simp add: run.simps [of 0] split: if_splits)
next
  case (Suc n)
  show ?case
  proof (cases "ECStack s = []")
    case True
    with Suc.prems show ?thesis by (simp add: run.simps [of "Suc n"])
  next
    case False
    then obtain I "is" where nx: "fr_next (last (ECStack s)) = I # is"
      using Suc.prems by (auto simp: run.simps [of "Suc n"] split: list.splits)
    let ?s1 = "(update_back (\<lambda>f. f\<lparr>fr_next := is\<rparr>) s)\<lparr>running := Some I\<rparr>"
    obtain b s2 where st: "runInstruction fu env fc I ?s1 = Inr (b, s2)"
      and rest: "(if b then Inr s2 else run n fu env fc s2) = Inr s'"
      using Suc.prems False nx by (auto simp: run.simps [of "Suc n"] Let_def)
    have "same_allocs s s2" using runInstruction_keeps [OF assms st] by simp
    moreover have "same_allocs s2 s'" using rest Suc.IH by (cases b) auto
    ultimately show ?thesis by (rule same_allocs_trans)
  qed
qed

lemma runFunction_keeps:
  assumes "keeps_allocs env" and "runFunction fuel fu env fc name args s = Inr (ok, Some s')"
  shows "same_allocs s s'"
  using assms(2)
  by (auto simp: runFunction_def resume_def split: option.splits sum.splits cpp_error.splits
      dest!: keeps_allocsD(2) [OF assms(1)] run_keeps [OF assms(1)] elim: same_allocs_trans)


section \<open>A round\<close>

lemma run_more_fields:
  "interp.more (s'::run_state) = interp.more s \<Longrightarrow>
   ECStack s' = ECStack s \<and> ExitValue s' = ExitValue s \<and> constants s' = constants s"
  by (cases s; cases s') simp

lemma reset_allocs_same:
  assumes "same_allocs s s'" and "reset_allocs er s = Inr t"
  shows "\<exists>t'. reset_allocs er s' = Inr t' \<and> same_allocs t t'"
  using assms by (auto simp: reset_allocs_def same_allocs_def)

text \<open>A full reset after a run of allocations and anything else that leaves the allocator alone.\<close>

lemma reset_after_mallocs:
  assumes "ma_inv (allocator s) bs" and "end_reads_ok (re_ends env)" and "safe_malloc_ok sm"
    and "ma_vma (allocator s) = vma_freeze g" and "tracked s = []"
    and "\<forall>sz \<in> set szs. vma_fits sz g" and "my_mallocs (re_ends env) sm szs s = Inr (rs, s1)"
    and "same_allocs s1 s2" and "resetExtraAllocations env gs s2 = Inr (gs', s3)"
  shows "ECStack s3 = [] \<and> ExitValue s3 = default_gval \<and> tracked s3 = [] \<and>
    ma_inv (allocator s3) bs \<and> ma_vma (allocator s3) = ma_vma (allocator s) \<and>
    set (host_live (allocator s3)) = set (host_live (allocator s)) \<and>
    gen_allocs vma_next szs (ma_vma (allocator s)) = Inr (map ia_vvptr rs, ma_vma (allocator s1))"
proof -
  obtain t where t: "reset_allocs (re_ends env) s1 = Inr t" "ma_inv (allocator t) bs"
    "ma_vma (allocator t) = ma_vma (allocator s)" "tracked t = []"
    "set (host_live (allocator t)) = set (host_live (allocator s))"
    and gen: "gen_allocs vma_next szs (ma_vma (allocator s)) =
      Inr (map ia_vvptr rs, ma_vma (allocator s1))"
    using my_mallocs_reset [OF assms(1-7)] by blast
  obtain t' where t': "reset_allocs (re_ends env) s2 = Inr t'" "same_allocs t t'"
    using reset_allocs_same [OF assms(8) t(1)] by blast
  let ?t = "t'\<lparr>ECStack := [], ExitValue := default_gval\<rparr>"
  have "InitializeGlobals (re_llvm env) (re_ends env) Map.empty gs ?t = Inr (gs', s3)"
    using assms(9) t'(1) by (simp add: resetExtraAllocations_def)
  from InitializeGlobals_frame [OF this] run_more_fields [of s3 ?t] t t'(2) gen
  show ?thesis by (simp add: same_allocs_def)
qed

text \<open>The size of a structure is the same when it is asked for again.\<close>

lemma struct_size_again:
  assumes "irx_struct_get_size e name c = (sz, c')"
  shows "fst (irx_struct_get_size e name c') = sz"
  using assms
  by (auto simp: irx_struct_get_size_def getTypeByName_def Let_def split: option.splits prod.splits)

lemma main_round_InrE:
  assumes "main_round fuel fu e env sm fc (c, gs, s) = Inr (v, c', gs', s')"
  obtains r s1 ok s2 where "my_malloc (re_ends env) sm (fst (irx_struct_get_size e ''struct.k_thread'' c)) s = Inr (r, s1)"
    and "runFunction fuel fu env fc ''sys_clock_driver_init'' [] s1 = Inr (ok, Some s2)"
    and "resetExtraAllocations env gs s2 = Inr (gs', s')" and "v = ia_vvptr r"
    and "c' = snd (irx_struct_get_size e ''struct.k_thread'' c)"
  using assms
  by (auto simp: main_round_def structAlloc_eq split_beta split: option.splits)

definition reusable :: "irm_env \<Rightarrow> blk list \<Rightarrow> vma \<Rightarrow> u64 list \<Rightarrow> irm_caches \<times> iglobal list \<times> run_state \<Rightarrow> bool" where
  "reusable e bs g hs = (\<lambda>(c, gs, s).
     ma_inv (allocator s) bs \<and> ma_vma (allocator s) = vma_freeze g \<and> tracked s = [] \<and>
     set (host_live (allocator s)) = set hs \<and>
     vma_fits (fst (irx_struct_get_size e ''struct.k_thread'' c)) g)"

lemma main_round_reusable:
  assumes "end_reads_ok (re_ends env)" and "safe_malloc_ok sm" and "keeps_allocs env"
    and "reusable e bs g hs st" and "main_round fuel fu e env sm fc st = Inr (v, st')"
  shows "v = lastAllocAddr g \<and> reusable e bs g hs st' \<and>
    \<not> isRunnable (snd (snd st')) \<and> getExitValue (snd (snd st')) = default_gval"
proof -
  obtain c gs s where st: "st = (c, gs, s)" by (cases st) auto
  obtain c' gs' s' where st': "st' = (c', gs', s')" by (cases st') auto
  let ?sz = "fst (irx_struct_get_size e ''struct.k_thread'' c)"
  have s: "ma_inv (allocator s) bs" "ma_vma (allocator s) = vma_freeze g" "tracked s = []"
    "set (host_live (allocator s)) = set hs" "vma_fits ?sz g"
    using assms(4) by (simp_all add: reusable_def st)
  obtain r s1 ok s2 where r: "my_malloc (re_ends env) sm ?sz s = Inr (r, s1)"
    "runFunction fuel fu env fc ''sys_clock_driver_init'' [] s1 = Inr (ok, Some s2)"
    "resetExtraAllocations env gs s2 = Inr (gs', s')" "v = ia_vvptr r"
    "c' = snd (irx_struct_get_size e ''struct.k_thread'' c)"
    using assms(5) unfolding st st' by (rule main_round_InrE)
  have "my_mallocs (re_ends env) sm [?sz] s = Inr ([r], s1)" using r(1) by simp
  note reset = reset_after_mallocs [OF s(1) assms(1,2) s(2,3) _ this runFunction_keeps [OF assms(3) r(2)] r(3)]
  have fits: "vma_fits ?sz (ma_vma (allocator s))" using s(5) by (simp add: s(2) vma_fits_def vma_freeze_def)
  obtain a where "ma_malloc (re_ends env) sm ?sz (allocator s) = Inr (r, a)"
    using r(1) by (auto simp: my_malloc_def)
  then have "ia_vvptr r = lastAllocAddr (ma_vma (allocator s))"
    by (rule ma_malloc_InrE [OF s(1) assms(1,2) fits]) simp
  then have "v = lastAllocAddr g" by (simp add: r(4) s(2) vma_freeze_def)
  moreover have "fst (irx_struct_get_size e ''struct.k_thread'' c') = ?sz"
    using struct_size_again [of e _ c ?sz c'] r(5) by simp
  ultimately show ?thesis using reset s by (simp add: reusable_def st' isRunnable_def getExitValue_def)
qed

lemma main_loop_Suc:
  assumes "main_loop (Suc i) fuel fu e env sm fc st = Inr (vs, st')"
  shows "\<exists>v st1 vs'. main_round fuel fu e env sm fc st = Inr (v, st1) \<and>
    main_loop i fuel fu e env sm fc st1 = Inr (vs', st') \<and> vs = v # vs'"
proof -
  obtain p where p: "main_round fuel fu e env sm fc st = Inr p" using assms by auto
  obtain v st1 where "p = (v, st1)" by (cases p)
  with p assms show ?thesis by auto
qed

lemma main_loop_reusable:
  assumes "end_reads_ok (re_ends env)" and "safe_malloc_ok sm" and "keeps_allocs env"
    and "reusable e bs g hs st" and "main_loop (Suc i) fuel fu e env sm fc st = Inr (vs, st')"
  shows "vs = replicate (Suc i) (lastAllocAddr g) \<and> reusable e bs g hs st' \<and>
    \<not> isRunnable (snd (snd st')) \<and> getExitValue (snd (snd st')) = default_gval"
  using assms(4,5)
proof (induction i arbitrary: st vs)
  case 0
  then obtain v where "vs = [v]" "main_round fuel fu e env sm fc st = Inr (v, st')" by auto
  with main_round_reusable [OF assms(1-3) 0(1)] show ?case by simp
next
  case (Suc i)
  then obtain v st1 vs' where r: "main_round fuel fu e env sm fc st = Inr (v, st1)"
    "main_loop (Suc i) fuel fu e env sm fc st1 = Inr (vs', st')" "vs = v # vs'"
    using main_loop_Suc by blast
  from main_round_reusable [OF assms(1-3) Suc.prems(1) r(1)] Suc.IH [OF _ r(2)] r(3) show ?case by simp
qed

text \<open>A round leaves every global at its place and ends by initialising all of them again.\<close>

definition globals_reset ::
    "run_env \<Rightarrow> iglobal list \<Rightarrow> run_state \<Rightarrow> iglobal list \<Rightarrow> run_state \<Rightarrow> bool" where
  "globals_reset env gs s gs' s' \<longleftrightarrow> gs' = gs \<and> gaddr s' = gaddr s \<and>
     (\<exists>s2. InitializeGlobals (re_llvm env) (re_ends env) Map.empty gs s2 = Inr (gs, s') \<and>
        gaddr s2 = gaddr s' \<and> allocator s2 = allocator s')"

lemma my_malloc_gaddr: "my_malloc er sm sz s = Inr (r, s') \<Longrightarrow> gaddr s' = gaddr (s :: 'a interp_scheme)"
  by (auto simp: my_malloc_def)

lemma main_round_globals:
  assumes "keeps_allocs env" and "main_round fuel fu e env sm fc (c, gs, s) = Inr (v, c', gs', s')"
  shows "globals_reset env gs s gs' s'"
proof -
  obtain r s1 ok s2 where r: "my_malloc (re_ends env) sm (fst (irx_struct_get_size e ''struct.k_thread'' c)) s = Inr (r, s1)"
    "runFunction fuel fu env fc ''sys_clock_driver_init'' [] s1 = Inr (ok, Some s2)"
    "resetExtraAllocations env gs s2 = Inr (gs', s')"
    using assms(2) by (rule main_round_InrE)
  then obtain t where t: "reset_allocs (re_ends env) s2 = Inr t"
    "InitializeGlobals (re_llvm env) (re_ends env) Map.empty gs (t\<lparr>ECStack := [], ExitValue := default_gval\<rparr>) =
      Inr (gs', s')"
    by (auto simp: resetExtraAllocations_def)
  have "gaddr t = gaddr s"
    using t(1) runFunction_keeps [OF assms(1) r(2)] my_malloc_gaddr [OF r(1)]
    by (auto simp: reset_allocs_def same_allocs_def)
  moreover have "gs' = gs" unfolding InitializeGlobals_flags [OF t(2)] by (simp add: map_idI)
  ultimately show ?thesis using InitializeGlobals_frame [OF t(2)] t(2) unfolding globals_reset_def
    by (intro conjI exI [of _ "t\<lparr>ECStack := [], ExitValue := default_gval\<rparr>"]) simp_all
qed

lemma main_loop_globals:
  assumes "keeps_allocs env"
  shows "main_loop (Suc i) fuel fu e env sm fc (c, gs, s) = Inr (vs, c', gs', s') \<Longrightarrow>
    globals_reset env gs s gs' s'"
proof (induction i arbitrary: c gs s vs)
  case 0
  then obtain v where "main_round fuel fu e env sm fc (c, gs, s) = Inr (v, c', gs', s')" by auto
  then show ?case by (rule main_round_globals [OF assms])
next
  case (Suc i)
  then obtain v st1 vs' where r: "main_round fuel fu e env sm fc (c, gs, s) = Inr (v, st1)"
    "main_loop (Suc i) fuel fu e env sm fc st1 = Inr (vs', c', gs', s')"
    using main_loop_Suc by blast
  obtain c1 gs1 s1 where st1: "st1 = (c1, gs1, s1)" by (cases st1) auto
  from main_round_globals [OF assms r(1) [unfolded st1]] Suc.IH [OF r(2) [unfolded st1]]
  show ?case by (auto simp: globals_reset_def)
qed

section \<open>Property\<close>

text \<open>
  One interpreter serves every round. From an interpreter as it is after its creation, the main
  program's rounds of allocating a structure, running a function and resetting all get the same
  interpreter address for their structure, and when the last round has returned there is nothing left
  to run, no exit value, no tracked block, and the allocator has its first state again: the same
  blocks, the same frozen generator and the same live host memory.
\<close>

theorem main_loop_reuses:
  assumes "ma_inv (allocator s) bs" and "ma_vma (allocator s) = vma_freeze g" and "tracked s = []"
    and "vma_fits (fst (irx_struct_get_size e ''struct.k_thread'' c)) g"
    and "end_reads_ok (re_ends env)" and "safe_malloc_ok sm" and "keeps_allocs env"
    and "main_loop (Suc i) fuel fu e env sm fc (c, gs, s) = Inr (vs, c', gs', s')"
  shows "vs = replicate (Suc i) (lastAllocAddr g) \<and> \<not> isRunnable s' \<and> getExitValue s' = default_gval \<and>
    tracked s' = [] \<and> ma_inv (allocator s') bs \<and> ma_vma (allocator s') = ma_vma (allocator s) \<and>
    set (host_live (allocator s')) = set (host_live (allocator s))"
proof -
  have "reusable e bs g (host_live (allocator s)) (c, gs, s)" using assms(1-4) by (simp add: reusable_def)
  from main_loop_reusable [OF assms(5-7) this assms(8)] show ?thesis by (simp add: reusable_def assms(2))
qed

text \<open>Two rounds: the function that is run calls one function, which ends the run.\<close>

definition loop_env :: run_env where
  "loop_env = call_env\<lparr>
     re_functions := [\<lparr>if_name = ''sys_clock_driver_init'', if_decl = False, if_ptr = 0x8000\<rparr>],
     callFunction := (\<lambda>n args s. Inr (s\<lparr>ECStack := [main_frame]\<rparr>))\<rparr>"

definition loop_structs :: irm_env where
  "loop_structs = \<lparr>im_llvm = packed_env, im_di = (\<lambda>d. DINoType), im_types = [],
     im_structs = [MStruct ''struct.k_thread'' [MInt 32, MInt 32]], im_identical = (\<lambda>s t. True), im_fuel = 1\<rparr>"

lemma loop_env_keeps: "keeps_allocs loop_env"
  by (auto simp: keeps_allocs_def loop_env_def call_env_def same_allocs_def)

theorem main_loop_reuses_witness:
  "\<exists>c gs s. main_loop 2 2 0 loop_structs loop_env three_addrs \<lparr>fc_stop = [], fc_skip = [], fc_print = False\<rparr>
       (\<lparr>DICache = Map.empty, STCache = Map.empty\<rparr>, [], two_calls\<lparr>allocator := ma_freeze one_block, ECStack := []\<rparr>) =
       Inr ([0x5000000C, 0x5000000C], c, gs, s) \<and> tracked s = []"
proof -
  let ?g = "new_vma\<lparr>lastAllocAddr := 0x5000000C\<rparr>"
  let ?c = "\<lparr>DICache = Map.empty, STCache = Map.empty\<rparr>"
  let ?s = "two_calls\<lparr>allocator := ma_freeze one_block, ECStack := []\<rparr>"
  let ?fc = "\<lparr>fc_stop = [], fc_skip = [], fc_print = False\<rparr>"
  have inv: "ma_inv (allocator ?s) [blk0]" using ma_freeze_inv [OF one_block_inv] by simp
  have fz: "ma_vma (allocator ?s) = vma_freeze ?g" "tracked ?s = []"
    by (simp_all add: ma_freeze_def one_block_def two_calls_def)
  have "res_all (Inr (fst (irx_struct_get_size loop_structs ''struct.k_thread'' ?c))) (\<lambda>n. n = 8)" by code_simp
  then have fits: "vma_fits (fst (irx_struct_get_size loop_structs ''struct.k_thread'' ?c)) ?g"
    by (simp add: res_all_iff vma_fits_def new_vma_def)
  have er: "end_reads_ok (re_ends loop_env)" by (simp add: loop_env_def call_env_def junk_reads_ok)
  have "res_all (main_loop 2 2 0 loop_structs loop_env three_addrs ?fc (?c, [], ?s)) (\<lambda>r. True)" by code_simp
  then obtain vs c gs s where run: "main_loop (Suc 1) 2 0 loop_structs loop_env three_addrs ?fc (?c, [], ?s) =
      Inr (vs, c, gs, s)"
    unfolding res_all_iff by (metis Suc_1 prod_cases4)
  from main_loop_reuses [OF inv fz fits er three_addrs_ok loop_env_keeps run] run show ?thesis
    by (auto simp: Suc_1 [symmetric] simp del: main_loop.simps)
qed

end
