(* ===== verification/Program.thy ===== *)
theory Program
  imports Reuse ModuleLoad
begin

text \<open>
  The main program (\<open>libirx/irinterpreter2.cc\<close>) from its arguments to its last round: it loads the files,
  creates the interpreter for the module that results, and runs its rounds. The theory joins the module of
  \<open>ModuleLoad\<close> to the globals of \<open>InterpSetup\<close>.
\<close>

section \<open>The program\<close>

text \<open>
  What the program takes from LLVM: parser, verifier, linker and names for \<open>ModuleLoad\<close>; the constructor, the
  host memory, the data layout and the execution of instructions for the interpreter; and how the types,
  constants and thread-local flags of a module look to it.
\<close>

record tool =
  t_parse :: "string \<Rightarrow> lmod option"
  t_broken :: "lmod \<Rightarrow> bool"
  t_link :: "lmod \<Rightarrow> lmod \<Rightarrow> lmod"
  t_uniq :: "lmod \<Rightarrow> string \<Rightarrow> string"
  t_extern :: "string \<Rightarrow> bool"
  t_ty :: "lty \<Rightarrow> mty"
  t_cst :: "sconst \<Rightarrow> cst"
  t_tls :: "string \<Rightarrow> bool"
  t_construct :: "iglobal list \<Rightarrow> ifunction list \<times> run_state"
  t_live :: "u64 list"
  t_malloc :: safe_malloc
  t_structs :: irm_env
  t_run :: run_env

text \<open>The state of a new \<open>IRModuleInterpreter\<close>: an empty module, no requests and no caches.\<close>

definition new_flow_control :: flow_control where
  "new_flow_control = \<lparr>fc_stop = [], fc_skip = [], fc_print = False\<rparr>"

definition new_caches :: irm_caches where
  "new_caches = \<lparr>DICache = Map.empty, STCache = Map.empty\<rparr>"

definition module_globals :: "tool \<Rightarrow> lmod \<Rightarrow> iglobal list" where
  "module_globals t M =
     map (\<lambda>g. \<lparr>ig_name = g_name g, ig_decl = g_init g = None, ig_ty = t_ty t (g_ty g),
       ig_init = map_option (t_cst t) (g_init g), ig_tls = t_tls t (g_name g)\<rparr>) (m_globals M)"

text \<open>The result of loading the files is not looked at.\<close>

definition load_program :: "tool \<Rightarrow> string list \<Rightarrow> (bool \<times> lmod \<times> iglobal list \<times> run_state) res" where
  "load_program t InputFilenames =
     rbind (parseIRFiles (t_parse t) (t_broken t) (t_link t) (t_uniq t) (t_extern t) InputFilenames empty_module)
       (\<lambda>(ok, M).
     rbind (createInterpreter (re_llvm (t_run t)) (re_ends (t_run t)) (t_construct t) (t_live t)
       (module_globals t M)) (\<lambda>(M', gs, s).
     Inr (ok, M, gs, s)))"

definition run_main :: "nat \<Rightarrow> nat \<Rightarrow> tool \<Rightarrow> string list \<Rightarrow> (u64 list \<times> irm_caches \<times> iglobal list \<times> run_state) res" where
  "run_main fuel fu t InputFilenames =
     rbind (load_program t InputFilenames) (\<lambda>(ok, M, gs, s).
       main_loop 10 fuel fu (t_structs t) (t_run t) (t_malloc t) new_flow_control (new_caches, gs, s))"

section \<open>From the module to the memory\<close>

text \<open>The address LLVM's constructor gives a variable of a module.\<close>

definition home_of :: "tool \<Rightarrow> lmod \<Rightarrow> string \<Rightarrow> u64" where
  "home_of t M = gaddr (snd (t_construct t (snd (fakeSetIsThreadLocalGlobals (module_globals t M)))))"

definition tool_ok :: "tool \<Rightarrow> lmod \<Rightarrow> bool" where
  "tool_ok t M \<longleftrightarrow> end_reads_ok (re_ends (t_run t)) \<and> store_ok (re_llvm (t_run t)) \<and> safe_malloc_ok (t_malloc t) \<and>
     keeps_allocs (t_run t) \<and> inits_typed (re_llvm (t_run t)) (module_globals t M) \<and>
     construct_ok (re_llvm (t_run t)) (t_live t) (module_globals t M)
       (fst (t_construct t (snd (fakeSetIsThreadLocalGlobals (module_globals t M))))) (home_of t M)"

lemma loaded_defined:
  assumes "parseIRFiles parse broken link uniq ext files M = Inr (True, M')"
  shows "\<forall>g \<in> set (module_globals t M'). ext (ig_name g) \<longrightarrow> \<not> ig_decl g"
proof -
  obtain M3 where "M' = define_externals ext M3"
    using assms by (auto simp: parseIRFiles_def Let_def split: prod.splits if_splits)
  then show ?thesis by (auto simp: module_globals_def define_externals_def)
qed

text \<open>An interpreter as it is after its creation.\<close>

lemma load_program_created:
  assumes "load_program t files = Inr (ok, M, gs, s)" and "tool_ok t M"
  shows "gs = module_globals t M \<and> (\<exists>bs g. ma_inv (allocator s) bs \<and> ma_vma (allocator s) = vma_freeze g \<and>
    (\<forall>z. vma_fits z g = vma_fits z new_vma) \<and> tracked s = [] \<and>
    homed (re_llvm (t_run t)) (home_of t M) gs bs s)"
proof -
  let ?env = "re_llvm (t_run t)" and ?er = "re_ends (t_run t)" and ?gs = "module_globals t M"
  obtain fs s0 where c: "t_construct t (snd (fakeSetIsThreadLocalGlobals ?gs)) = (fs, s0)" by (rule prod.exhaust)
  have ok: "end_reads_ok ?er" "store_ok ?env" "inits_typed ?env ?gs" "construct_ok ?env (t_live t) ?gs fs (gaddr s0)"
    and home: "home_of t M = gaddr s0"
    using assms(2) c by (simp_all add: tool_ok_def home_of_def)
  obtain M' where cr: "createInterpreter ?env ?er (t_construct t) (t_live t) ?gs = Inr (M', gs, s)"
    using assms(1) by (auto simp: load_program_def)
  obtain bs and s1 s2 :: run_state where
    i: "InitializeGlobals ?env ?er (fst (fake_tls Map.empty ?gs)) (map faked ?gs) s1 = Inr (gs, s2)"
    and bs: "ma_inv (allocator s1) bs" and h: "homed ?env (gaddr s0) ?gs bs s1" and "imem s1 = imem s0"
    and fits: "\<And>z. vma_fits z (ma_vma (allocator s1)) = vma_fits z new_vma"
    and s: "allocator s = ma_freeze (allocator s1)" "gaddr s = gaddr s1" "tracked s = []" "imem s = imem s2"
    and "M' = restore_tls (fst (fake_tls Map.empty ?gs)) (map faked ?gs)"
    by (rule created_interpreter [OF ok(1) c ok(4) cr]) (rule that)
  have "distinct (map ig_name ?gs)" using ok(4) by (simp add: construct_ok_def)
  from faked_initialized(1) [OF refl i ok(2) this ok(3) h bs ok(1)] have "gs = ?gs" .
  with ma_freeze_inv [OF bs] fits homed_same [OF s(2) h] s(1,3) home show ?thesis
    by (intro conjI exI [of _ bs] exI [of _ "ma_vma (allocator s1)"]) (simp_all add: ma_freeze_def)
qed

text \<open>
  C16. The main program from its files to its last round. When it returns, it has handed out the same
  address for its structure in all ten rounds, nothing is left to run and no block tracked, every defined variable of the loaded module still
  translates to the memory LLVM gave it, and each variable that is not thread local and shares
  memory with no other holds the value of its initialiser again, whatever the functions that were run
  wrote to it. If the files could be loaded, no variable with a default is left without memory.
\<close>

theorem program_starts_every_round_alike:
  assumes "run_main fuel fu t files = Inr (vs, c', gs, s')"
    and "load_program t files = Inr (ok, M, gs0, s)" and "tool_ok t M"
    and "vma_fits (fst (irx_struct_get_size (t_structs t) ''struct.k_thread'' new_caches)) new_vma"
  shows "(\<exists>v. vs = replicate 10 v) \<and> gs = module_globals t M \<and> \<not> isRunnable s' \<and> tracked s' = [] \<and>
    (\<forall>g \<in> set gs. \<not> ig_decl g \<longrightarrow> (\<forall>off \<le> global_size (re_llvm (t_run t)) g.
       vvptr2vptr (re_ends (t_run t)) (allocator s') (gaddr s' (ig_name g) + off) =
         Inr (home_of t M (ig_name g) + off))) \<and>
    (\<forall>g \<in> set gs. \<forall>c. ig_init g = Some c \<longrightarrow> \<not> ig_tls g \<longrightarrow>
       own_memory (re_llvm (t_run t)) (home_of t M) gs g \<longrightarrow>
       initialised (re_llvm (t_run t)) (home_of t M) g c (imem s')) \<and>
    (ok \<longrightarrow> (\<forall>g \<in> set gs. t_extern t (ig_name g) \<longrightarrow> \<not> ig_decl g))"
proof -
  let ?env = "re_llvm (t_run t)" and ?er = "re_ends (t_run t)"
  have ok: "end_reads_ok ?er" "store_ok ?env" "safe_malloc_ok (t_malloc t)" "keeps_allocs (t_run t)"
    "inits_typed ?env (module_globals t M)" "distinct (map ig_name (module_globals t M))"
    using assms(3) by (simp_all add: tool_ok_def construct_ok_def)
  obtain bs g where gs0: "gs0 = module_globals t M" and inv: "ma_inv (allocator s) bs"
    "ma_vma (allocator s) = vma_freeze g" "\<forall>z. vma_fits z g = vma_fits z new_vma" "tracked s = []"
    and home: "homed ?env (home_of t M) gs0 bs s"
    using load_program_created [OF assms(2,3)] by blast
  have run: "main_loop (Suc 9) fuel fu (t_structs t) (t_run t) (t_malloc t) new_flow_control (new_caches, gs0, s) =
      Inr (vs, c', gs, s')"
    using assms(1,2) by (simp add: run_main_def del: main_loop.simps)
  have "reusable (t_structs t) bs g (host_live (allocator s)) (new_caches, gs0, s)"
    using inv assms(4) by (simp add: reusable_def)
  note loop = main_loop_reusable [OF ok(1,3,4) this run]
  then have bs': "ma_inv (allocator s') bs" by (simp add: reusable_def)
  note reset = main_loop_globals [OF ok(4) run]
  then obtain s2 where gs: "gs = gs0" and ga: "gaddr s' = gaddr s"
    and i: "InitializeGlobals ?env ?er Map.empty gs s2 = Inr (gs, s')"
    and s2: "gaddr s2 = gaddr s'" "allocator s2 = allocator s'"
    by (auto simp: globals_reset_def)
  have h2: "homed ?env (home_of t M) gs bs s2" "ma_inv (allocator s2) bs"
    using homed_same [OF _ home, of s2] ga s2 gs bs' by simp_all
  have "initialised ?env (home_of t M) g c (imem s')"
    if "g \<in> set gs" "ig_init g = Some c" "\<not> ig_tls g" "own_memory ?env (home_of t M) gs g" for g c
    using homed_contents [OF i ok(2) _ _ h2 ok(1) that(1,2,4)] that(3) ok(5,6) gs gs0 by simp
  moreover have "vvptr2vptr ?er (allocator s') (gaddr s' (ig_name g) + off) = Inr (home_of t M (ig_name g) + off)"
    if "g \<in> set gs" "\<not> ig_decl g" "off \<le> global_size ?env g" for g off
    using homed_translates [OF homed_same [OF ga home] bs' ok(1), of g off] that gs by (simp add: vvptr2vptr_def)
  moreover have "ok \<longrightarrow> (\<forall>g \<in> set gs. t_extern t (ig_name g) \<longrightarrow> \<not> ig_decl g)"
    using assms(2) loaded_defined [of "t_parse t" "t_broken t" "t_link t" "t_uniq t" "t_extern t" files empty_module]
    unfolding gs gs0 by (auto simp: load_program_def)
  moreover have "vs = replicate 10 (lastAllocAddr g)" "\<not> isRunnable s'" "tracked s' = []"
    using loop by (simp_all add: reusable_def)
  ultimately show ?thesis using gs gs0 by blast
qed

text \<open>
  A module with the variable \<open>initlevel\<close>, so that no sections are collected, and a variable \<open>x\<close> without a
  definition, which gets one; the function that is run ends at its first call.
\<close>

definition demo_module :: lmod where
  "demo_module = \<lparr>m_globals =
     [\<lparr>g_name = ''initlevel'', g_section = '''', g_ty = LInt 32, g_init = Some (SConst 0 (LInt 32))\<rparr>,
      \<lparr>g_name = ''x'', g_section = '''', g_ty = LInt 32, g_init = None\<rparr>], m_aliases = []\<rparr>"

definition demo_tool :: tool where
  "demo_tool = \<lparr>t_parse = (\<lambda>f. Some demo_module), t_broken = (\<lambda>M. False), t_link = (\<lambda>M m. m),
     t_uniq = first_free, t_extern = (\<lambda>n. True), t_ty = (\<lambda>t. MInt 32),
     t_cst = (\<lambda>c. CData (MInt 32) [0, 0, 0, 0]), t_tls = (\<lambda>n. False),
     t_construct = (\<lambda>gs. ([], two_calls\<lparr>imem := (\<lambda>a. Some 0), ECStack := [],
       gaddr := (\<lambda>n. if n = ''x'' then 0x7000 else 0x8000)\<rparr>)),
     t_live = [0x7000, 0x8000], t_malloc = three_addrs, t_structs = loop_structs, t_run = loop_env\<rparr>"

definition demo_loaded :: lmod where
  "demo_loaded = \<lparr>m_globals =
     [\<lparr>g_name = ''initlevel'', g_section = '''', g_ty = LInt 32, g_init = Some (SConst 0 (LInt 32))\<rparr>,
      \<lparr>g_name = ''x'', g_section = '''', g_ty = LInt 32, g_init = Some (SNull (LInt 32))\<rparr>], m_aliases = []\<rparr>"

lemma demo_tool_ok: "tool_ok demo_tool demo_loaded"
proof -
  have "end_reads_ok (re_ends loop_env)" by (simp add: loop_env_def call_env_def junk_reads_ok)
  moreover have "re_llvm loop_env = packed_env" by (simp add: loop_env_def call_env_def)
  ultimately show ?thesis using packed_store_ok three_addrs_ok loop_env_keeps
    by (auto simp: tool_ok_def home_of_def demo_tool_def demo_loaded_def module_globals_def inits_typed_def
        construct_ok_def inj_on_def global_size_def packed_env_def vma_fits_def new_vma_def)
qed

lemma demo_own_memory:
  "own_memory packed_env (home_of demo_tool demo_loaded) (module_globals demo_tool demo_loaded)
     \<lparr>ig_name = ''x'', ig_decl = False, ig_ty = MInt 32, ig_init = Some (CData (MInt 32) [0, 0, 0, 0]), ig_tls = False\<rparr>"
proof -
  have "\<not> (in_range 0x7000 4 y \<and> in_range 0x8000 4 y)" for y :: u64
    using in_range_base [of "0x7000" 4 y] in_range_base [of "0x8000" 4 y] by auto
  then show ?thesis
    by (simp add: own_memory_def home_of_def module_globals_def demo_loaded_def demo_tool_def packed_env_def)
qed

theorem program_starts_every_round_alike_witness:
  "\<exists>c gs s v. run_main 2 0 demo_tool [''a.ll''] = Inr (replicate 10 v, c, gs, s) \<and>
     initialised packed_env (home_of demo_tool demo_loaded)
       \<lparr>ig_name = ''x'', ig_decl = False, ig_ty = MInt 32, ig_init = Some (CData (MInt 32) [0, 0, 0, 0]), ig_tls = False\<rparr>
       (CData (MInt 32) [0, 0, 0, 0]) (imem s)"
proof -
  let ?x = "\<lparr>ig_name = ''x'', ig_decl = False, ig_ty = MInt 32, ig_init = Some (CData (MInt 32) [0, 0, 0, 0]),
    ig_tls = False\<rparr>"
  have "res_all (load_program demo_tool [''a.ll'']) (\<lambda>(ok, M, gs, s). M = demo_loaded)" by code_simp
  then obtain ok gs0 s0 where l: "load_program demo_tool [''a.ll''] = Inr (ok, demo_loaded, gs0, s0)"
    unfolding res_all_iff by auto
  have "res_all (run_main 2 0 demo_tool [''a.ll'']) (\<lambda>_. True)" by code_simp
  then obtain vs c gs s where r: "run_main 2 0 demo_tool [''a.ll''] = Inr (vs, c, gs, s)"
    unfolding res_all_iff by (metis prod_cases4)
  have "res_all (Inr (fst (irx_struct_get_size loop_structs ''struct.k_thread'' new_caches))) (\<lambda>n. n = 8)"
    by code_simp
  then have "vma_fits (fst (irx_struct_get_size (t_structs demo_tool) ''struct.k_thread'' new_caches)) new_vma"
    by (simp add: res_all_iff vma_fits_def new_vma_def demo_tool_def)
  note th = program_starts_every_round_alike [OF r l demo_tool_ok this]
  have env: "re_llvm (t_run demo_tool) = packed_env" by (simp add: demo_tool_def loop_env_def call_env_def)
  have x: "?x \<in> set (module_globals demo_tool demo_loaded)"
    by (simp add: module_globals_def demo_loaded_def demo_tool_def)
  with th x demo_own_memory r show ?thesis by (auto simp: env)
qed

end
