(* ===== verification/Client.thy ===== *)
theory Client
  imports Program GlobalAccess
begin

text \<open>
  The client of an interpreter: the requests a host program sends to \<open>IRModuleInterpreter\<close> once the
  interpreter has been created (\<open>libirx/irinterpreter2-struct.h\<close>; the Python bindings pass them on
  one by one), in any order and any number. The states a client can reach are an inductive relation;
  what is shown of the memory holds in all of them.
\<close>

section \<open>Requests\<close>

text \<open>What a client gets back: nothing, a block, the bytes of a field, or whether a run went through.\<close>

datatype reply =
    Done
  | Block irx_alloc
  | Bytes "u8 list"
  | Ran bool

datatype request =
    Malloc u64
  | StructAlloc string
  | StructSet string u64 "string list" "u8 list"
  | StructInit string u64 "(string \<times> u8 list) list"
  | StructGet string u64 "string list" nat
  | SetGlobal string "u8 list"
  | SetStop "string list"
  | SetSkip "string list"
  | SetPrint bool
  | RunFunction string "gval list"
  | Resume
  | PutReturnValue gval
  | Reset

text \<open>
  An \<open>IRModuleInterpreter\<close> with its interpreter: the two caches, the variables of the module, the
  \<open>IRXFlowControl\<close> they share and the state of \<open>MyInterpreter\<close>.
\<close>

record client =
  cl_caches :: irm_caches
  cl_globals :: "iglobal list"
  cl_control :: flow_control
  cl_state :: run_state

record client_env =
  ce_structs :: irm_env
  ce_run :: run_env
  ce_lookup :: ee_lookup
  ce_malloc :: safe_malloc

text \<open>A run that threw an exception leaves a state that is not modelled, so the model ends there.\<close>

definition ran :: "client \<Rightarrow> (bool \<times> run_state option) res \<Rightarrow> (reply \<times> client) res" where
  "ran c r = rbind r (\<lambda>(ok, st).
     case st of
       None \<Rightarrow> Inl (Throw ''exception in a run'')
     | Some s \<Rightarrow> Inr (Ran ok, c\<lparr>cl_state := s\<rparr>))"

fun client_step :: "client_env \<Rightarrow> nat \<Rightarrow> nat \<Rightarrow> request \<Rightarrow> client \<Rightarrow> (reply \<times> client) res" where
  "client_step ce fuel fu (Malloc sz) c =
     rbind (my_malloc (re_ends (ce_run ce)) (ce_malloc ce) sz (cl_state c)) (\<lambda>(r, s).
       Inr (Block r, c\<lparr>cl_state := s\<rparr>))"
| "client_step ce fuel fu (StructAlloc name) c =
     rbind (structAlloc (ce_structs ce) (re_ends (ce_run ce)) (ce_malloc ce) name (cl_caches c, cl_state c))
       (\<lambda>(r, cs, s). Inr (Block r, c\<lparr>cl_caches := cs, cl_state := s\<rparr>))"
| "client_step ce fuel fu (StructSet name m path value) c =
     rbind (irx_struct_set (ce_structs ce) (re_ends (ce_run ce)) (allocator (cl_state c)) name m path value
         (cl_caches c, imem (cl_state c)))
       (\<lambda>(cs, mem). Inr (Done, c\<lparr>cl_caches := cs, cl_state := (cl_state c)\<lparr>imem := mem\<rparr>\<rparr>))"
| "client_step ce fuel fu (StructInit name m fvs) c =
     rbind (irx_struct_init (ce_structs ce) (re_ends (ce_run ce)) (allocator (cl_state c)) name m fvs
         (cl_caches c, imem (cl_state c)))
       (\<lambda>(cs, mem). Inr (Done, c\<lparr>cl_caches := cs, cl_state := (cl_state c)\<lparr>imem := mem\<rparr>\<rparr>))"
| "client_step ce fuel fu (StructGet name m path len) c =
     rbind (irx_struct_get (ce_structs ce) (re_ends (ce_run ce)) (allocator (cl_state c)) name m path len
         (cl_caches c, imem (cl_state c)))
       (\<lambda>(bs, cs). Inr (Bytes bs, c\<lparr>cl_caches := cs\<rparr>))"
| "client_step ce fuel fu (SetGlobal name value) c =
     rbind (irx_set_global (re_ends (ce_run ce)) (ce_lookup ce) (cl_globals c) name value (cl_state c)) (\<lambda>s.
       Inr (Done, c\<lparr>cl_state := s\<rparr>))"
| "client_step ce fuel fu (SetStop fs) c = Inr (Done, c\<lparr>cl_control := fc_set_stop fs (cl_control c)\<rparr>)"
| "client_step ce fuel fu (SetSkip fs) c = Inr (Done, c\<lparr>cl_control := fc_set_skip fs (cl_control c)\<rparr>)"
| "client_step ce fuel fu (SetPrint b) c = Inr (Done, c\<lparr>cl_control := setPrintLLVMIR b (cl_control c)\<rparr>)"
| "client_step ce fuel fu (RunFunction name args) c =
     ran c (runFunction fuel fu (ce_run ce) (cl_control c) name args (cl_state c))"
| "client_step ce fuel fu Resume c = ran c (resume fuel fu (ce_run ce) (cl_control c) (cl_state c))"
| "client_step ce fuel fu (PutReturnValue v) c =
     rbind (putReturnValue v (cl_state c)) (\<lambda>s. Inr (Done, c\<lparr>cl_state := s\<rparr>))"
| "client_step ce fuel fu Reset c =
     rbind (resetExtraAllocations (ce_run ce) (cl_globals c) (cl_state c)) (\<lambda>(gs, s).
       Inr (Done, c\<lparr>cl_globals := gs, cl_state := s\<rparr>))"

text \<open>Several requests in a row, with their replies.\<close>

fun client_run :: "client_env \<Rightarrow> nat \<Rightarrow> nat \<Rightarrow> request list \<Rightarrow> client \<Rightarrow> (reply list \<times> client) res" where
  "client_run ce fuel fu [] c = Inr ([], c)"
| "client_run ce fuel fu (r # rs) c =
     rbind (client_step ce fuel fu r c) (\<lambda>(a, c1).
     rbind (client_run ce fuel fu rs c1) (\<lambda>(as, c2). Inr (a # as, c2)))"

section \<open>Reachable states\<close>

text \<open>The size of the block a request asks for, if it asks for one.\<close>

fun requested :: "client_env \<Rightarrow> client \<Rightarrow> request \<Rightarrow> u64 option" where
  "requested ce c (Malloc sz) = Some sz"
| "requested ce c (StructAlloc name) = Some (fst (irx_struct_get_size (ce_structs ce) name (cl_caches c)))"
| "requested ce c r = None"

text \<open>The sizes asked for since the last reset.\<close>

definition sizes_after :: "client_env \<Rightarrow> client \<Rightarrow> request \<Rightarrow> u64 list \<Rightarrow> u64 list" where
  "sizes_after ce c r szs =
     (case requested ce c r of
        Some sz \<Rightarrow> szs @ [sz]
      | None \<Rightarrow> if r = Reset then [] else szs)"

text \<open>
  A client that does not ask for blocks near the size of the whole 64-bit space, whose fuel may
  differ from run to run.
\<close>

inductive client_reach :: "client_env \<Rightarrow> client \<Rightarrow> u64 list \<Rightarrow> client \<Rightarrow> bool" for ce c0 where
  start: "client_reach ce c0 [] c0"
| step: "client_reach ce c0 szs c \<Longrightarrow> client_step ce fuel fu r c = Inr (a, c') \<Longrightarrow>
    \<forall>sz. requested ce c r = Some sz \<longrightarrow> vma_fits sz (ma_vma (allocator (cl_state c))) \<Longrightarrow>
    client_reach ce c0 (sizes_after ce c r szs) c'"

section \<open>The invariant of every client\<close>

text \<open>An interpreter after its creation, and what the model takes from outside.\<close>

definition client_start :: "client_env \<Rightarrow> blk list \<Rightarrow> vma \<Rightarrow> client \<Rightarrow> bool" where
  "client_start ce bs g c \<longleftrightarrow>
     ma_inv (allocator (cl_state c)) bs \<and> ma_vma (allocator (cl_state c)) = vma_freeze g \<and>
     tracked (cl_state c) = [] \<and> end_reads_ok (re_ends (ce_run ce)) \<and> safe_malloc_ok (ce_malloc ce) \<and>
     keeps_allocs (ce_run ce)"

definition client_inv :: "blk list \<Rightarrow> client \<Rightarrow> u64 list \<Rightarrow> client \<Rightarrow> bool" where
  "client_inv bs c0 szs c \<longleftrightarrow> cl_globals c = cl_globals c0 \<and>
     gaddr (cl_state c) = gaddr (cl_state c0) \<and>
     (\<exists>nbs. allocs_since bs (cl_state c0) szs (cl_state c) nbs)"

text \<open>A request that asks for no block and is no reset leaves the allocations and the globals alone.\<close>

lemma client_step_keeps:
  assumes "keeps_allocs (ce_run ce)" and "requested ce c r = None" and "r \<noteq> Reset"
    and "client_step ce fuel fu r c = Inr (a, c')"
  shows "cl_globals c' = cl_globals c \<and> same_allocs (cl_state c) (cl_state c')"
proof (cases r)
  case (RunFunction name args)
  with assms(4) show ?thesis
    by (auto simp: ran_def split: option.splits dest!: runFunction_keeps [OF assms(1)])
next
  case Resume
  with assms(4) show ?thesis
    by (auto simp: ran_def resume_def split: option.splits sum.splits cpp_error.splits
        dest!: run_keeps [OF assms(1)])
next
  case (PutReturnValue v)
  with assms(4) show ?thesis by (auto simp: putReturnValue_def split: if_splits option.splits)
next
  case (SetGlobal name bytes)
  with assms(4) show ?thesis by (auto simp: irx_set_global_def Let_def)
qed (use assms(2-4) in auto)

lemma client_step_malloc:
  assumes "requested ce c r = Some sz" and "client_step ce fuel fu r c = Inr (a, c')"
  obtains b where "my_malloc (re_ends (ce_run ce)) (ce_malloc ce) sz (cl_state c) = Inr (b, cl_state c')"
    and "a = Block b" and "cl_globals c' = cl_globals c"
  using assms by (cases r) (auto simp: structAlloc_eq split_beta)

lemma client_step_reset:
  assumes "client_step ce fuel fu Reset c = Inr (a, c')"
  obtains t where "reset_allocs (re_ends (ce_run ce)) (cl_state c) = Inr t"
    and "InitializeGlobals (re_llvm (ce_run ce)) (re_ends (ce_run ce)) Map.empty (cl_globals c)
      (t\<lparr>ECStack := [], ExitValue := default_gval\<rparr>) = Inr (cl_globals c, cl_state c')"
    and "cl_globals c' = cl_globals c"
proof -
  obtain t where t: "reset_allocs (re_ends (ce_run ce)) (cl_state c) = Inr t"
    "InitializeGlobals (re_llvm (ce_run ce)) (re_ends (ce_run ce)) Map.empty (cl_globals c)
      (t\<lparr>ECStack := [], ExitValue := default_gval\<rparr>) = Inr (cl_globals c', cl_state c')"
    using assms by (auto simp: resetExtraAllocations_def)
  moreover have "cl_globals c' = cl_globals c"
    unfolding InitializeGlobals_flags [OF t(2)] by (simp add: map_idI)
  ultimately show ?thesis using that by simp
qed

lemma client_inv_start: "client_start ce bs g c0 \<Longrightarrow> client_inv bs c0 [] c0"
  by (auto simp: client_start_def client_inv_def intro: allocs_since_refl)

lemma client_step_inv:
  assumes "client_start ce bs g c0" and "client_inv bs c0 szs c"
    and "client_step ce fuel fu r c = Inr (a, c')"
    and "\<forall>sz. requested ce c r = Some sz \<longrightarrow> vma_fits sz (ma_vma (allocator (cl_state c)))"
  shows "client_inv bs c0 (sizes_after ce c r szs) c'"
proof -
  have ok: "ma_inv (allocator (cl_state c0)) bs" "ma_vma (allocator (cl_state c0)) = vma_freeze g"
    "end_reads_ok (re_ends (ce_run ce))" "safe_malloc_ok (ce_malloc ce)" "keeps_allocs (ce_run ce)"
    using assms(1) by (simp_all add: client_start_def)
  obtain nbs where since: "allocs_since bs (cl_state c0) szs (cl_state c) nbs"
    and same: "cl_globals c = cl_globals c0" "gaddr (cl_state c) = gaddr (cl_state c0)"
    using assms(2) by (auto simp: client_inv_def)
  show ?thesis
  proof (cases "requested ce c r")
    case (Some sz)
    obtain b where b: "my_malloc (re_ends (ce_run ce)) (ce_malloc ce) sz (cl_state c) = Inr (b, cl_state c')"
      "cl_globals c' = cl_globals c" using client_step_malloc [OF Some assms(3)] by metis
    have "vma_fits sz (ma_vma (allocator (cl_state c0)))"
      using assms(4) Some allocs_since_fits [OF since] by simp
    then obtain x where "allocs_since bs (cl_state c0) (szs @ [sz]) (cl_state c') (nbs @ [x])"
      using allocs_since_malloc [OF since ok(3,4) _ b(1)] by blast
    with same b my_malloc_gaddr [OF b(1)] Some show ?thesis
      by (auto simp: client_inv_def sizes_after_def)
  next
    case None
    show ?thesis
    proof (cases "r = Reset")
      case True
      with assms(3) obtain t where t: "reset_allocs (re_ends (ce_run ce)) (cl_state c) = Inr t"
        "InitializeGlobals (re_llvm (ce_run ce)) (re_ends (ce_run ce)) Map.empty (cl_globals c)
          (t\<lparr>ECStack := [], ExitValue := default_gval\<rparr>) = Inr (cl_globals c, cl_state c')"
        "cl_globals c' = cl_globals c" using client_step_reset by blast
      have "allocs_since bs (cl_state c0) [] t []" "gaddr t = gaddr (cl_state c)"
        using allocs_since_reset [OF since ok(1,3,2)] t(1) by (metis Inr_inject) (use t(1) in \<open>auto simp: reset_allocs_def\<close>)
      with InitializeGlobals_frame [OF t(2)] same t(3) None True show ?thesis
        by (auto simp: client_inv_def sizes_after_def intro!: exI [of _ "[]"] allocs_since_same [of bs _ "[]" t])
    next
      case False
      with client_step_keeps [OF ok(5) None _ assms(3)] since same None show ?thesis
        by (auto simp: client_inv_def sizes_after_def same_allocs_def intro: allocs_since_same)
    qed
  qed
qed

lemma client_reach_inv:
  assumes "client_reach ce c0 szs c" and "client_start ce bs g c0"
  shows "client_inv bs c0 szs c"
  using assms(1)
proof induction
  case start
  show ?case using assms(2) by (rule client_inv_start)
next
  case (step szs c fuel fu r a c')
  show ?case using client_step_inv [OF assms(2) step.IH step.hyps(2,3)] .
qed

text \<open>What a list of blocks that were allocated since the start looks like from outside.\<close>

definition blocks_at ::
    "(map_allocator \<Rightarrow> end_reads) \<Rightarrow> map_allocator \<Rightarrow> u64 list \<Rightarrow> u64 list \<Rightarrow> u64 list \<Rightarrow> bool" where
  "blocks_at er a vs szs ps \<longleftrightarrow> length vs = length szs \<and> length ps = length szs \<and> distinct ps \<and>
     set ps \<subseteq> set (host_live a) \<and>
     (\<forall>i < length szs. \<forall>off \<le> szs ! i. vvptr2vptr er a (vs ! i + off) = Inr (ps ! i + off))"

lemma allocs_since_blocks:
  assumes "allocs_since bs s0 szs s nbs" and "end_reads_ok er"
  shows "blocks_at er (allocator s) (tracked s) szs (map b_vptr nbs)"
proof -
  note since = assms(1) [unfolded allocs_since_def]
  then have inv: "ma_inv (allocator s) (bs @ nbs)" by simp
  then have "vptrs_distinct (bs @ nbs)" by (simp add: ma_inv_def ma_core_def)
  then have "distinct (map b_vptr nbs)" by (simp add: vptrs_distinct_def)
  moreover have "vvptr2vptr er (allocator s) (b_lo (nbs ! i) + off) = Inr (b_vptr (nbs ! i) + off)"
    if "i < length nbs" "off \<le> b_hi (nbs ! i) - b_lo (nbs ! i)" for i off
    using that by (intro block_translates [OF inv assms(2)]) simp_all
  ultimately show ?thesis using since by (auto simp: blocks_at_def)
qed

lemma allocs_since_apart:
  assumes "allocs_since bs s0 szs s nbs" and "vma_inv (ma_vma (allocator s0))"
    and "\<forall>sz \<in> set szs. vma_fits sz (ma_vma (allocator s0))"
  shows "sorted_wrt (\<lambda>(v, sz) (w, sz'). v + sz < w) (zip (tracked s) szs)"
  using lin.allocs_disjoint [OF assms(2)] assms(1,3) by (auto simp: allocs_since_def list_all_iff)

lemma client_reach_fits:
  assumes "client_reach ce c0 szs c" and "client_start ce bs g c0"
  shows "\<forall>sz \<in> set szs. vma_fits sz (ma_vma (allocator (cl_state c0)))"
  using assms(1)
proof induction
  case (step szs c fuel fu r a c')
  obtain nbs where "allocs_since bs (cl_state c0) szs (cl_state c) nbs"
    using client_reach_inv [OF step.hyps(1) assms(2)] by (auto simp: client_inv_def)
  from allocs_since_fits [OF this] step.hyps(3) step.IH show ?case
    by (auto simp: sizes_after_def split: option.splits if_splits)
qed simp

lemma client_fits:
  assumes "client_reach ce c0 szs c" and "client_start ce bs g c0"
  shows "vma_fits sz (ma_vma (allocator (cl_state c))) = vma_fits sz (ma_vma (allocator (cl_state c0)))"
  using client_reach_inv [OF assms] by (auto simp: client_inv_def allocs_since_fits)

text \<open>A round of the main program is three requests of a client.\<close>

lemma main_round_client:
  "main_round fuel fu (ce_structs ce) (ce_run ce) (ce_malloc ce) (cl_control c)
       (cl_caches c, cl_globals c, cl_state c) = Inr (v, cs, gs, s) \<longleftrightarrow>
   (\<exists>r ok. client_run ce fuel fu [StructAlloc ''struct.k_thread'', RunFunction ''sys_clock_driver_init'' [], Reset] c =
       Inr ([Block r, Ran ok, Done], c\<lparr>cl_caches := cs, cl_globals := gs, cl_state := s\<rparr>) \<and> v = ia_vvptr r)"
  by (cases c) (auto simp: main_round_def ran_def split: option.splits; fastforce)

section \<open>The clients of a program\<close>

definition tool_env :: "tool \<Rightarrow> ee_lookup \<Rightarrow> client_env" where
  "tool_env t ee = \<lparr>ce_structs = t_structs t, ce_run = t_run t, ce_lookup = ee, ce_malloc = t_malloc t\<rparr>"

definition new_client :: "iglobal list \<Rightarrow> run_state \<Rightarrow> client" where
  "new_client gs s = \<lparr>cl_caches = new_caches, cl_globals = gs, cl_control = new_flow_control, cl_state = s\<rparr>"

lemma program_client_start:
  assumes "load_program t files = Inr (ok, M, gs, s)" and "tool_ok t M"
  obtains bs g where "client_start (tool_env t ee) bs g (new_client gs s)" and "gs = module_globals t M"
    and "homed (re_llvm (t_run t)) (home_of t M) gs bs s"
proof -
  obtain bs g where *: "gs = module_globals t M" "ma_inv (allocator s) bs" "ma_vma (allocator s) = vma_freeze g"
    "tracked s = []" "homed (re_llvm (t_run t)) (home_of t M) gs bs s"
    using load_program_created [OF assms] by blast
  have "client_start (tool_env t ee) bs g (new_client gs s)"
    using * assms(2) by (simp add: client_start_def tool_env_def new_client_def tool_ok_def)
  then show ?thesis using that * by blast
qed

section \<open>Properties\<close>

text \<open>
  C7. Memory safety of every client. In every state a client can reach from a newly created
  interpreter, by any requests in any order, whatever the program it runs does: the variables are where
  they were; the blocks the client got since its last reset are at the addresses that the sizes it
  asked for determine alone, and do not overlap or touch; each address of such a block, its past-the-end address
  included, translates to the same offset of a live host block that no other has and that was
  not live at the start; and the blocks of the start still translate as they did.
\<close>

theorem client_memory_safe:
  assumes "client_start ce bs g c0" and "client_reach ce c0 szs c"
  shows "cl_globals c = cl_globals c0 \<and> gaddr (cl_state c) = gaddr (cl_state c0) \<and>
    gen_allocs vma_next szs (ma_vma (allocator (cl_state c0))) =
      Inr (tracked (cl_state c), ma_vma (allocator (cl_state c))) \<and>
    sorted_wrt (\<lambda>(v, sz) (w, sz'). v + sz < w) (zip (tracked (cl_state c)) szs) \<and>
    (\<exists>ps. blocks_at (re_ends (ce_run ce)) (allocator (cl_state c)) (tracked (cl_state c)) szs ps \<and>
       set ps \<inter> set (host_live (allocator (cl_state c0))) = {}) \<and>
    (\<forall>b \<in> set bs. \<forall>off \<le> b_hi b - b_lo b.
       vvptr2vptr (re_ends (ce_run ce)) (allocator (cl_state c)) (b_lo b + off) = Inr (b_vptr b + off))"
proof -
  let ?start = "cl_state c0" and ?s = "cl_state c"
  have er: "end_reads_ok (re_ends (ce_run ce))" and vma: "vma_inv (ma_vma (allocator ?start))"
    using assms(1) by (auto simp: client_start_def ma_inv_def ma_core_def)
  from client_reach_inv [OF assms(2,1)] obtain nbs where since: "allocs_since bs ?start szs ?s nbs"
    and same: "cl_globals c = cl_globals c0" "gaddr ?s = gaddr ?start" by (auto simp: client_inv_def)
  have "\<exists>ps. blocks_at (re_ends (ce_run ce)) (allocator ?s) (tracked ?s) szs ps \<and>
      set ps \<inter> set (host_live (allocator ?start)) = {}"
    using allocs_since_blocks [OF since er] since
    by (intro exI [of _ "map b_vptr nbs"]) (simp add: allocs_since_def)
  moreover have "vvptr2vptr (re_ends (ce_run ce)) (allocator ?s) (b_lo b + off) = Inr (b_vptr b + off)"
    if "b \<in> set bs" "off \<le> b_hi b - b_lo b" for b off
    using that since by (intro block_translates [OF _ er, of _ "bs @ nbs"]) (simp_all add: allocs_since_def)
  ultimately show ?thesis
    using same since allocs_since_apart [OF since vma client_reach_fits [OF assms(2,1)]]
    by (simp add: allocs_since_def)
qed

text \<open>A client of the program of two calls, which allocates before and after the run stops.\<close>

definition demo_client_env :: client_env where
  "demo_client_env = \<lparr>ce_structs = loop_structs, ce_run = call_env, ce_lookup = list_lookup, ce_malloc = three_addrs\<rparr>"

definition demo_client :: client where
  "demo_client = \<lparr>cl_caches = new_caches, cl_globals = [], cl_control = stop_swap,
     cl_state = two_calls\<lparr>allocator := ma_freeze one_block\<rparr>\<rparr>"

lemma demo_client_start:
  "client_start demo_client_env [blk0] (new_vma\<lparr>lastAllocAddr := 0x5000000C\<rparr>) demo_client"
proof -
  have "keeps_allocs call_env" by (auto simp: keeps_allocs_def call_env_def same_allocs_def)
  then show ?thesis using ma_freeze_inv [OF one_block_inv] three_addrs_ok
    by (simp add: client_start_def demo_client_def demo_client_env_def ma_freeze_def one_block_def two_calls_def
        call_env_def junk_reads_ok)
qed

lemma demo_client_fits: "client_reach demo_client_env demo_client szs c \<Longrightarrow> unat sz < 100 \<Longrightarrow>
    vma_fits sz (ma_vma (allocator (cl_state c)))"
  using client_fits [OF _ demo_client_start]
  by (simp add: demo_client_def vma_fits_def ma_freeze_def one_block_def new_vma_def vma_freeze_def)

lemma demo_client_run:
  "\<exists>c. client_reach demo_client_env demo_client [5, 16] c \<and> tracked (cl_state c) = [0x5000000C, 0x50000014] \<and>
     isRunnable (cl_state c)"
proof -
  have "res_all (client_run demo_client_env 2 0 [Malloc 5, Resume, Malloc 16] demo_client)
      (\<lambda>(as, c). tracked (cl_state c) = [0x5000000C, 0x50000014] \<and> isRunnable (cl_state c))" by code_simp
  then obtain as c where run: "client_run demo_client_env 2 0 [Malloc 5, Resume, Malloc 16] demo_client = Inr (as, c)"
    and c: "tracked (cl_state c) = [0x5000000C, 0x50000014]" "isRunnable (cl_state c)"
    unfolding res_all_iff by auto
  obtain a1 c1 a2 c2 a3 where st: "client_step demo_client_env 2 0 (Malloc 5) demo_client = Inr (a1, c1)"
    "client_step demo_client_env 2 0 Resume c1 = Inr (a2, c2)"
    "client_step demo_client_env 2 0 (Malloc 16) c2 = Inr (a3, c)"
    using run by (auto simp del: client_step.simps)
  note r0 = client_reach.start [of demo_client_env demo_client]
  have r1: "client_reach demo_client_env demo_client [5] c1"
    using client_reach.step [OF r0 st(1)] demo_client_fits [OF r0] by (simp add: sizes_after_def)
  have r2: "client_reach demo_client_env demo_client [5] c2"
    using client_reach.step [OF r1 st(2)] by (simp add: sizes_after_def)
  have "client_reach demo_client_env demo_client [5, 16] c"
    using client_reach.step [OF r2 st(3)] demo_client_fits [OF r2] by (simp add: sizes_after_def)
  with c show ?thesis by blast
qed

theorem client_memory_safe_witness:
  "\<exists>c ps. client_reach demo_client_env demo_client [5, 16] c \<and> length ps = 2 \<and>
     vvptr2vptr junk_reads (allocator (cl_state c)) (0x50000014 + 16) = Inr (ps ! 1 + 16)"
proof -
  obtain c where c: "client_reach demo_client_env demo_client [5, 16] c"
    "tracked (cl_state c) = [0x5000000C, 0x50000014]" using demo_client_run by blast
  obtain ps where "blocks_at (re_ends (ce_run demo_client_env)) (allocator (cl_state c)) [0x5000000C, 0x50000014] [5, 16] ps"
    using client_memory_safe [OF demo_client_start c(1)] c(2) by auto
  then have ps: "length ps = 2" "\<forall>i < 2. \<forall>off \<le> [5, 16] ! i.
      vvptr2vptr junk_reads (allocator (cl_state c)) ([0x5000000C, 0x50000014] ! i + off) = Inr (ps ! i + off)"
    by (simp_all add: blocks_at_def demo_client_env_def call_env_def)
  have "\<forall>off \<le> 16. vvptr2vptr junk_reads (allocator (cl_state c)) (0x50000014 + off) = Inr (ps ! 1 + off)"
    using spec [OF ps(2), of 1] by simp
  from spec [OF this, of 16] c(1) ps(1) show ?thesis by blast
qed

text \<open>
  C8. A client can always start over. From every state it can reach, freeing its blocks and resetting
  the generator goes through, without a failed assertion, a double free or an empty freeze
  stack; and when the whole reset returns, nothing is left to run, there is no exit value and
  no tracked block, the generator stands where it stood at the start, and exactly the host
  blocks of the start are live.
\<close>

theorem client_can_reset:
  assumes "client_start ce bs g c0" and "client_reach ce c0 szs c"
  shows "(\<exists>t. reset_allocs (re_ends (ce_run ce)) (cl_state c) = Inr t) \<and>
    (\<forall>fuel fu a c'. client_step ce fuel fu Reset c = Inr (a, c') \<longrightarrow>
       \<not> isRunnable (cl_state c') \<and> getExitValue (cl_state c') = default_gval \<and>
       tracked (cl_state c') = [] \<and> ma_vma (allocator (cl_state c')) = ma_vma (allocator (cl_state c0)) \<and>
       set (host_live (allocator (cl_state c'))) = set (host_live (allocator (cl_state c0))))"
proof -
  let ?er = "re_ends (ce_run ce)" and ?a0 = "allocator (cl_state c0)"
  have ok: "ma_inv ?a0 bs" "end_reads_ok ?er" "ma_vma ?a0 = vma_freeze g"
    using assms(1) by (simp_all add: client_start_def)
  from client_reach_inv [OF assms(2,1)] obtain nbs where "allocs_since bs (cl_state c0) szs (cl_state c) nbs"
    by (auto simp: client_inv_def)
  from allocs_since_reset [OF this ok] have "\<exists>t. reset_allocs ?er (cl_state c) = Inr t" by blast
  moreover have "\<not> isRunnable (cl_state c') \<and> getExitValue (cl_state c') = default_gval \<and>
      tracked (cl_state c') = [] \<and> ma_vma (allocator (cl_state c')) = ma_vma ?a0 \<and>
      set (host_live (allocator (cl_state c'))) = set (host_live ?a0)"
    if *: "client_step ce fuel fu Reset c = Inr (a, c')" for fuel fu a c'
  proof -
    obtain t where t: "InitializeGlobals (re_llvm (ce_run ce)) ?er Map.empty (cl_globals c)
        (t\<lparr>ECStack := [], ExitValue := default_gval\<rparr>) = Inr (cl_globals c, cl_state c')"
      using client_step_reset [OF *] by blast
    from run_more_fields [of "cl_state c'" "t\<lparr>ECStack := [], ExitValue := default_gval\<rparr>"] InitializeGlobals_frame [OF t]
    have st: "ECStack (cl_state c') = []" "ExitValue (cl_state c') = default_gval" by simp_all
    have "client_reach ce c0 (sizes_after ce c Reset szs) c'"
      by (rule client_reach.step [OF assms(2) *]) simp
    then have "client_inv bs c0 [] c'"
      using client_reach_inv [OF _ assms(1)] by (simp add: sizes_after_def)
    then obtain nbs where "allocs_since bs (cl_state c0) [] (cl_state c') nbs" by (auto simp: client_inv_def)
    from allocs_since_start [OF this] st show ?thesis by (simp add: isRunnable_def getExitValue_def)
  qed
  ultimately show ?thesis by blast
qed

theorem client_can_reset_witness:
  "\<exists>c a c'. client_reach demo_client_env demo_client [5, 16] c \<and> isRunnable (cl_state c) \<and>
     client_step demo_client_env 0 0 Reset c = Inr (a, c') \<and> \<not> isRunnable (cl_state c')"
proof -
  obtain c where c: "client_reach demo_client_env demo_client [5, 16] c" "isRunnable (cl_state c)"
    using demo_client_run by blast
  note reset = client_can_reset [OF demo_client_start c(1)]
  then obtain t where t: "reset_allocs (re_ends (ce_run demo_client_env)) (cl_state c) = Inr t" by blast
  have "cl_globals c = []"
    using client_reach_inv [OF c(1) demo_client_start] by (simp add: client_inv_def demo_client_def)
  with t have "\<exists>a c'. client_step demo_client_env 0 0 Reset c = Inr (a, c')"
    by (simp add: resetExtraAllocations_def)
  with c reset show ?thesis by blast
qed

text \<open>
  C9. Whatever a client does with a loaded program, the program's data survives: in every state it can reach,
  every address of every defined variable of the loaded module translates to the memory LLVM gave
  that variable, and each reset that returns gives every variable that is not thread local and
  shares memory with no other the value of its initialiser again, whatever the client or the program
  wrote there.
\<close>

theorem program_clients_safe:
  assumes "load_program t files = Inr (ok, M, gs, s)" and "tool_ok t M"
    and "client_reach (tool_env t ee) (new_client gs s) szs c"
  shows "cl_globals c = module_globals t M \<and>
    (\<forall>g \<in> set gs. \<not> ig_decl g \<longrightarrow> (\<forall>off \<le> global_size (re_llvm (t_run t)) g.
       vvptr2vptr (re_ends (t_run t)) (allocator (cl_state c)) (gaddr (cl_state c) (ig_name g) + off) =
         Inr (home_of t M (ig_name g) + off))) \<and>
    (\<forall>fuel fu a c'. client_step (tool_env t ee) fuel fu Reset c = Inr (a, c') \<longrightarrow>
       (\<forall>g \<in> set gs. \<forall>k. ig_init g = Some k \<longrightarrow> \<not> ig_tls g \<longrightarrow>
          own_memory (re_llvm (t_run t)) (home_of t M) gs g \<longrightarrow>
          initialised (re_llvm (t_run t)) (home_of t M) g k (imem (cl_state c'))))"
proof -
  let ?env = "re_llvm (t_run t)" and ?er = "re_ends (t_run t)" and ?home = "home_of t M"
  have ok: "end_reads_ok ?er" "store_ok ?env" "inits_typed ?env (module_globals t M)"
    "distinct (map ig_name (module_globals t M))"
    using assms(2) by (simp_all add: tool_ok_def construct_ok_def)
  obtain bs g0 where st: "client_start (tool_env t ee) bs g0 (new_client gs s)" and gs: "gs = module_globals t M"
    and home: "homed ?env ?home gs bs s" using program_client_start [OF assms(1,2)] by blast
  from client_reach_inv [OF assms(3) st] obtain nbs where since: "allocs_since bs s szs (cl_state c) nbs"
    and same: "cl_globals c = gs" "gaddr (cl_state c) = gaddr s"
    by (auto simp: client_inv_def new_client_def)
  have inv: "ma_inv (allocator (cl_state c)) (bs @ nbs)" using since by (simp add: allocs_since_def)
  have h: "homed ?env ?home gs (bs @ nbs) (cl_state c)" using home same by (auto simp: homed_def)
  have "vvptr2vptr ?er (allocator (cl_state c)) (gaddr (cl_state c) (ig_name g) + off) = Inr (?home (ig_name g) + off)"
    if "g \<in> set gs" "\<not> ig_decl g" "off \<le> global_size ?env g" for g off
    using homed_translates [OF h inv ok(1) that] by (simp add: vvptr2vptr_def)
  moreover have "initialised ?env ?home g k (imem (cl_state c'))"
    if *: "client_step (tool_env t ee) fuel fu Reset c = Inr (a, c')" "g \<in> set gs" "ig_init g = Some k"
      "\<not> ig_tls g" "own_memory ?env ?home gs g" for fuel fu a c' g k
  proof -
    obtain u where u: "reset_allocs ?er (cl_state c) = Inr u"
      "InitializeGlobals ?env ?er Map.empty gs (u\<lparr>ECStack := [], ExitValue := default_gval\<rparr>) = Inr (gs, cl_state c')"
      using client_step_reset [OF *(1)] same(1) by (auto simp: tool_env_def)
    have "client_reach (tool_env t ee) (new_client gs s) (sizes_after (tool_env t ee) c Reset szs) c'"
      by (rule client_reach.step [OF assms(3) *(1)]) simp
    then have "client_inv bs (new_client gs s) [] c'"
      using client_reach_inv [OF _ st] by (simp add: sizes_after_def)
    then obtain nbs' where "allocs_since bs s [] (cl_state c') nbs'" and ga: "gaddr (cl_state c') = gaddr s"
      by (auto simp: client_inv_def new_client_def)
    note start = allocs_since_start [OF this(1)]
    let ?u = "u\<lparr>ECStack := [], ExitValue := default_gval\<rparr>"
    have "homed ?env ?home gs bs ?u" "ma_inv (allocator ?u) bs"
      using InitializeGlobals_frame [OF u(2)] ga start(2) homed_same [OF _ home, of ?u] by simp_all
    from homed_contents [OF u(2) ok(2) _ _ this ok(1) *(2,3,5)] *(4) ok(3,4) gs show ?thesis by simp
  qed
  ultimately show ?thesis using same gs by blast
qed

text \<open>The variable \<open>x\<close> is set, a block is allocated, and after the reset \<open>x\<close> is zero again.\<close>

theorem program_clients_safe_witness:
  "\<exists>gs s c as c'. load_program demo_tool [''a.ll''] = Inr (True, demo_loaded, gs, s) \<and>
     client_run (tool_env demo_tool list_lookup) 0 0 [SetGlobal ''x'' [1, 2, 3, 4], Malloc 8] (new_client gs s) = Inr (as, c) \<and>
     client_step (tool_env demo_tool list_lookup) 0 0 Reset c = Inr (Done, c') \<and>
     imem (cl_state c) 0x7000 = Some 1 \<and>
     initialised packed_env (home_of demo_tool demo_loaded)
       \<lparr>ig_name = ''x'', ig_decl = False, ig_ty = MInt 32, ig_init = Some (CData (MInt 32) [0, 0, 0, 0]), ig_tls = False\<rparr>
       (CData (MInt 32) [0, 0, 0, 0]) (imem (cl_state c'))"
proof -
  let ?x = "\<lparr>ig_name = ''x'', ig_decl = False, ig_ty = MInt 32, ig_init = Some (CData (MInt 32) [0, 0, 0, 0]),
    ig_tls = False\<rparr>"
  let ?ce = "tool_env demo_tool list_lookup" and ?rs = "[SetGlobal ''x'' [1, 2, 3, 4], Malloc 8]"
  have "res_all (load_program demo_tool [''a.ll'']) (\<lambda>(ok, M, gs, s). ok \<and> M = demo_loaded \<and>
      res_all (client_run ?ce 0 0 ?rs (new_client gs s)) (\<lambda>(as, c). imem (cl_state c) 0x7000 = Some 1 \<and>
      res_all (client_step ?ce 0 0 Reset c) (\<lambda>(a, c'). a = Done)))" by code_simp
  then obtain gs s as c c' where l: "load_program demo_tool [''a.ll''] = Inr (True, demo_loaded, gs, s)"
    and run: "client_run ?ce 0 0 ?rs (new_client gs s) = Inr (as, c)" and one: "imem (cl_state c) 0x7000 = Some 1"
    and reset: "client_step ?ce 0 0 Reset c = Inr (Done, c')"
    unfolding res_all_iff by auto
  obtain a1 c1 a2 where st: "client_step ?ce 0 0 (SetGlobal ''x'' [1, 2, 3, 4]) (new_client gs s) = Inr (a1, c1)"
    "client_step ?ce 0 0 (Malloc 8) c1 = Inr (a2, c)"
    using run by (auto simp del: client_step.simps)
  obtain bs g where start: "client_start ?ce bs g (new_client gs s)" and gs: "gs = module_globals demo_tool demo_loaded"
    using program_client_start [OF l demo_tool_ok] by blast
  have r1: "client_reach ?ce (new_client gs s) [] c1"
    using client_reach.step [OF client_reach.start st(1)] by (simp add: sizes_after_def)
  obtain g0 where "ma_vma (allocator s) = vma_freeze g0" "vma_fits 8 g0 = vma_fits 8 new_vma"
    using load_program_created [OF l demo_tool_ok] by blast
  then have "vma_fits 8 (ma_vma (allocator s))" by (simp add: vma_fits_def vma_freeze_def new_vma_def)
  then have "vma_fits 8 (ma_vma (allocator (cl_state c1)))"
    using client_fits [OF r1 start] by (simp add: new_client_def)
  with client_reach.step [OF r1 st(2)] have "client_reach ?ce (new_client gs s) [8] c" by (simp add: sizes_after_def)
  note th = program_clients_safe [OF l demo_tool_ok this]
  have env: "re_llvm (t_run demo_tool) = packed_env" by (simp add: demo_tool_def loop_env_def call_env_def)
  have x: "?x \<in> set gs" by (simp add: gs module_globals_def demo_loaded_def demo_tool_def)
  have own: "own_memory packed_env (home_of demo_tool demo_loaded) gs ?x"
    unfolding gs by (rule demo_own_memory)
  have "initialised packed_env (home_of demo_tool demo_loaded) ?x (CData (MInt 32) [0, 0, 0, 0]) (imem (cl_state c'))"
    using th reset x own by (simp add: env)
  with l run one reset show ?thesis by blast
qed

end
