(* ===== verification/MemberTypes.thy ===== *)
theory MemberTypes
  imports StructAccess
begin

text \<open>
  The part of \<open>libirx/irinterpreter2-debug.cc\<close> that goes from debug information to LLVM types, and from
  the indices of a path back to a node: \<open>DIType2Type\<close>, \<open>DIType2TypeWrapInArrayIfNeeded\<close> and \<open>getMemberAt\<close>.
  They are the typed counterpart of the search by name in \<open>DebugInfo\<close>, with which they are compared.

  The encoding of a basic type is an argument: whether it is \<open>DW_ATE_float\<close>.
\<close>

section \<open>Types of nodes\<close>

definition DIBasicTypetoLLVMType :: "(nat \<Rightarrow> bool) \<Rightarrow> di_graph \<Rightarrow> nat \<Rightarrow> mty option" where
  "DIBasicTypetoLLVMType float_encoding g b =
     (if float_encoding b then Some MFloat
      else if getSizeInBits (g b) \<in> {8, 16, 32, 64} then Some (MInt (getSizeInBits (g b)))
      else None)"

definition DIType2Type ::
    "(nat \<Rightarrow> bool) \<Rightarrow> irm_env \<Rightarrow> nat option \<Rightarrow> irm_caches \<Rightarrow> (mty option \<times> irm_caches) res" where
  "DIType2Type float_encoding e DITy s =
     rbind (resolveDerivedTypeBaseType (im_fuel e) (im_di e) DITy) (\<lambda>D.
     rbind (toBasicType (im_fuel e) (im_di e) D) (\<lambda>DIBTy.
       case Option.bind DIBTy (DIBasicTypetoLLVMType float_encoding (im_di e)) of
         Some BTy \<Rightarrow> Inr (Some BTy, s)
       | None \<Rightarrow>
           (case D of
              None \<Rightarrow> Inl NullDeref
            | Some d \<Rightarrow>
                if isComposite (im_di e d)
                then if getName (im_di e d) = '''' then Inr (None, s)
                     else rbind (getStructTypeByName e (getName (im_di e d)) s) (\<lambda>(Ty, s').
                            Inr (Some Ty, s'))
                else Inr (None, s))))"

definition DIType2TypeWrapInArrayIfNeeded ::
    "(nat \<Rightarrow> bool) \<Rightarrow> irm_env \<Rightarrow> nat option \<Rightarrow> irm_caches \<Rightarrow> (mty option \<times> irm_caches) res" where
  "DIType2TypeWrapInArrayIfNeeded float_encoding e DITy s =
     rbind (DIType2Type float_encoding e DITy s) (\<lambda>(Ty, s').
     rbind (resolveDerivedTypeBaseType (im_fuel e) (im_di e) DITy) (\<lambda>D.
       case D of
         None \<Rightarrow> Inl NullDeref
       | Some d \<Rightarrow>
           if getTag (im_di e d) = TagArray
           then (case Ty of None \<Rightarrow> Inl NullDeref | Some T \<Rightarrow> Inr (Some (MArr T 0), s'))
           else Inr (Ty, s')))"

section \<open>Nodes at indices\<close>

text \<open>
  The loop counts every node among the elements; a base type that is null is an argument of
  \<open>dyn_cast\<close>.
\<close>

fun member_loop :: "di_graph \<Rightarrow> nat list \<Rightarrow> nat \<Rightarrow> nat \<Rightarrow> nat option res" where
  "member_loop g [] i index = Inr None"
| "member_loop g (e # es) i index =
     (if i = index \<and> isDerived (g e)
      then (case getBaseType (g e) of
              None \<Rightarrow> Inl NullDeref
            | Some b \<Rightarrow> if isComposite (g b) then Inr (Some b) else member_loop g es (i + 1) index)
      else member_loop g es (i + 1) index)"

definition getMemberAt :: "di_graph \<Rightarrow> nat \<Rightarrow> nat \<Rightarrow> nat option res" where
  "getMemberAt g CTy index =
     (if getTag (g CTy) = TagArray then Inr (getBaseType (g CTy))
      else member_loop g (getElements (g CTy)) 0 index)"

fun member_path :: "di_graph \<Rightarrow> nat option \<Rightarrow> nat list \<Rightarrow> nat option \<Rightarrow> nat option res" where
  "member_path g CTy [] DITy = Inr DITy"
| "member_path g None (i # is) DITy = Inr None"
| "member_path g (Some c) (i # is) DITy =
     rbind (getMemberAt g c i) (\<lambda>NextDITy.
       case NextDITy of
         None \<Rightarrow> member_path g None is DITy
       | Some d \<Rightarrow> member_path g (if isComposite (g d) then Some d else None) is (Some d))"

definition getMemberAt_path :: "di_graph \<Rightarrow> nat option \<Rightarrow> nat list \<Rightarrow> nat option res" where
  "getMemberAt_path g CTy indices = member_path g CTy indices None"

section \<open>Indices lead back\<close>

lemma member_loop_beyond: "index < i \<Longrightarrow> member_loop g es i index = Inr None"
  by (induction es arbitrary: i) auto

lemma member_loop_nth:
  "k < length es \<Longrightarrow> isDerived (g (es ! k)) \<Longrightarrow> getBaseType (g (es ! k)) = Some b \<Longrightarrow>
   member_loop g es i (i + k) = Inr (if isComposite (g b) then Some b else None)"
proof (induction es arbitrary: i k)
  case (Cons e es)
  show ?case
  proof (cases k)
    case 0
    with Cons.prems show ?thesis by (simp add: member_loop_beyond)
  next
    case (Suc k')
    with Cons.prems Cons.IH [of k' "Suc i"] show ?thesis by simp
  qed
qed simp

text \<open>
  A structure numbers its elements in their order; a union numbers all of them 0, and an array has no
  members.
\<close>

abbreviation ordered :: "di_graph \<Rightarrow> nat \<Rightarrow> bool" where
  "ordered g c \<equiv> getTag (g c) \<noteq> TagArray \<and> getTag (g c) \<noteq> TagUnion"

lemma getMemberAt_element:
  assumes "ordered g c" and "k < length (getElements (g c))"
    and "isDerived (g (getElements (g c) ! k))" and "getBaseType (g (getElements (g c) ! k)) = Some b"
  shows "getMemberAt g c (element_index (g c) k) = Inr (if isComposite (g b) then Some b else None)"
  using assms(1) member_loop_nth [of k "getElements (g c)" g b 0] assms(2-4) by (simp add: getMemberAt_def element_index_def)

lemma getMemberAt_union:
  assumes "getTag (g u) = TagUnion" and "getElements (g u) = e # es" and "isDerived (g e)"
    and "getBaseType (g e) = Some b"
  shows "getMemberAt g u (element_index (g u) k) = Inr (if isComposite (g b) then Some b else None)"
  using assms by (simp add: getMemberAt_def element_index_def member_loop_beyond)

text \<open>What a path to a member of a type that is not composite leads to: the type that holds it.\<close>

definition holder :: "di_typed_index list \<Rightarrow> nat option \<Rightarrow> nat option" where
  "holder is t = (if butlast is = [] then t else snd (last (butlast is)))"

lemma member_path_back:
  "member_at g c m is \<Longrightarrow> ordered g c \<Longrightarrow>
   (\<And>d. Some d \<in> snd ` set (butlast is) \<Longrightarrow> ordered g d) \<Longrightarrow>
   snd (last is) = Some e \<Longrightarrow> getBaseType (g e) = Some b \<Longrightarrow>
   member_path g (Some c) (map fst is) t = Inr (if isComposite (g b) then Some b else holder is t)"
proof (induction arbitrary: t rule: member_at.induct)
  case (named k c e' m)
  then show ?case by (simp add: getMemberAt_element holder_def)
next
  case (nested k c e' b' m "is")
  then have "is \<noteq> []" by (simp add: member_at_nonempty)
  with nested show ?case by (simp add: getMemberAt_element holder_def)
qed

text \<open>
  C37. What \<open>getMemberAt\<close> makes of the indices the search by name found. For a member of
  composite type in a structure, reached through unnamed structures but no unions, they lead back to
  exactly the type of the member. For a member of any other type they do not: they lead to the
  unnamed structure that holds it, and to nothing when it is a member of the structure itself. A
  union numbers all its members 0, so in it every member's index leads to the type of the first one, or to
  nothing if that is not composite.
\<close>

theorem indices_lead_back:
  assumes "di_ok g rk" and "rk c < n" and "ordered g c"
    and "GEP2MemberInfo n g (Some c) m = Inr is" and "is \<noteq> []"
    and "\<And>d. Some d \<in> snd ` set (butlast is) \<Longrightarrow> ordered g d"
    and "snd (last is) = Some e" and "getBaseType (g e) = Some b"
  shows "(isComposite (g b) \<longrightarrow> getMemberAt_path g (Some c) (map fst is) = Inr (Some b)) \<and>
    (\<not> isComposite (g b) \<longrightarrow> getMemberAt_path g (Some c) (map fst is) = Inr (holder is None)) \<and>
    (\<forall>u e' es b' k. getTag (g u) = TagUnion \<longrightarrow> getElements (g u) = e' # es \<longrightarrow> isDerived (g e') \<longrightarrow>
       getBaseType (g e') = Some b' \<longrightarrow>
       getMemberAt g u (element_index (g u) k) = Inr (if isComposite (g b') then Some b' else None))"
proof -
  have "member_at g c m is"
    using GEP2MemberInfo_finds [OF assms(1,2), of m] assms(3-5) by (auto simp: finds_def split: if_splits)
  from member_path_back [OF this assms(3,6-8)] show ?thesis
    by (auto simp: getMemberAt_path_def getMemberAt_union)
qed

section \<open>What the types leave out\<close>

text \<open>
  Every floating point type is the 32-bit one, whatever its size, and an array has no elements: its number
  is not read from the debug information.
\<close>

lemma float_whatever_size: "float_encoding b \<Longrightarrow> DIBasicTypetoLLVMType float_encoding g b = Some MFloat"
  by (simp add: DIBasicTypetoLLVMType_def)

lemma DIType2Type_basic:
  assumes "resolveDerivedTypeBaseType (im_fuel e) (im_di e) DITy = Inr D"
    and "toBasicType (im_fuel e) (im_di e) D = Inr (Some b)"
    and "DIBasicTypetoLLVMType fl (im_di e) b = Some T"
  shows "DIType2Type fl e DITy s = Inr (Some T, s)"
  using assms by (simp add: DIType2Type_def)

lemma DIType2Type_struct:
  assumes "resolveDerivedTypeBaseType (im_fuel e) (im_di e) DITy = Inr (Some d)"
    and "toBasicType (im_fuel e) (im_di e) (Some d) = Inr None"
    and "isComposite (im_di e d)" and "getName (im_di e d) \<noteq> ''''"
    and "caches_ok e s" and "find_struct_type e (''struct.'' @ getName (im_di e d)) = Some T"
  shows "\<exists>s'. DIType2Type fl e DITy s = Inr (Some T, s') \<and> caches_ok e s'"
  using assms getStructTypeByName_found [OF assms(5,6)] by (auto simp: DIType2Type_def)

lemma wrapped_array_empty:
  assumes "resolveDerivedTypeBaseType (im_fuel e) (im_di e) DITy = Inr (Some d)"
    and "getTag (im_di e d) = TagArray" and "DIType2Type fl e DITy s = Inr (T, s')"
  shows "DIType2TypeWrapInArrayIfNeeded fl e DITy s =
    (case T of None \<Rightarrow> Inl NullDeref | Some T' \<Rightarrow> Inr (Some (MArr T' 0), s'))"
  using assms by (simp add: DIType2TypeWrapInArrayIfNeeded_def split: option.splits)

section \<open>An example\<close>

text \<open>
  \<open>struct s { struct { int a; struct t b; }; }\<close>: the member \<open>b\<close> leads to its type, the member \<open>a\<close>, which is
  an \<open>int\<close>, to the unnamed structure that holds it.
\<close>

definition nested_nodes :: "di_node list" where
  "nested_nodes =
     [DIComposite TagStructure ''s'' None [1] 64,
      DIDerived TagMember '''' (Some 2) 64,
      DIComposite TagStructure '''' None [3, 4] 64,
      DIDerived TagMember ''a'' (Some 5) 32,
      DIDerived TagMember ''b'' (Some 6) 32,
      DIBasic ''int'' 32,
      DIComposite TagStructure ''t'' None [] 32]"

definition nested_rank :: "nat \<Rightarrow> nat" where
  "nested_rank d = (if d = 0 then 1 else 0)"

lemma nested_ok: "di_ok (di_of nested_nodes) nested_rank"
  by (rule di_ok_of) code_simp

theorem indices_lead_back_witness:
  "getMemberAt_path (di_of nested_nodes) (Some 0) [0, 1] = Inr (Some 6) \<and>
   getMemberAt_path (di_of nested_nodes) (Some 0) [0, 0] = Inr (Some 2)"
proof -
  let ?g = "di_of nested_nodes"
  have "nested_rank 0 < 3" "ordered ?g 0" "ordered ?g 2"
    "GEP2MemberInfo 3 ?g (Some 0) ''b'' = Inr [(0, Some 2), (1, Some 4)]"
    "GEP2MemberInfo 3 ?g (Some 0) ''a'' = Inr [(0, Some 2), (0, Some 3)]"
    "getBaseType (?g 4) = Some 6" "getBaseType (?g 3) = Some 5" "isComposite (?g 6)" "\<not> isComposite (?g 5)"
    by code_simp+
  note h = this
  have "getMemberAt_path ?g (Some 0) (map fst [(0, Some 2), (1, Some (4::nat))]) = Inr (Some 6)"
    using indices_lead_back [OF nested_ok h(1,2,4), of 4 6] h by simp
  moreover have "getMemberAt_path ?g (Some 0) (map fst [(0, Some 2), (0, Some (3::nat))]) = Inr (Some 2)"
    using indices_lead_back [OF nested_ok h(1,2,5), of 3 5] h by (simp add: holder_def)
  ultimately show ?thesis by simp
qed

end
