(* ===== verification/Callbacks.thy ===== *)
theory Callbacks
  imports FlowControl ConstValue
begin

text \<open>
  A function pointer from the initialiser of a table to the call through it. The constant is evaluated
  by \<open>ConstValue\<close>, written by \<open>InitializeMemory\<close> and loaded by \<open>InterpMemory\<close>, both in the pointer size of
  the target, and called by \<open>FlowControl\<close>; all of it is
  \<open>libirx/irinterpreter2-interpreter.cc\<close>.
\<close>

section \<open>The steps\<close>

text \<open>A pointer that fits the target is loaded as it was initialised.\<close>

lemma initialized_pointer_loads:
  assumes "storeSize env (MPtr t) = n" and "n < 8" and "take_bit (8 * n) (PointerVal (constantValue env i)) = v"
    and "InitializeMemory env (CScalar i (MPtr t)) p m = Inr m'"
    and "vvptr2vptr er (allocator s) (PointerVal src) = Inr p"
  shows "visitLoadInst env er j src (MPtr t) vals (s\<lparr>imem := m'\<rparr>) =
    Inr (vals(j \<mapsto> default_gval\<lparr>PointerVal := v\<rparr>))"
proof -
  have sb: "store_bytes env (MPtr t) = n" "custom_copy env (MPtr t)"
    using assms(1,2) by (simp_all add: store_bytes_def custom_copy_def)
  have "mem_write m p (bytes_of n (PointerVal (constantValue env i))) = Inr m'"
    using assms(2,4) sb by (simp add: StoreValueToMemory_def isFirstClassType_def)
  then have "rbind (mem_read m' p n) (\<lambda>bs. Inr (of_bytes bs)) = Inr v"
    using host.object_roundtrip assms(2,3) by simp
  then show ?thesis using assms(2,5) sb
    by (cases "mem_read m' p n") (simp_all add: visitLoadInst_def LoadValueFromMemory_def)
qed

text \<open>The function at an address is found when no two functions share one.\<close>

lemma function_at:
  "distinct (map if_ptr fs) \<Longrightarrow> f \<in> set fs \<Longrightarrow> mappable_function f \<Longrightarrow>
   findFunctionByVPtr fs (if_ptr f) = Some (if_name f)"
  by (induction fs) (auto simp: mappable_function_def image_iff)

lemma function_block:
  assumes "ma_inv a bs" and "end_reads_ok er" and "p \<in> b_vptr ` set bs"
    and "\<forall>b \<in> set bs. unat (b_lo b) < 2 ^ 32"
  obtains v where "vptr2vvptr a p = Inr v" and "vvptr2vptr er a v = Inr p" and "take_bit 32 v = v"
proof -
  obtain b where b: "b \<in> set bs" "b_vptr b = p" using assms(3) by blast
  with assms(4) have "take_bit 32 (b_lo b) = b_lo b" by (intro u64_take_bit_id) simp
  with that [of "b_lo b"] block_translates(1,2) [OF assms(1,2) b(1), of 0] b(2) show ?thesis by simp
qed

text \<open>
  C11. A table of callbacks works. On a target with 32-bit pointers, a slot initialised with a constant
  that is, through any chain of aliases, a defined function, loads a pointer through which a
  call finds this function: it stops the run if the function is one to stop at, is skipped if
  it is one to skip, and else is executed with the function's own address as the value of
  the called operand.
\<close>

theorem callback_table_works:
  assumes "ma_inv (allocator s) bs" and "end_reads_ok (re_ends env)" and "\<forall>b \<in> set bs. unat (b_lo b) < 2 ^ 32"
    and "distinct (map if_ptr (re_functions env))" and "f \<in> set (re_functions env)" and "mappable_function f"
    and "if_ptr f \<in> b_vptr ` set bs"
    and "\<forall>ops. st C \<noteq> NExpr ops" and "ci_pointer (info C)"
    and "resolveAliasesOperand fuel st C = Inr D" and "ci_function (info D) = Some (if_ptr f)"
    and "getConstantValue fuel info base (allocator s) st C = Inr (constantValue (re_llvm env) i)"
    and "storeSize (re_llvm env) (MPtr MFun) = 4"
    and "vvptr2vptr (re_ends env) (allocator s) (PointerVal slot) = Inr p"
    and "InitializeMemory (re_llvm env) (CScalar i (MPtr MFun)) p (imem s) = Inr m"
    and "v = constantValue (re_llvm env) i"
  shows "visitLoadInst (re_llvm env) (re_ends env) j slot (MPtr MFun) vals (s\<lparr>imem := m\<rparr>) =
      Inr (vals(j \<mapsto> v)) \<and>
    (\<forall>I s'. allocator s' = allocator s \<longrightarrow> ECStack s' \<noteq> [] \<longrightarrow> in_op I = OCall \<longrightarrow>
       cb_function (in_call I) = None \<longrightarrow> operand env (cb_operand (in_call I)) s' = v \<longrightarrow>
       operand env (cb_operand (in_call I)) (update_back (\<lambda>h. h\<lparr>fr_caller := Some (in_call I)\<rparr>) s') = v \<longrightarrow>
       runInstruction fu env fc I s' =
         (if if_name f \<in> set (fc_stop fc) then Inr (True, s')
          else if if_name f \<in> set (fc_skip fc) then Inr (False, s')
          else rbind (visit env I (update_back (set_value (cb_operand (in_call I)) (v\<lparr>PointerVal := if_ptr f\<rparr>))
                 (update_back (\<lambda>h. h\<lparr>fr_caller := Some (in_call I)\<rparr>) s'))) (\<lambda>s2. Inr (False, s2))))"
proof -
  obtain w where w: "vptr2vvptr (allocator s) (if_ptr f) = Inr w"
    "vvptr2vptr (re_ends env) (allocator s) w = Inr (if_ptr f)" "take_bit 32 w = w"
    using function_block [OF assms(1,2,7,3)] .
  let ?v = "default_gval\<lparr>PointerVal := w\<rparr>"
  have cv: "constantValue (re_llvm env) i = ?v"
    using getConstantValue_function [OF assms(8-11) w(1), of base] assms(12) by simp
  then have load: "visitLoadInst (re_llvm env) (re_ends env) j slot (MPtr MFun) vals (s\<lparr>imem := m\<rparr>) =
      Inr (vals(j \<mapsto> ?v))"
    using initialized_pointer_loads [OF assms(13) _ _ assms(15,14), of w] w(3) by simp
  have fn: "findFunctionByVPtr (re_functions env) (if_ptr f) = Some (if_name f)" "if_ptr f \<noteq> 0"
    using function_at [OF assms(4-6)] assms(6) by (simp_all add: mappable_function_def)
  have "runInstruction fu env fc I s' =
      (if if_name f \<in> set (fc_stop fc) then Inr (True, s')
       else if if_name f \<in> set (fc_skip fc) then Inr (False, s')
       else rbind (visit env I (update_back (set_value (cb_operand (in_call I)) (?v\<lparr>PointerVal := if_ptr f\<rparr>))
              (update_back (\<lambda>h. h\<lparr>fr_caller := Some (in_call I)\<rparr>) s'))) (\<lambda>s2. Inr (False, s2)))"
    if s': "allocator s' = allocator s" "ECStack s' \<noteq> []" and I: "in_op I = OCall" "cb_function (in_call I) = None"
      and v: "operand env (cb_operand (in_call I)) s' = ?v"
        "operand env (cb_operand (in_call I)) (update_back (\<lambda>h. h\<lparr>fr_caller := Some (in_call I)\<rparr>) s') = ?v"
    for I s'
  proof -
    have "getFunctionWithPtr env (in_call I) s' = Inr (Some (if_name f))"
      using s' I(2) v w(2) fn(1) by (simp add: getFunctionWithPtr_def findFunctionByVVPtr_def)
    note call = runInstruction_call [OF I(1) s'(2) this]
    show ?thesis unfolding call using s' I(2) v w(2) fn by (simp add: visitCallBase_def Let_def)
  qed
  with load show ?thesis by (simp add: assms(16) cv)
qed

text \<open>The constant 2 is an alias of the function \<open>isr\<close> at \<open>0x7000\<close>, the slot is at \<open>0x100\<close>.\<close>

definition isr_env :: run_env where
  "isr_env = call_env\<lparr>
     re_llvm := packed_env\<lparr>constantValue := (\<lambda>i. default_gval\<lparr>PointerVal := 0x50000000\<rparr>)\<rparr>,
     re_functions := [\<lparr>if_name = ''isr'', if_decl = False, if_ptr = 0x7000\<rparr>],
     operand := (\<lambda>v s. default_gval\<lparr>PointerVal := 0x50000000\<rparr>)\<rparr>"

definition isr_call :: instr where
  "isr_call = \<lparr>in_id = 9, in_op = OCall, in_consts = [], in_mem = [], in_ty = MVoid,
     in_call = \<lparr>cb_function = None, cb_operand = 4, cb_args = [], cb_asm = False, cb_ty = TVoid\<rparr>\<rparr>"

theorem callback_table_works_witness:
  "\<exists>m. visitLoadInst (re_llvm isr_env) junk_reads 3 (default_gval\<lparr>PointerVal := 0x100\<rparr>) (MPtr MFun) Map.empty
       (two_calls\<lparr>imem := m\<rparr>) = Inr [3 \<mapsto> default_gval\<lparr>PointerVal := 0x50000000\<rparr>] \<and>
     runInstruction 0 isr_env \<lparr>fc_stop = [''isr''], fc_skip = [], fc_print = False\<rparr> isr_call two_calls =
       Inr (True, two_calls)"
proof -
  let ?st = "\<lambda>c::nat. if c = 2 then NAlias 1 else NOther"
  let ?info = "\<lambda>c::nat. \<lparr>ci_gep = None, ci_pointer = True, ci_function = if c = 1 then Some 0x7000 else None\<rparr>"
  let ?f = "\<lparr>if_name = ''isr'', if_decl = False, if_ptr = 0x7000\<rparr>"
  let ?s = "two_calls\<lparr>imem := (\<lambda>a. Some 0)\<rparr>" and ?slot = "default_gval\<lparr>PointerVal := 0x100\<rparr>"
  let ?v = "default_gval\<lparr>PointerVal := 0x50000000\<rparr>"
  have inv: "ma_inv (allocator ?s) [blk0]" using one_block_inv by (simp add: two_calls_def)
  have er: "end_reads_ok (re_ends isr_env)" by (simp add: isr_env_def call_env_def junk_reads_ok)
  have r: "resolveAliasesOperand 1 ?st 2 = Inr 1" by (simp add: resolveAliasesOperand.simps)
  have tr: "vptr2vvptr one_block 0x7000 = Inr 0x50000000" "vvptr2vptr junk_reads one_block 0x100 = Inr 0x100"
    by code_simp+
  have c: "getConstantValue 1 ?info (\<lambda>st c. Inl WildPointer) (allocator ?s) ?st 2 =
      Inr (constantValue (re_llvm isr_env) 5)"
    using getConstantValue_function [OF _ _ r, of ?info "0x7000" "allocator ?s" "0x50000000"] tr
    by (simp add: two_calls_def isr_env_def)
  obtain m where m: "mem_write (\<lambda>a. Some 0) 0x100 (bytes_of 4 0x50000000) = Inr m"
    using mem_write_total [of "\<lambda>a. Some 0" "bytes_of 4 0x50000000" "0x100"] by auto
  then have ini: "InitializeMemory (re_llvm isr_env) (CScalar 5 (MPtr MFun)) 0x100 (imem ?s) = Inr m"
    by (simp add: isr_env_def StoreValueToMemory_def isFirstClassType_def custom_copy_def store_bytes_def packed_env_def)
  have sl: "vvptr2vptr (re_ends isr_env) (allocator ?s) (PointerVal ?slot) = Inr 0x100"
    using tr by (simp add: isr_env_def call_env_def two_calls_def)
  have sz: "storeSize (re_llvm isr_env) (MPtr MFun) = 4" by (simp add: isr_env_def packed_env_def)
  have lo: "\<forall>b \<in> set [blk0]. unat (b_lo b) < 2 ^ 32" by simp
  have f: "distinct (map if_ptr (re_functions isr_env))" "?f \<in> set (re_functions isr_env)" "mappable_function ?f"
    "if_ptr ?f \<in> b_vptr ` set [blk0]"
    by (simp_all add: isr_env_def mappable_function_def)
  note used = callback_table_works [OF inv er lo f _ _ r _ c sz sl ini refl, of 3 Map.empty 0
      "\<lparr>fc_stop = [''isr''], fc_skip = [], fc_print = False\<rparr>"]
  have v: "constantValue (re_llvm isr_env) 5 = ?v" "operand isr_env k x = ?v" "re_ends isr_env = junk_reads" for k x
    by (simp_all add: isr_env_def call_env_def)
  have "runInstruction 0 isr_env \<lparr>fc_stop = [''isr''], fc_skip = [], fc_print = False\<rparr> isr_call two_calls =
      Inr (True, two_calls)"
    using used by (simp add: v) (simp add: isr_call_def two_calls_def isr_env_def)
  moreover have "?s\<lparr>imem := m\<rparr> = two_calls\<lparr>imem := m\<rparr>" by simp
  ultimately show ?thesis using used by (auto simp: v)
qed

end
