(* ===== verification/Spec2Isabelle.thy ===== *)
theory Spec2Isabelle
  imports MMapAlloc GVAlloc AddrSpace StructAccess ConstValue InterpSetup GlobalAccess ModuleLoad Session
    BlobExtract StructGen Program Client MemberTypes Callbacks
begin

text \<open>
  \<^bold>\<open>irx: interpreting LLVM IR with an address space of its own.\<close>

  \<open>libirx\<close> runs functions of a program given as LLVM IR inside a host process, sets up and
  inspects the program's data structures from Python, and stops, skips and answers calls. It is
  built on LLVM's own interpreter, of which \<open>MyInterpreter\<close> overrides a part, and on a layer that
  lets a program for a 32-bit target run on a 64-bit host: every block of memory has an address
  in the interpreter (\<open>vvptr\<close>) and one in the host (\<open>vptr\<close>), and each access translates.

  Around it are three tools: the linker script emulation, a generator of Python classes from debug
  information, and an extractor of ELF sections.

  \<^bold>\<open>The theories and the code they model\<close> (paths under \<open>src/libirx\<close> unless given)

  \<^item> \<open>Prelude\<close>: 64-bit words, the ways a C++ call can fail (\<open>cpp_error\<close>), the result type
    \<open>'a res\<close> with \<open>rbind\<close>, and list lemmas.
  \<^item> \<open>AddrGen\<close>: \<open>LinearVirtualMemoryAddressGenerator\<close> (\<open>irinterpreter2-mmap.h\<close>, \<open>-mmap.cc\<close>), the record \<open>vma\<close>
    with \<open>next\<close>, \<open>freeze\<close>, \<open>reset\<close>, and its reservation of a range. Locale \<open>addr_gen\<close>: the addresses a generator gives for a list
    of sizes.
  \<^item> \<open>AllocMap\<close>, \<open>IrxAllocator\<close>: the ordered maps and the class \<open>IRXAllocator\<close>: \<open>put\<close>, \<open>find\<close>,
    \<open>remove\<close>, \<open>has\<close> and both directions of the translation. The invariant \<open>blk_rel\<close> relates the two
    maps and the list of nodes to an abstract list of blocks; locale \<open>block_store\<close> is the contract
    of a store of blocks over it.
  \<^item> \<open>MapAlloc\<close>, \<open>MMapAlloc\<close>, \<open>GVAlloc\<close>: the three allocators derived from it; the blocks of
    \<open>MMapAllocator\<close> may touch, which its invariant \<open>touch_rel\<close> allows. \<open>InterpAlloc\<close>: the
    blocks \<open>MyInterpreter\<close> tracks, and \<open>resetExtraAllocations\<close> on them. \<open>AddrSpace\<close>: an abstract
    address space, and locale \<open>refinement\<close>, by which \<open>MapAllocator\<close> implements it.
  \<^item> \<open>HostMemory\<close>: the bytes \<open>memcpy\<close> reads and writes; locale \<open>byte_store\<close> is their contract.
    \<open>InterpMemory\<close>: loads, stores, \<open>InitializeMemory\<close>, \<open>InitializeGlobals\<close> and
    \<open>updateGlobalMappings\<close> of \<open>irinterpreter2-interpreter.cc\<close>. \<open>GlobalAccess\<close>: global variables
    by name and by address (\<open>irinterpreter2-global.cc\<close>).
  \<^item> \<open>AliasFix\<close>: the replacement of aliases in constant expressions around the evaluation of an
    operand (\<open>getOperandValue\<close>) and of an instruction (\<open>runInstruction\<close>), in the same file.
    \<open>ConstValue\<close>: \<open>getConstantValue\<close>. \<open>Callbacks\<close>: function pointers from a constant in an
    initialiser to the call through them.
  \<^item> \<open>FlowControl\<close>: \<open>run\<close>, \<open>runInstruction\<close>, the calls of \<open>IRModuleInterpreter\<close> that stop, skip,
    resume and answer, and the queries about the stack, in the same file. \<open>Session\<close>: the client
    that answers the calls a run stops at. \<open>Reuse\<close>: the loop of the main program
    (\<open>irinterpreter2.cc\<close>), which allocates a structure, runs a function and resets. \<open>Program\<close>: this
    program from the files it loads to its last round. \<open>Client\<close>: the requests of any client in any
    order, as a step function and the relation of the states they can reach.
  \<^item> \<open>ModuleLoad\<close>: \<open>parseIRFiles\<close>, \<open>setInitializer\<close> and the external symbols of a module.
    \<open>InterpSetup\<close>: \<open>createInterpreter\<close> with the marking of the globals as thread local, and the
    destructor of \<open>MyInterpreter\<close>.
  \<^item> \<open>Sections\<close>: \<open>irinterpreter2-sections.cc\<close>, which does the work of Zephyr's linker scripts:
    global variables of a section are collected by level into one array, and the section's
    symbols become aliases into it.
  \<^item> \<open>DebugInfo\<close>, \<open>FieldInfo\<close>: \<open>irinterpreter2-debug.cc\<close>, the search for structures, members
    and paths of member names in the debug information, and the basic type and size of a field.
    \<open>MemberTypes\<close>: from there to LLVM types, and from indices back to members (\<open>DIType2Type\<close>,
    \<open>getMemberAt\<close>).
  \<^item> \<open>StructAccess\<close>: \<open>irinterpreter2-struct.cc\<close>, offsets of paths in the data layout, reading and
    writing a field, structure types by name.
  \<^item> \<open>MarkedSearch\<close>, \<open>StructGen\<close>: \<open>generator-struct/generator-struct.cc\<close>. Locales \<open>marked_search\<close>
    and \<open>written_search\<close> are depth-first searches that mark names; the generator interprets them
    for the types it generates and for the graph it draws.
  \<^item> \<open>LinkerMap\<close>, \<open>BlobExtract\<close>: \<open>extract-blob/\<close>, the parser of a linker's map file with its two
    regular expressions, and the blobs and symbols made from the sections of an ELF file.
  \<^item> this theory: the statements about several of these parts together.

  \<^bold>\<open>How the parts interact.\<close> \<open>ModuleLoad\<close> links the files of a program and runs \<open>Sections\<close> on the
  result; \<open>InterpSetup\<close> creates the interpreter from it: the globals get blocks of the allocator
  and are initialised. \<open>FlowControl\<close> steps through instructions on the record \<open>run_state\<close>,
  which extends \<open>interp\<close> (memory, addresses of globals), which extends \<open>my_allocs\<close> (the allocator
  and its tracked blocks), whose allocator extends \<open>irx\<close>. A load or store translates its address
  with the allocator and then uses \<open>HostMemory\<close>; a call through a pointer translates it and looks
  for the function; \<open>resetExtraAllocations\<close> frees the tracked blocks, resets the generator,
  initialises the globals again and empties the stack. \<open>StructAccess\<close> takes the translated
  address of a structure, the indices \<open>DebugInfo\<close> finds for a path, and the data layout.
  \<open>StructGen\<close> works on the same graph of debug information, \<open>BlobExtract\<close> ends in \<open>Sections\<close>.

  \<^bold>\<open>What the lemmas show.\<close> For the allocators: that every operation keeps the invariant, what it
  does on each branch, which translations it changes, that both directions of the translation
  agree, and that every sequence of operations answers as the abstract address space does. For the
  generator of addresses: blocks never overlap or touch, and a reset gives the frozen addresses
  again. For memory: what a store writes is loaded back and nothing else changes; initialisation
  stays inside its object; mapped globals and functions translate to their memory; a global set by
  name reads back. For aliases:
  no reachable alias is left for the evaluation and the constants are unchanged after it. For flow
  control: where a run stops, what a stop or skip changes, that an answer reaches the stopped
  call, that stopping at calls, answering them and resuming is transparent (\<open>run_stubbed\<close> of \<open>Session\<close> is the
  specification it is compared with, not code), and that the rounds of the main program, of allocating, running and resetting, all start alike. For clients: an
  invariant of every state that any sequence of requests reaches, from which follow that blocks
  lie apart in live memory of their own, that the variables stay in place, and that a reset always
  goes through and brings the first state back. For sections: which
  variables are collected, in which order, and where the symbols point; the module stays well
  typed, and a loaded module is complete. For the life of an interpreter: every global is
  initialised in a block of its own, and LLVM gets its addresses back in the end.
  For structures: the search for a member is total, sound and complete, its indices lead back to the
  type of a member that is composite, offsets stay inside and separate parts do not overlap, a field that was set reads back and the other fields keep their
  value. For the generator of classes: it returns on cyclic types, and every type with a
  name that a class refers to in C (\<open>c_refers\<close>), unless right behind \<open>const\<close> or \<open>volatile\<close>, is written. For
  blobs: the regular expressions match as a scanner without backtracking, a map file reads back
  as it was printed, and symbols point into the bytes of their sections exactly when the ELF file and
  the map file agree on the sizes. Some theorems state
  defects of the code as it is: a block that cannot be found, a
  dangling entry, arguments of the wrong call, operands that are not restored, an end symbol one
  element too far, entries of a section that are lost, a null cache, the type of an element of
  an array of pointers, a global that is not found by its address, a class hidden by its typedef or
  by a qualifier, a division by the size of a typedef, and assertions of LLVM that an empty
  initialiser and a section without contents trip.

  \<^bold>\<open>Parameters and hypotheses.\<close> Code that is not part of the repository is a parameter: the memory
  that \<open>safe_malloc\<close> and \<open>mmap\<close> return (\<open>safe_malloc_ok\<close>: fresh blocks), the values read through
  past-the-end iterators (\<open>end_reads\<close>), LLVM's data layout and its default loads and stores
  (\<open>llvm_env\<close>, with \<open>store_ok\<close> and \<open>layout_ok\<close>), its lookups of globals (\<open>ee_lookup_ok\<close>: by
  address only for the variables kept under their own name), its choice of unused names (\<open>uniq_ok\<close>: a name that no variable,
  alias or function has is kept), its assertions on the types of initialisers and of address computations as
  failures of the model, its parser (of well-formed constants), verifier and linker, the evaluation of a constant expression,
  LLVM's execution of an instruction and of a call, the constructor of its interpreter, what it
  prints of a node, and the sections of an ELF file. Types, constants, instructions, modules and
  debug information are data of the model, as far as the code looks at them.

  \<^bold>\<open>Fuel.\<close> Structural recursion is used wherever it fits. Chains of aliases and nested constants
  take fuel above their rank (\<open>ranked\<close>), the search for a member takes more than the depth of the
  nesting of unnamed types (\<open>di_ok\<close>), the main loop takes the number of instructions it runs, and
  the generator of classes takes an amount linear in the number of names (\<open>gen_fuel\<close>, for graphs
  with \<open>gen_ok\<close>);
  the termination theorems and the totality parts of the others say that this is enough, and that
  more fuel does not change a result. Machine integers of the address computations are 64-bit
  words that wrap around; bounds such as \<open>vma_fits\<close> are stated where wrapping is excluded.

  \<^bold>\<open>Not modelled.\<close> Logging and printing (\<open>irinterpreter2-logging.cc\<close>) have no effect on the state.
  The destructor of the address generator gives its range back to the host in a build with \<open>DEBUG_MMAP\<close> and
  does nothing otherwise; \<open>getMemoryForGV\<close> passes its call on to LLVM. What is left of the C++ files are
  declarations, includes and code that is commented out.
  The three main functions are modelled from their options on; the options themselves, the messages and
  the opening and closing of files are not. The Python bindings are
  Cython. Parsing, verifying and linking of modules, and the execution of single instructions,
  are done by LLVM.
\<close>

section \<open>Allocator, memory and control together\<close>

text \<open>
  \<open>resetExtraAllocations\<close> makes the interpreter reusable. After a run of \<open>malloc\<close>s since
  the freeze, a reset that returns leaves no frame on the stack and no exit value, the generator
  frozen as before the run, no tracked block and the host memory the run had not yet allocated,
  and the same requests get the same interpreter addresses again.
\<close>

theorem reset_makes_reusable:
  assumes "ma_inv (allocator s) bs" and "end_reads_ok (re_ends env)" and "safe_malloc_ok sm"
    and "ma_vma (allocator s) = vma_freeze g" and "tracked s = []"
    and "\<forall>sz \<in> set szs. vma_fits sz g" and "my_mallocs (re_ends env) sm szs s = Inr (rs, s1)"
    and "resetExtraAllocations env gs s1 = Inr (gs', s2)"
    and "my_mallocs (re_ends env) sm szs s2 = Inr (rs', s3)"
  shows "\<not> isRunnable s2 \<and> getExitValue s2 = default_gval \<and> tracked s2 = [] \<and>
    ma_vma (allocator s2) = ma_vma (allocator s) \<and>
    set (host_live (allocator s2)) = set (host_live (allocator s)) \<and>
    map ia_vvptr rs' = map ia_vvptr rs"
proof -
  note reset = reset_after_mallocs [OF assms(1-7) same_allocs_refl assms(8)]
  then have "ma_inv (allocator s2) bs" "ma_vma (allocator s2) = vma_freeze g" "tracked s2 = []"
    by (simp_all add: assms(4))
  from my_mallocs_reset [OF this(1) assms(2,3) this(2,3) assms(6,9)] reset
  show ?thesis by (auto simp: isRunnable_def getExitValue_def)
qed

theorem reset_makes_reusable_witness:
  "\<exists>rs s1 s2 s3. my_mallocs junk_reads three_addrs [5, 16] (two_calls\<lparr>allocator := ma_freeze one_block\<rparr>) =
       Inr (rs, s1) \<and> resetExtraAllocations call_env [] s1 = Inr ([], s2) \<and>
     my_mallocs junk_reads three_addrs [5, 16] s2 = Inr (rs, s3) \<and> \<not> isRunnable s2"
proof -
  let ?g = "new_vma\<lparr>lastAllocAddr := 0x5000000C\<rparr>"
  let ?s = "two_calls\<lparr>allocator := ma_freeze one_block\<rparr>"
  have inv: "ma_inv (allocator ?s) [blk0]" using ma_freeze_inv [OF one_block_inv] by simp
  have fz: "ma_vma (allocator ?s) = vma_freeze ?g" "tracked ?s = []"
    by (simp_all add: ma_freeze_def one_block_def two_calls_def)
  have fits: "\<forall>sz \<in> set [5, 16]. vma_fits sz ?g" by (simp add: vma_fits_def new_vma_def)
  have er: "end_reads_ok (re_ends call_env)" by (simp add: call_env_def junk_reads_ok)
  have "res_all (my_mallocs junk_reads three_addrs [5, 16] ?s) (\<lambda>(rs, s1).
      res_all (resetExtraAllocations call_env [] s1) (\<lambda>(gs, s2). gs = [] \<and>
      res_all (my_mallocs junk_reads three_addrs [5, 16] s2) (\<lambda>(rs', s3). rs' = rs)))"
    by code_simp
  then obtain rs s1 s2 s3 where run: "my_mallocs junk_reads three_addrs [5, 16] ?s = Inr (rs, s1)"
    "resetExtraAllocations call_env [] s1 = Inr ([], s2)"
    "my_mallocs junk_reads three_addrs [5, 16] s2 = Inr (rs, s3)"
    unfolding res_all_iff by (auto simp del: my_mallocs.simps)
  have "re_ends call_env = junk_reads" by (simp add: call_env_def)
  with reset_makes_reusable [OF inv er three_addrs_ok fz fits, where gs = "[]"] run show ?thesis
    by metis
qed

text \<open>
  C10. Function pointers work across the translation. When the globals and functions of a module
  have been mapped, the address \<open>FindFunctionNamed\<close> gives for a defined function is one that an
  indirect call through it resolves to that function.
\<close>

theorem function_pointer_resolves:
  assumes "ma_inv (allocator s) bs" and "end_reads_ok (re_ends env)"
    and "module_mappable llvm s bs gs (re_functions env)"
    and "distinct (map if_ptr (re_functions env))" and "distinct (map if_name (re_functions env))"
    and "updateGlobalMappings llvm (re_ends env) gs (re_functions env) s = Inr s'"
    and "f \<in> set (re_functions env)" and "mappable_function f"
  shows "\<exists>v. FindFunctionNamed env (if_name f) s' = Inr v \<and>
    findFunctionByVVPtr env v s' = Inr (Some (if_name f))"
proof -
  from mappings_translate [OF assms(1-3,6)] assms(7,8) obtain v where
    v: "vptr2vvptr (allocator s') (if_ptr f) = Inr v"
    "vvptr2vptr (re_ends env) (allocator s') v = Inr (if_ptr f)" by blast
  have "find (\<lambda>h. if_name h = if_name f \<and> \<not> if_decl h) (re_functions env) = Some f"
    using assms(5,7,8) by (intro find_Some_unique) (auto simp: distinct_map mappable_function_def dest: inj_onD)
  moreover have "findFunctionByVPtr fs (if_ptr f) = Some (if_name f)"
    if "distinct (map if_ptr fs)" "f \<in> set fs" for fs
    using that assms(8) by (induction fs) (auto simp: mappable_function_def image_iff)
  ultimately show ?thesis using v assms(4,7)
    by (simp add: FindFunctionNamed_def findFunctionByVVPtr_def)
qed

theorem function_pointer_resolves_witness:
  "\<exists>s' v. updateGlobalMappings packed_env junk_reads []
       [\<lparr>if_name = ''main'', if_decl = False, if_ptr = 0x8000\<rparr>]
       \<lparr>allocator = new_map_allocator [0x8000], tracked = [], imem = Map.empty, gaddr = (\<lambda>n. 0)\<rparr> =
       Inr s' \<and>
     findFunctionByVVPtr (call_env\<lparr>re_functions :=
       [\<lparr>if_name = ''main'', if_decl = False, if_ptr = 0x8000\<rparr>]\<rparr>) v s' = Inr (Some ''main'')"
proof -
  let ?f = "\<lparr>if_name = ''main'', if_decl = False, if_ptr = 0x8000\<rparr>"
  let ?env = "call_env\<lparr>re_functions := [?f]\<rparr>"
  let ?s = "\<lparr>allocator = new_map_allocator [0x8000], tracked = [], imem = Map.empty,
    gaddr = (\<lambda>n. 0)\<rparr> :: interp"
  have inv: "ma_inv (allocator ?s) []" by (simp add: new_map_allocator_inv)
  have er: "end_reads_ok (re_ends ?env)" by (simp add: call_env_def junk_reads_ok)
  have "res_all (updateGlobalMappings packed_env junk_reads [] [?f] ?s) (\<lambda>s'. True)" by code_simp
  then obtain s' where s': "updateGlobalMappings packed_env junk_reads [] [?f] ?s = Inr s'"
    unfolding res_all_iff by blast
  have e: "re_ends ?env = junk_reads" "re_functions ?env = [?f]" by (simp_all add: call_env_def)
  have fit: "vma_fits 1 (ma_vma (allocator ?s))"
    by (simp add: vma_fits_def new_map_allocator_def new_vma_def)
  have "\<exists>v. FindFunctionNamed ?env (if_name ?f) s' = Inr v \<and>
      findFunctionByVVPtr ?env v s' = Inr (Some (if_name ?f))"
    by (rule function_pointer_resolves [OF inv er, of packed_env "[]"])
      (use s' fit in \<open>simp_all add: e mappable_function_def new_map_allocator_def module_mappable_def
        globals_mappable_def\<close>)
  with s' show ?thesis by auto
qed

text \<open>
  C4. The reason for the interpreter's own address space. On a target with 32-bit pointers, the
  address that \<open>malloc\<close> returned for a block, stored to memory as a data pointer and loaded
  back, is the same address again, and it translates to the block's host memory: no pointer of
  the interpreter loses bits, whatever the width of the host's.
\<close>

theorem malloced_pointer_survives_memory:
  assumes "ma_inv (allocator s) bs" and "end_reads_ok er" and "safe_malloc_ok sm"
    and "vma_fits sz (ma_vma (allocator s))" and "unat (endAddr (ma_vma (allocator s))) \<le> 2 ^ 32"
    and "my_malloc er sm sz s = Inr (r, s1)" and "storeSize env (MPtr t) = 4" and "t \<noteq> MFun"
    and "visitStoreInst env er (default_gval\<lparr>PointerVal := ia_vvptr r\<rparr>) src (MPtr t) s1 = Inr s2"
  shows "\<exists>v. visitLoadInst env er i src (MPtr t) Map.empty s2 = Inr [i \<mapsto> v] \<and>
    PointerVal v = ia_vvptr r \<and>
    vvptr2vptr er (allocator s2) (PointerVal v) = Inr (ia_vptr r)"
proof -
  let ?a = "allocator s"
  obtain a1 where m: "ma_malloc er sm sz ?a = Inr (r, a1)" and a1: "allocator s1 = a1"
    using assms(6) by (auto simp: my_malloc_def)
  obtain p where ex: "\<not> exhausted sz ?a" and r: "ia_vvptr r = lastAllocAddr (ma_vma ?a)" "ia_vptr r = p"
    and inv1: "ma_inv a1 (bs @ [new_blk p sz ?a])"
    using ma_malloc_InrE [OF assms(1-4) m] by (metis irx_alloc.select_convs(1,2))
  have "unat (lastAllocAddr (ma_vma ?a)) < 2 ^ 32"
    using ex assms(5) by (simp add: exhausted_def)
  then have tb: "take_bit (8 * 4) (ia_vvptr r) = ia_vvptr r"
    using r(1) by (intro u64_take_bit_id) simp
  let ?v = "default_gval\<lparr>PointerVal := ia_vvptr r\<rparr>"
  from stored_pointer_loads [OF assms(7) _ assms(8,9), of i Map.empty] tb
  have ld: "visitLoadInst env er i src (MPtr t) Map.empty s2 = Inr [i \<mapsto> ?v]"
    and s2: "allocator s2 = a1"
    by (simp_all add: a1)
  have "vvptr2vptr er a1 (ia_vvptr r) = Inr (ia_vptr r)"
    using block_translates(1) [OF inv1 assms(2), of "new_blk p sz ?a" 0] r
    by (simp add: new_blk_def)
  with ld s2 show ?thesis by (intro exI [of _ ?v]) simp
qed

theorem malloced_pointer_survives_memory_witness:
  "\<exists>s1 s2 v. my_malloc junk_reads three_addrs 8
       \<lparr>allocator = one_block, tracked = [], imem = (\<lambda>a. Some 0), gaddr = (\<lambda>n. 0)\<rparr> =
       Inr (\<lparr>ia_vvptr = 0x5000000C, ia_vptr = 0x8000, ia_size = 8\<rparr>, s1) \<and>
     visitStoreInst packed_env junk_reads (default_gval\<lparr>PointerVal := 0x5000000C\<rparr>)
       (default_gval\<lparr>PointerVal := 0x50000000\<rparr>) (MPtr MVoid) s1 = Inr s2 \<and>
     visitLoadInst packed_env junk_reads 3 (default_gval\<lparr>PointerVal := 0x50000000\<rparr>) (MPtr MVoid)
       Map.empty s2 = Inr [3 \<mapsto> v] \<and> PointerVal v = 0x5000000C"
proof -
  let ?s = "\<lparr>allocator = one_block, tracked = [], imem = (\<lambda>a. Some 0), gaddr = (\<lambda>n. 0)\<rparr> :: interp"
  let ?r = "\<lparr>ia_vvptr = 0x5000000C, ia_vptr = 0x8000, ia_size = 8\<rparr>"
  let ?v = "default_gval\<lparr>PointerVal := ia_vvptr ?r\<rparr>" and ?src = "default_gval\<lparr>PointerVal := 0x50000000\<rparr>"
  have "res_all (my_malloc junk_reads three_addrs 8 ?s) (\<lambda>(r, s1). r = ?r \<and>
      vvptr2vptr junk_reads (allocator s1) 0x50000000 = Inr 0x7000)" by code_simp
  then obtain s1 where s1: "my_malloc junk_reads three_addrs 8 ?s = Inr (?r, s1)"
    and tr: "vvptr2vptr junk_reads (allocator s1) 0x50000000 = Inr 0x7000"
    unfolding res_all_iff by auto
  have "imem s1 = (\<lambda>a. Some 0)" using s1 by (auto simp: my_malloc_def)
  then obtain m where "mem_write (imem s1) 0x7000 (bytes_of 4 0x5000000C) = Inr m"
    using mem_write_total [of "imem s1" "bytes_of 4 0x5000000C" "0x7000"] by auto
  then have st: "visitStoreInst packed_env junk_reads ?v ?src (MPtr MVoid) s1 = Inr (s1\<lparr>imem := m\<rparr>)"
    by (simp add: visitStoreInst_def tr StoreValueToMemory_def custom_copy_def store_bytes_def
        packed_env_def)
  have h: "ma_inv (allocator ?s) [blk0]" "vma_fits 8 (ma_vma (allocator ?s))"
    "unat (endAddr (ma_vma (allocator ?s))) \<le> 2 ^ 32" "storeSize packed_env (MPtr MVoid) = 4"
    using one_block_inv by (simp_all add: vma_fits_def one_block_def new_vma_def packed_env_def)
  from malloced_pointer_survives_memory [OF h(1) junk_reads_ok three_addrs_ok h(2,3) s1 h(4) _ st, of 3]
    s1 st show ?thesis by auto
qed

section \<open>The extractor\<close>

text \<open>What \<open>extract-blob\<close> prints when it succeeds is a module in which the sections have been collected.\<close>

lemma extract_main_sections:
  assumes "extract_main can_create targets uniq link parse input out arch = Inr (0, [(f, M)])" and "uniq_ok fns uniq"
    and "\<forall>m. parse input = Some m \<longrightarrow>
      ''initlevel'' \<notin> fns \<union> alias_names (link (snd (setDataLayout targets empty_module arch)) m)"
  shows "f = out \<and> getNamedGlobal M ''initlevel'' \<noteq> None"
  using assms(1,3) initlevel_collected [OF _ assms(2)]
  by (auto simp: extract_main_def collectSections_def empty_module_def Let_def split: if_splits option.splits)

end
